(* ===== verification/Prelude.thy ===== *)
theory Prelude
  imports Main "HOL-Library.Word"
begin

text \<open>
  What every component shares: Go's byte slices, the outcome of a Go call (a value, a returned
  error or a run-time panic), checked indexing and slicing, and the fixed-width little- and
  big-endian integers of \<open>encoding/binary\<close> and \<open>math/big\<close>.

  A Go slice of bytes is a list of 8-bit words; where the code tells a nil slice from an empty
  one the model uses \<open>bytes option\<close>. Lengths and \<open>int\<close> indices are natural
  numbers: the code is read on a 64-bit platform, where no slice is long enough to wrap them.
\<close>

unbundle bit_operations_syntax

type_synonym byte = "8 word"
type_synonym bytes = "8 word list"

named_theorems codec_simps \<open>how decoders act on encoded prefixes\<close>
named_theorems no_panics \<open>calls that never panic\<close>
named_theorems length_simps \<open>lengths of encodings\<close>

section \<open>Outcomes of Go calls\<close>

text \<open>
  \<open>Errorf s\<close> stands for \<open>errors.New(s)\<close> and \<open>fmt.Errorf(s, ...)\<close>: it carries
  the format string of the source, without the formatted arguments. \<open>Panic\<close> is a run-time
  panic (index or slice out of range, an explicit \<open>panic\<close>).
\<close>

datatype go_error = EOF | ErrUnexpectedEOF | Errorf string

datatype failure = Error go_error | Panic

type_synonym 'a result = "failure + 'a"

abbreviation fail :: "string \<Rightarrow> 'a result" where
  "fail msg \<equiv> Inl (Error (Errorf msg))"

definition bindE :: "'a result \<Rightarrow> ('a \<Rightarrow> 'b result) \<Rightarrow> 'b result" where
  "bindE m f = (case m of Inl e \<Rightarrow> Inl e | Inr x \<Rightarrow> f x)"

lemma bindE_simps [simp]:
  "bindE (Inl e) f = Inl e"
  "bindE (Inr x) f = f x"
  by (simp_all add: bindE_def)

lemma bindE_Inr_iff: "bindE m f = Inr y \<longleftrightarrow> (\<exists>x. m = Inr x \<and> f x = Inr y)"
  by (cases m) auto

lemma bindE_Inl_iff: "bindE m f = Inl e \<longleftrightarrow> m = Inl e \<or> (\<exists>x. m = Inr x \<and> f x = Inl e)"
  by (cases m) auto

lemma bindE_cong [fundef_cong]:
  "m = m' \<Longrightarrow> (\<And>x. m' = Inr x \<Longrightarrow> f x = g x) \<Longrightarrow> bindE m f = bindE m' g"
  by (cases m') auto

text \<open>\<open>fmt.Errorf\<close> around a returned error; a panic passes through.\<close>

definition wrapE :: "string \<Rightarrow> 'a result \<Rightarrow> 'a result" where
  "wrapE msg r = (case r of Inl (Error e) \<Rightarrow> fail msg | _ \<Rightarrow> r)"

lemma wrapE_simps [simp]:
  "wrapE msg (Inr x) = Inr x" "wrapE msg (Inl (Error e)) = fail msg" "wrapE msg (Inl Panic) = Inl Panic"
  by (simp_all add: wrapE_def)

lemma wrapE_Inr_iff [simp]: "wrapE msg r = Inr x \<longleftrightarrow> r = Inr x"
  by (auto simp: wrapE_def split: sum.splits failure.splits)

text \<open>A call that never panics.\<close>

definition no_panic :: "'a result \<Rightarrow> bool" where
  "no_panic r \<longleftrightarrow> r \<noteq> Inl Panic"

lemma no_panic_simps [simp]:
  "no_panic (Inr x)" "no_panic (Inl (Error e))" "\<not> no_panic (Inl Panic)"
  by (simp_all add: no_panic_def)

lemma no_panic_bindE:
  "no_panic m \<Longrightarrow> (\<And>x. m = Inr x \<Longrightarrow> no_panic (f x)) \<Longrightarrow> no_panic (bindE m f)"
  by (cases m) (auto simp: no_panic_def)

fun mapE :: "('a \<Rightarrow> 'b result) \<Rightarrow> 'a list \<Rightarrow> 'b list result" where
  "mapE f [] = Inr []"
| "mapE f (x # xs) = bindE (f x) (\<lambda>y. bindE (mapE f xs) (\<lambda>ys. Inr (y # ys)))"

lemma mapE_length: "mapE f xs = Inr ys \<Longrightarrow> length ys = length xs"
  by (induction xs arbitrary: ys) (auto simp: bindE_Inr_iff)

lemma mapE_all_Inr: "(\<And>x. x \<in> set xs \<Longrightarrow> f x = Inr (g x)) \<Longrightarrow> mapE f xs = Inr (map g xs)"
  by (induction xs) auto

lemma mapE_inverse: "(\<And>x. x \<in> set xs \<Longrightarrow> f (g x) = Inr x) \<Longrightarrow> mapE f (map g xs) = Inr xs"
  by (induction xs) simp_all

lemma mapE_append: "mapE f (xs @ ys) = bindE (mapE f xs) (\<lambda>us. bindE (mapE f ys) (\<lambda>vs. Inr (us @ vs)))"
  by (induction xs) (auto simp: bindE_def split: sum.splits)

lemma no_panic_mapE: "(\<And>x. x \<in> set xs \<Longrightarrow> no_panic (f x)) \<Longrightarrow> no_panic (mapE f xs)"
  by (induction xs) (auto intro!: no_panic_bindE)

section \<open>Checked indexing and slicing\<close>

text \<open>
  \<open>idx xs i\<close> is Go's \<open>xs[i]\<close>; \<open>subslice xs i j\<close> is \<open>xs[i:j]\<close>, \<open>slice_from\<close>
  is \<open>xs[i:]\<close> and \<open>slice_to\<close> is \<open>xs[:j]\<close>. Go bounds the upper end by the
  capacity, which is at least the length; the model panics already beyond the length, so a
  proof that no call panics holds for the code.
\<close>

definition idx :: "'a list \<Rightarrow> nat \<Rightarrow> 'a result" where
  "idx xs i = (if i < length xs then Inr (xs ! i) else Inl Panic)"

definition subslice :: "'a list \<Rightarrow> nat \<Rightarrow> nat \<Rightarrow> 'a list result" where
  "subslice xs i j = (if i \<le> j \<and> j \<le> length xs then Inr (take (j - i) (drop i xs)) else Inl Panic)"

definition slice_from :: "'a list \<Rightarrow> nat \<Rightarrow> 'a list result" where
  "slice_from xs i = subslice xs i (length xs)"

definition slice_to :: "'a list \<Rightarrow> nat \<Rightarrow> 'a list result" where
  "slice_to xs j = subslice xs 0 j"

lemma idx_in [simp]: "i < length xs \<Longrightarrow> idx xs i = Inr (xs ! i)"
  by (simp add: idx_def)

lemma subslice_in [simp]: "i \<le> j \<Longrightarrow> j \<le> length xs \<Longrightarrow> subslice xs i j = Inr (take (j - i) (drop i xs))"
  by (simp add: subslice_def)

lemma slice_from_in [simp]: "i \<le> length xs \<Longrightarrow> slice_from xs i = Inr (drop i xs)"
  by (simp add: slice_from_def subslice_def)

lemma slice_to_in [simp]: "j \<le> length xs \<Longrightarrow> slice_to xs j = Inr (take j xs)"
  by (simp add: slice_to_def subslice_def)


section \<open>Fixed-width integers\<close>

text \<open>
  \<open>le_encode n v\<close> is the \<open>n\<close>-byte little-endian form of \<open>v\<close>, modulo
  \<open>256 ^ n\<close>; \<open>binary.LittleEndian\<close>'s \<open>AppendUint32\<close>, \<open>PutUint64\<close> and
  so on are its instances on machine words. \<open>be_encode\<close> is \<open>big.Int.FillBytes\<close>.
\<close>

fun le_encode :: "nat \<Rightarrow> nat \<Rightarrow> bytes" where
  "le_encode 0 v = []"
| "le_encode (Suc n) v = word_of_nat v # le_encode n (v div 256)"

fun le_decode :: "bytes \<Rightarrow> nat" where
  "le_decode [] = 0"
| "le_decode (b # bs) = unat b + 256 * le_decode bs"

definition be_encode :: "nat \<Rightarrow> nat \<Rightarrow> bytes" where
  "be_encode n v = rev (le_encode n v)"

definition be_decode :: "bytes \<Rightarrow> nat" where
  "be_decode bs = le_decode (rev bs)"

definition put_u16 :: "16 word \<Rightarrow> bytes" where
  "put_u16 w = le_encode 2 (unat w)"

definition put_u32 :: "32 word \<Rightarrow> bytes" where
  "put_u32 w = le_encode 4 (unat w)"

definition put_u64 :: "64 word \<Rightarrow> bytes" where
  "put_u64 w = le_encode 8 (unat w)"

definition get_u16 :: "bytes \<Rightarrow> 16 word" where
  "get_u16 bs = word_of_nat (le_decode bs)"

definition get_u32 :: "bytes \<Rightarrow> 32 word" where
  "get_u32 bs = word_of_nat (le_decode bs)"

definition get_u64 :: "bytes \<Rightarrow> 64 word" where
  "get_u64 bs = word_of_nat (le_decode bs)"

lemma unat_byte_of_nat: "unat (word_of_nat v :: byte) = v mod 256"
  by (simp add: unat_of_nat)

lemma unat_byte_less [simp]: "unat (b :: byte) < 256"
proof -
  have "unat b < 2 ^ LENGTH(8)" by (rule unsigned_less)
  then show ?thesis by simp
qed

lemma unat_less_16 [simp]: "unat (a :: 16 word) < 65536"
proof -
  have "unat a < 2 ^ LENGTH(16)" by (rule unsigned_less)
  then show ?thesis by simp
qed

lemma unat_less_32 [simp]: "unat (a :: 32 word) < 4294967296"
proof -
  have "unat a < 2 ^ LENGTH(32)" by (rule unsigned_less)
  then show ?thesis by simp
qed

lemma unat_less_64 [simp]: "unat (a :: 64 word) < 18446744073709551616"
proof -
  have "unat a < 2 ^ LENGTH(64)" by (rule unsigned_less)
  then show ?thesis by simp
qed

lemma unat_le_max [simp]: "unat (b :: byte) \<le> 255" "unat b \<le> 65535"
    "unat (a :: 16 word) \<le> 65535"
  using unat_byte_less [of b] unat_less_16 [of a] by linarith+

lemma unat_of_nat_64: "n < 18446744073709551616 \<Longrightarrow> unat (word_of_nat n :: 64 word) = n"
  by (simp add: unat_of_nat)

lemma length_le_encode [simp, length_simps]: "length (le_encode n v) = n"
  by (induction n arbitrary: v) auto

lemma length_be_encode [simp, length_simps]: "length (be_encode n v) = n"
  by (simp add: be_encode_def)

lemma le_decode_encode [codec_simps]: "le_decode (le_encode n v) = v mod 256 ^ n"
proof (induction n arbitrary: v)
  case (Suc n)
  have "v mod 256 ^ Suc n = v mod 256 + 256 * (v div 256 mod 256 ^ n)"
    by (simp add: mod_mult2_eq)
  with Suc show ?case
    by (simp add: unat_byte_of_nat)
qed simp

lemma le_encode_decode [codec_simps]: "le_encode (length bs) (le_decode bs) = bs"
proof (induction bs)
  case (Cons b bs)
  have "unat (word_of_nat (unat b + 256 * le_decode bs) :: byte) = unat b"
    by (simp only: unat_byte_of_nat) simp
  then have "(word_of_nat (unat b + 256 * le_decode bs) :: byte) = b"
    by (simp only: word_unat_eq_iff)
  with Cons show ?case
    by simp
qed simp

lemma le_decode_less: "le_decode bs < 256 ^ length bs"
proof (induction bs)
  case (Cons b bs)
  have "unat b + 256 * le_decode bs < 256 + 256 * le_decode bs" by simp
  also have "\<dots> \<le> 256 * 256 ^ length bs" using Cons by simp
  finally show ?case by simp
qed simp

lemma le_decode_append: "le_decode (xs @ ys) = le_decode xs + 256 ^ length xs * le_decode ys"
  by (induction xs) (auto simp: algebra_simps)

lemma le_decode_replicate_0 [simp]: "le_decode (replicate n 0) = 0"
  by (induction n) auto

lemma le_encode_mod: "le_encode n (v mod 256 ^ n) = le_encode n v"
  using le_encode_decode [of "le_encode n v"] by (simp add: le_decode_encode)

lemma be_decode_encode [codec_simps]: "be_decode (be_encode n v) = v mod 256 ^ n"
  by (simp add: be_encode_def be_decode_def le_decode_encode)

lemma be_encode_decode [codec_simps]: "be_encode (length bs) (be_decode bs) = bs"
  using le_encode_decode [of "rev bs"] by (simp add: be_encode_def be_decode_def)

lemma be_decode_less: "be_decode bs < 256 ^ length bs"
  using le_decode_less [of "rev bs"] by (simp add: be_decode_def)

lemma length_put [simp, length_simps]:
  "length (put_u16 a) = 2" "length (put_u32 b) = 4" "length (put_u64 c) = 8"
  by (simp_all add: put_u16_def put_u32_def put_u64_def)

lemma get_put [simp, codec_simps]:
  "get_u16 (put_u16 a) = a" "get_u32 (put_u32 b) = b" "get_u64 (put_u64 c) = c"
  by (simp_all add: get_u16_def put_u16_def get_u32_def put_u32_def get_u64_def put_u64_def
      le_decode_encode)

lemma put_get:
  "length bs = 2 \<Longrightarrow> put_u16 (get_u16 bs) = bs"
  "length bs = 4 \<Longrightarrow> put_u32 (get_u32 bs) = bs"
  "length bs = 8 \<Longrightarrow> put_u64 (get_u64 bs) = bs"
  using le_decode_less [of bs] le_encode_decode [of bs]
  by (simp_all add: put_u16_def get_u16_def put_u32_def get_u32_def put_u64_def get_u64_def
        unat_of_nat)

section \<open>Bits\<close>

lemma or_push_bit:
  assumes "x < 2 ^ k"
  shows "x OR push_bit k y = x + 2 ^ k * (y :: nat)"
proof -
  have x: "take_bit k x = x"
    using assms by (simp add: take_bit_nat_eq_self)
  have "x AND push_bit k y = 0"
    by (subst x [symmetric]) (auto simp: bit_eq_iff bit_simps)
  then show ?thesis
    by (simp add: disjunctive_add_eq_or [symmetric] push_bit_eq_mult)
qed

lemma unat_and_low7: "unat ((b :: byte) AND 0x7f) = unat b mod 128"
proof -
  have "b AND 0x7f = take_bit 7 b"
    by (simp add: take_bit_eq_mask mask_eq_exp_minus_1)
  then show ?thesis
    by (simp add: unsigned_take_bit_eq take_bit_nat_def)
qed

lemma or_high_bit:
  assumes "n < 128"
  shows "(word_of_nat n OR 0x80 :: byte) = word_of_nat (n + 128)"
proof -
  have "n OR push_bit 7 1 = n + 128"
    using assms or_push_bit [of n 7 1] by simp
  then have "word_of_nat (n OR 128) = (word_of_nat (n + 128) :: byte)"
    by (simp add: push_bit_eq_mult)
  then show ?thesis
    by (simp add: of_nat_or_eq)
qed

lemma high_bit_set:
  assumes "n < 128"
  shows "\<not> (word_of_nat n OR 0x80 :: byte) < 0x80"
    and "unat ((word_of_nat n OR 0x80 :: byte) AND 0x7f) = n"
proof -
  have u: "unat (word_of_nat (n + 128) :: byte) = n + 128"
    using assms by (simp only: unat_byte_of_nat) simp
  show "\<not> (word_of_nat n OR 0x80 :: byte) < 0x80"
    unfolding or_high_bit [OF assms] word_less_nat_alt u by simp
  show "unat ((word_of_nat n OR 0x80 :: byte) AND 0x7f) = n"
    unfolding or_high_bit [OF assms] unat_and_low7 u using assms by simp
qed

lemma set_high_bit:
  assumes "\<not> (b :: byte) < 0x80"
  shows "word_of_nat (unat b mod 128) OR 0x80 = b"
proof -
  have *: "n mod 128 + 128 = n" if "128 \<le> n" "n < 256" for n :: nat
    using that by (simp add: le_mod_geq)
  have "128 \<le> unat b"
    using assms by (simp add: word_less_nat_alt)
  then have "unat b mod 128 + 128 = unat b"
    by (intro *) simp_all
  then show ?thesis
    using or_high_bit [of "unat b mod 128"] by simp
qed

lemma and_high_bit: "(b :: byte) AND 0x80 = 0 \<longleftrightarrow> unat b < 128"
proof -
  have "b AND 0x80 = 0 \<longleftrightarrow> \<not> bit b 7"
    using and_exp_eq_0_iff_not_bit [of b 7] by simp
  also have "bit b 7 \<longleftrightarrow> odd (unat b div 128)"
  proof -
    have "bit b 7 = bit (unat b) 7"
      by (simp add: bit_unsigned_iff)
    then show ?thesis
      by (simp add: bit_iff_odd)
  qed
  also have "\<not> odd (unat b div 128) \<longleftrightarrow> unat b < 128"
  proof -
    have "unat b div 128 < 2" using unat_byte_less [of b] by linarith
    then have "unat b div 128 = 0 \<or> unat b div 128 = 1" by linarith
    then show ?thesis by (auto simp: div_eq_0_iff)
  qed
  finally show ?thesis .
qed

lemma unat_drop_bit: "unat (drop_bit n w) = unat w div 2 ^ n"
  unfolding unsigned_drop_bit_eq by (simp add: drop_bit_eq_div take_bit_nat_eq_self [OF unsigned_less])

section \<open>Text\<close>

text \<open>\<open>[]byte(s)\<close>\<close>

definition str_bytes :: "string \<Rightarrow> bytes" where
  "str_bytes s = map (\<lambda>c. word_of_nat (of_char c)) s"

text \<open>\<open>strings.IndexByte\<close> and \<open>strings.LastIndexByte\<close>\<close>

fun index_byte :: "char \<Rightarrow> string \<Rightarrow> nat option" where
  "index_byte c [] = None"
| "index_byte c (d # ds) = (if c = d then Some 0 else map_option Suc (index_byte c ds))"

definition last_index_byte :: "char \<Rightarrow> string \<Rightarrow> nat option" where
  "last_index_byte c s = map_option (\<lambda>i. length s - 1 - i) (index_byte c (rev s))"

lemma index_byte_append: "c \<notin> set s \<Longrightarrow> index_byte c (s @ c # t) = Some (length s)"
  by (induction s) auto

lemma index_byte_None: "c \<notin> set s \<Longrightarrow> index_byte c s = None"
  by (induction s) auto

lemma index_byte_Some: "index_byte c s = Some i \<Longrightarrow> i < length s \<and> s ! i = c \<and> c \<notin> set (take i s)"
  by (induction s arbitrary: i) (auto split: if_splits)

lemma last_index_byte_append: "c \<notin> set t \<Longrightarrow> last_index_byte c (s @ c # t) = Some (length s)"
  by (simp add: last_index_byte_def index_byte_append)

lemma last_index_byte_Some:
  assumes "last_index_byte c s = Some i"
  shows "i < length s" "s ! i = c" "c \<notin> set (drop (Suc i) s)"
proof -
  from assms obtain j where j: "index_byte c (rev s) = Some j" "i = length s - 1 - j"
    by (auto simp: last_index_byte_def)
  with index_byte_Some [OF j(1)] show "i < length s" "s ! i = c" "c \<notin> set (drop (Suc i) s)"
    by (auto simp: rev_nth take_rev Suc_diff_Suc)
qed

text \<open>\<open>strings.HasPrefix\<close>\<close>

definition has_prefix :: "string \<Rightarrow> string \<Rightarrow> bool" where
  "has_prefix s p \<longleftrightarrow> take (length p) s = p"

lemma has_prefix_append [simp]: "has_prefix (p @ s) p"
  by (simp add: has_prefix_def)

section \<open>Hexadecimal text\<close>

text \<open>\<open>encoding/hex\<close>: lower-case digits out, either case in.\<close>

definition hex_digit :: "nat \<Rightarrow> char" where
  "hex_digit n = ''0123456789abcdef'' ! n"

definition hex_value :: "char \<Rightarrow> nat option" where
  "hex_value c =
     (let n = of_char c :: nat in
      if 48 \<le> n \<and> n \<le> 57 then Some (n - 48)
      else if 97 \<le> n \<and> n \<le> 102 then Some (n - 87)
      else if 65 \<le> n \<and> n \<le> 70 then Some (n - 55)
      else None)"

fun hex_encode :: "bytes \<Rightarrow> string" where
  "hex_encode [] = []"
| "hex_encode (b # bs) = hex_digit (unat b div 16) # hex_digit (unat b mod 16) # hex_encode bs"

fun hex_decode :: "string \<Rightarrow> bytes result" where
  "hex_decode [] = Inr []"
| "hex_decode [c] =
     (case hex_value c of None \<Rightarrow> fail ''encoding/hex: invalid byte''
      | Some _ \<Rightarrow> fail ''encoding/hex: odd length hex string'')"
| "hex_decode (c # d # cs) =
     (case hex_value c of None \<Rightarrow> fail ''encoding/hex: invalid byte''
      | Some hi \<Rightarrow>
        (case hex_value d of None \<Rightarrow> fail ''encoding/hex: invalid byte''
         | Some lo \<Rightarrow> bindE (hex_decode cs) (\<lambda>bs. Inr (word_of_nat (16 * hi + lo) # bs))))"

lemma hex_value_digit [simp]: "n < 16 \<Longrightarrow> hex_value (hex_digit n) = Some n"
proof -
  assume "n < 16"
  then have "n \<in> {0,1,2,3,4,5,6,7,8,9,10,11,12,13,14,15}" by (simp, arith)
  then show ?thesis by (elim insertE) (simp_all add: hex_value_def hex_digit_def)
qed

lemma hex_decode_encode [simp, codec_simps]: "hex_decode (hex_encode bs) = Inr bs"
proof (induction bs)
  case (Cons b bs)
  have "unat b div 16 < 16" using unat_byte_less [of b] by linarith
  then show ?case using Cons by simp
qed simp

lemma length_hex_encode [simp, length_simps]: "length (hex_encode bs) = 2 * length bs"
  by (induction bs) auto

end
