(* ===== verification/Codec.thy ===== *)
theory Codec
  imports Prelude
begin

text \<open>
  The interface between a wire format and the components that build messages out of it: an
  encoder, a decoder that returns the value and the bytes it left, and the values the format
  covers. A \<open>codec\<close> reads back what it wrote, whatever follows; a \<open>canonical_codec\<close>
  moreover accepts nothing but its own encodings. The clients read counted runs of items with
  \<open>dec_n\<close>, the loop \<open>for i := 0; i < n; i++\<close> over the remaining bytes.
\<close>

type_synonym 'a decoder = "bytes \<Rightarrow> ('a \<times> bytes) result"

fun dec_n :: "'a decoder \<Rightarrow> nat \<Rightarrow> 'a list decoder" where
  "dec_n dec 0 bs = Inr ([], bs)"
| "dec_n dec (Suc n) bs =
     bindE (dec bs) (\<lambda>(x, r). bindE (dec_n dec n r) (\<lambda>(xs, r'). Inr (x # xs, r')))"

lemma dec_n_length: "dec_n dec n bs = Inr (xs, r) \<Longrightarrow> length xs = n"
  by (induction n arbitrary: bs xs) (auto simp: bindE_Inr_iff split: prod.splits)

lemma no_panic_dec_n: "(\<And>bs. no_panic (dec bs)) \<Longrightarrow> no_panic (dec_n dec n bs)"
  by (induction n arbitrary: bs) (auto intro!: no_panic_bindE split: prod.splits)

lemma dec_n_items:
  assumes "\<And>bs x r. dec bs = Inr (x, r) \<Longrightarrow> P x" and "dec_n dec n bs = Inr (xs, r)"
  shows "\<forall>x \<in> set xs. P x"
  using assms(2)
proof (induction n arbitrary: bs xs)
  case (Suc n)
  then obtain y s ys where "dec bs = Inr (y, s)" "dec_n dec n s = Inr (ys, r)" "xs = y # ys"
    by (auto simp: bindE_Inr_iff)
  with Suc.IH assms(1) show ?case
    by auto
qed simp

section \<open>Codecs\<close>

locale codec =
  fixes enc :: "'a \<Rightarrow> bytes"
    and dec :: "bytes \<Rightarrow> (failure + 'a \<times> bytes)"
    and ok :: "'a \<Rightarrow> bool"
  assumes dec_enc: "ok x \<Longrightarrow> dec (enc x @ rest) = Inr (x, rest)"
begin

lemma dec_enc_exact: "ok x \<Longrightarrow> dec (enc x) = Inr (x, [])"
  using dec_enc [of x "[]"] by simp

lemma prefix_free:
  assumes "ok x" "ok y" "enc x @ r = enc y @ s"
  shows "x = y \<and> r = s"
proof -
  have "dec (enc x @ r) = Inr (y, s)"
    unfolding assms(3) using assms(2) by (rule dec_enc)
  with dec_enc [OF assms(1), of r] show ?thesis by simp
qed

lemma enc_inject: "ok x \<Longrightarrow> ok y \<Longrightarrow> enc x = enc y \<Longrightarrow> x = y"
  using prefix_free [of x y "[]" "[]"] by simp

lemma dec_n_enc:
  "\<forall>x \<in> set xs. ok x \<Longrightarrow> dec_n dec (length xs) (concat (map enc xs) @ rest) = Inr (xs, rest)"
  by (induction xs) (simp_all add: dec_enc)

end

section \<open>Canonical codecs\<close>

locale canonical_codec = codec +
  assumes enc_dec: "dec bs = Inr (x, rest) \<Longrightarrow> bs = enc x @ rest \<and> ok x"
begin

lemma dec_shorter: "dec bs = Inr (x, rest) \<Longrightarrow> length rest \<le> length bs"
  by (auto dest: enc_dec)

lemma dec_iff: "dec bs = Inr (x, rest) \<longleftrightarrow> bs = enc x @ rest \<and> ok x"
  by (auto dest: enc_dec simp: dec_enc)

lemma enc_dec_n:
  "dec_n dec n bs = Inr (xs, rest) \<Longrightarrow>
    bs = concat (map enc xs) @ rest \<and> (\<forall>x \<in> set xs. ok x) \<and> length xs = n"
proof (induction n arbitrary: bs xs)
  case (Suc n)
  then obtain y s ys where y: "dec bs = Inr (y, s)"
    and ys: "dec_n dec n s = Inr (ys, rest)" "xs = y # ys"
    by (auto simp: bindE_Inr_iff)
  from Suc.IH [OF ys(1)] enc_dec [OF y] ys(2) show ?case
    by simp
qed simp

lemma dec_n_iff:
  "dec_n dec n bs = Inr (xs, rest) \<longleftrightarrow>
    bs = concat (map enc xs) @ rest \<and> (\<forall>x \<in> set xs. ok x) \<and> length xs = n"
  using enc_dec_n [of n bs xs rest] dec_n_enc [of xs rest] by auto

end

text \<open>A decoder described exactly by its encoder is a canonical codec.\<close>

lemma canonical_codecI:
  assumes "\<And>bs x rest. dec bs = Inr (x, rest) \<longleftrightarrow> bs = enc x @ rest \<and> ok x"
  shows "canonical_codec enc dec ok"
  by unfold_locales (use assms in auto)

section \<open>Streams\<close>

text \<open>Items one after the other until the bytes end; an item takes at least a byte, so the length is enough fuel.\<close>

fun dec_all :: "'a decoder \<Rightarrow> nat \<Rightarrow> bytes \<Rightarrow> 'a list result" where
  "dec_all dec 0 bs = (if bs = [] then Inr [] else fail ''no fuel'')"
| "dec_all dec (Suc n) bs =
     (if bs = [] then Inr [] else bindE (dec bs) (\<lambda>(x, r). bindE (dec_all dec n r) (\<lambda>xs. Inr (x # xs))))"

locale stream_codec = codec +
  assumes enc_nonempty: "ok x \<Longrightarrow> enc x \<noteq> []"
begin

lemma dec_all_enc: "\<forall>x \<in> set xs. ok x \<Longrightarrow> length xs \<le> n \<Longrightarrow> dec_all dec n (concat (map enc xs)) = Inr xs"
proof (induction n arbitrary: xs)
  case (Suc n)
  then show ?case by (cases xs) (auto simp: enc_nonempty dec_enc)
qed simp

lemma stream_length: "\<forall>x \<in> set xs. ok x \<Longrightarrow> length xs \<le> length (concat (map enc xs))"
proof (induction xs)
  case (Cons x xs)
  then have "enc x \<noteq> []" by (simp add: enc_nonempty)
  with Cons show ?case by (cases "enc x") auto
qed simp

lemma dec_stream: "\<forall>x \<in> set xs. ok x \<Longrightarrow> dec_all dec (length (concat (map enc xs))) (concat (map enc xs)) = Inr xs"
  by (intro dec_all_enc stream_length) simp_all

end

end
