(* ===== verification/Pushes.thy ===== *)
theory Pushes
  imports Codec
begin

text \<open>
  Bitcoin script pushes (\<^verbatim>\<open>pushbytes.go\<close>): \<open>PushBytes\<close> chooses the opcode by the
  length of the data, \<open>ParsePushBytes\<close> reads one push and says how many bytes it took. The
  nil slice of the error return is \<open>None\<close>; an empty push is \<open>Some []\<close>.
\<close>

definition PushBytes :: "bytes \<Rightarrow> bytes" where
  "PushBytes v =
     (if length v \<le> 75 then word_of_nat (length v) # v
      else if length v \<le> 0xff then [0x4c, word_of_nat (length v)] @ v
      else if length v \<le> 0xffff then 0x4d # put_u16 (word_of_nat (length v)) @ v
      else 0x4e # put_u32 (word_of_nat (length v)) @ v)"

fun ParsePushBytes :: "bytes \<Rightarrow> bytes option \<times> nat" where
  "ParsePushBytes [] = (None, 0)"
| "ParsePushBytes (p # v) =
     (if p \<le> 75 then
        if length v \<ge> unat p then (Some (take (unat p) v), unat p + 1) else (None, 0)
      else if p = 0x4c then
        (case v of [] \<Rightarrow> (None, 0)
         | l # w \<Rightarrow>
             if length w \<ge> unat l then (Some (take (unat l) w), unat l + 2) else (None, 0))
      else if p = 0x4d then
        (if length v < 2 then (None, 0)
         else let l = get_u16 (take 2 v); w = drop 2 v in
           if length w \<ge> unat l then (Some (take (unat l) w), unat l + 3) else (None, 0))
      else if p = 0x4e then
        (if length v < 4 then (None, 0)
         else let l = get_u32 (take 4 v); w = drop 4 v in
           if length w \<ge> unat l then (Some (take (unat l) w), unat l + 5) else (None, 0))
      else (None, 0))"

text \<open>The reading step of a script: one push and what is left.\<close>

definition parse_push :: "bytes \<Rightarrow> (bytes \<times> bytes) result" where
  "parse_push bs =
     (case ParsePushBytes bs of
        (Some d, n) \<Rightarrow> Inr (d, drop n bs)
      | (None, n) \<Rightarrow> fail ''no push'')"

lemma unat_of_nat_word8: "n < 256 \<Longrightarrow> unat (word_of_nat n :: 8 word) = n"
  and unat_of_nat_word16: "n < 65536 \<Longrightarrow> unat (word_of_nat n :: 16 word) = n"
  and unat_of_nat_word32: "n < 4294967296 \<Longrightarrow> unat (word_of_nat n :: 32 word) = n"
  by (simp_all add: unat_of_nat)

lemma word8_le_75: "n < 256 \<Longrightarrow> (word_of_nat n :: 8 word) \<le> 75 \<longleftrightarrow> n \<le> 75"
  by (simp add: word_le_nat_alt unat_of_nat)

lemma ParsePushBytes_PushBytes_append:
  assumes "length v < 2 ^ 32"
  shows "ParsePushBytes (PushBytes v @ rest) = (Some v, length (PushBytes v))"
  using assms
  by (auto simp: PushBytes_def Let_def word8_le_75 unat_of_nat_word8 unat_of_nat_word16
      unat_of_nat_word32)

lemma ParsePushBytes_None: "ParsePushBytes s = (None, n) \<Longrightarrow> n = 0"
  by (cases s) (auto simp: Let_def split: if_splits list.splits)

text \<open>What a successful parse consumed: an opcode and length prefix, then the data.\<close>

lemma ParsePushBytes_Some:
  assumes "ParsePushBytes s = (Some d, n)"
  shows "n \<le> length s \<and> length d < n \<and> d = drop (n - length d) (take n s)"
proof (cases s)
  case (Cons p v)
  with assms show ?thesis
    by (auto simp: Let_def min_def drop_take split: if_splits list.splits)
qed (use assms in simp)

lemma length_PushBytes:
  "length (PushBytes v) =
     length v + (if length v \<le> 75 then 1 else if length v \<le> 0xff then 2
                 else if length v \<le> 0xffff then 3 else 5)"
  by (simp add: PushBytes_def)

text \<open>No push that parses to the same data is shorter.\<close>

lemma PushBytes_shortest:
  assumes "ParsePushBytes s = (Some d, n)"
  shows "length (PushBytes d) \<le> n"
proof (cases s)
  case (Cons p v)
  have p: "unat p \<le> 75" if "p \<le> 75"
    using that by (simp add: word_le_nat_alt)
  show ?thesis
    using assms Cons p
    by (auto simp: Let_def length_PushBytes min_def split: if_splits list.splits)
qed (use assms in simp)

interpretation push: codec PushBytes parse_push "\<lambda>v. length v < 2 ^ 32"
  by unfold_locales (simp add: parse_push_def ParsePushBytes_PushBytes_append)

section \<open>Properties\<close>

text \<open>
  A push reads back as the data it carries whatever follows it in the script, reports exactly
  its own length, and no other push of the same data that \<open>ParsePushBytes\<close> accepts is shorter.
\<close>

theorem push_roundtrip:
  assumes "length v < 2 ^ 32"
  shows "ParsePushBytes (PushBytes v @ rest) = (Some v, length (PushBytes v)) \<and>
    (\<forall>s n. ParsePushBytes s = (Some v, n) \<longrightarrow> length (PushBytes v) \<le> n)"
  using ParsePushBytes_PushBytes_append [OF assms] PushBytes_shortest by blast

theorem push_roundtrip_witness:
  "ParsePushBytes (PushBytes (replicate 80 7) @ [0xac]) = (Some (replicate 80 7), 82)"
  using push_roundtrip [of "replicate 80 7" "[0xac]"] by (simp add: length_PushBytes)

text \<open>
  On any bytes at all \<open>ParsePushBytes\<close> stays inside its input: it reports at most the
  bytes it was given, the data is the last part of what it consumed, and a refusal consumes
  nothing.
\<close>

theorem push_parse_bounds:
  "case ParsePushBytes s of
     (Some d, n) \<Rightarrow> n \<le> length s \<and> length d < n \<and> d = drop (n - length d) (take n s)
   | (None, n) \<Rightarrow> n = 0"
proof (cases "ParsePushBytes s")
  case (Pair a n)
  then show ?thesis
    using ParsePushBytes_Some [of s _ n] ParsePushBytes_None [of s n] by (cases a) auto
qed

end
