(* ===== verification/Reader.thy ===== *)
theory Reader
  imports Codec
begin

text \<open>
  The sticky reader of \<^verbatim>\<open>util.go\<close> and the variable-length integer of
  \<^verbatim>\<open>btcvarint.go\<close>. An \<open>io.Reader\<close> is the list of bytes it has yet to deliver: it
  gives them all and then \<open>EOF\<close>, as \<open>bytes.Reader\<close> does. A \<open>ReadFrom\<close> method is
  a function from the object it fills and the bytes to the new object, the bytes left, the count
  it returns and the error it returns. After a short read the buffer keeps what was delivered, as
  \<open>io.ReadFull\<close> leaves it, and every later operation does nothing.
\<close>

record read_helper =
  hN :: nat
  hR :: bytes
  hErr :: "go_error option"

type_synonym 'a read_from = "'a \<Rightarrow> bytes \<Rightarrow> 'a \<times> bytes \<times> nat \<times> go_error option"

definition new_helper :: "bytes \<Rightarrow> read_helper" where
  "new_helper r = \<lparr>hN = 0, hR = r, hErr = None\<rparr>"

definition readFull :: "bytes \<Rightarrow> read_helper \<Rightarrow> bytes \<times> read_helper" where
  "readFull buf rc =
     (if hErr rc \<noteq> None then (buf, rc)
      else
        let got = take (length buf) (hR rc);
            n = length got;
            rc' = rc\<lparr>hN := hN rc + n, hR := drop n (hR rc)\<rparr>
        in if n = length buf then (got, rc')
           else (got @ drop n buf,
                 rc'\<lparr>hErr := Some (if n = 0 then EOF else ErrUnexpectedEOF)\<rparr>))"

definition readByte :: "read_helper \<Rightarrow> byte \<times> read_helper" where
  "readByte rc =
     (if hErr rc \<noteq> None then (0, rc)
      else case hR rc of
        [] \<Rightarrow> (0, rc\<lparr>hErr := Some EOF\<rparr>)
      | v # r \<Rightarrow> (v, rc\<lparr>hN := hN rc + 1, hR := r\<rparr>))"

definition readUint16le :: "read_helper \<Rightarrow> 16 word \<times> read_helper" where
  "readUint16le rc = (let (res, rc') = readFull (replicate 2 0) rc in (get_u16 res, rc'))"

definition readUint32le :: "read_helper \<Rightarrow> 32 word \<times> read_helper" where
  "readUint32le rc = (let (res, rc') = readFull (replicate 4 0) rc in (get_u32 res, rc'))"

definition readUint64le :: "read_helper \<Rightarrow> 64 word \<times> read_helper" where
  "readUint64le rc = (let (res, rc') = readFull (replicate 8 0) rc in (get_u64 res, rc'))"

definition readTo :: "'a read_from \<Rightarrow> 'a \<Rightarrow> read_helper \<Rightarrow> 'a \<times> read_helper" where
  "readTo rf d rc =
     (if hErr rc \<noteq> None then (d, rc)
      else
        let (d', r', n, e) = rf d (hR rc);
            rc' = rc\<lparr>hN := hN rc + n, hR := r'\<rparr>
        in (d', if e \<noteq> None then rc'\<lparr>hErr := e\<rparr> else rc'))"

text \<open>The value of a \<open>ReadFrom\<close> whose body ends in \<open>return h.ret()\<close>.\<close>

definition ret :: "'a \<times> read_helper \<Rightarrow> 'a \<times> bytes \<times> nat \<times> go_error option" where
  "ret p = (fst p, hR (snd p), hN (snd p), hErr (snd p))"

section \<open>Variable-length integers\<close>

type_synonym BtcVarInt = "64 word"

definition BtcVarInt_Bytes :: "BtcVarInt \<Rightarrow> bytes" where
  "BtcVarInt_Bytes v =
     (if v \<le> 0xfc then [ucast v]
      else if v \<le> 0xffff then 0xfd # put_u16 (ucast v)
      else if v \<le> 0xffffffff then 0xfe # put_u32 (ucast v)
      else 0xff # put_u64 v)"

definition BtcVarInt_Len :: "BtcVarInt \<Rightarrow> nat" where
  "BtcVarInt_Len v =
     (if v \<le> 0xfc then 1 else if v \<le> 0xffff then 3 else if v \<le> 0xffffffff then 5 else 9)"

definition BtcVarInt_ReadFrom :: "BtcVarInt read_from" where
  "BtcVarInt_ReadFrom v r =
     (let (t, h) = readByte (new_helper r) in
      if t \<le> 0xfc then ret (ucast t, h)
      else if t = 0xfd then (let (x, h) = readUint16le h in ret (ucast x, h))
      else if t = 0xfe then (let (x, h) = readUint32le h in ret (ucast x, h))
      else (let (x, h) = readUint64le h in ret (x, h)))"

text \<open>\<open>WriteTo\<close> appends the encoding to what the writer has taken so far.\<close>

definition BtcVarInt_WriteTo :: "BtcVarInt \<Rightarrow> bytes \<Rightarrow> bytes \<times> nat" where
  "BtcVarInt_WriteTo v w = (w @ BtcVarInt_Bytes v, length (BtcVarInt_Bytes v))"

text \<open>\<open>BtcVarInt(len(x))\<close>, the length prefix of a buffer or a list.\<close>

definition varint_len :: "nat \<Rightarrow> BtcVarInt" where
  "varint_len n = word_of_nat n"

definition readVarBuf :: "read_helper \<Rightarrow> bytes \<times> read_helper" where
  "readVarBuf rc =
     (if hErr rc \<noteq> None then ([], rc)
      else
        let (ln, rc) = readTo BtcVarInt_ReadFrom 0 rc in
        if ln = 0 then ([], rc)
        else if ln > 100000 then
          ([], rc\<lparr>hErr := Some (Errorf ''error: buffer larger than maximum allowed length'')\<rparr>)
        else readFull (replicate (unat ln) 0) rc)"

text \<open>The written form \<open>readVarBuf\<close> reads.\<close>

definition var_buf :: "bytes \<Rightarrow> bytes" where
  "var_buf b = BtcVarInt_Bytes (varint_len (length b)) @ b"

section \<open>Reading loops\<close>

text \<open>\<open>for n := range ds { h.readTo(ds[n]) }\<close>\<close>

fun read_each :: "'a read_from \<Rightarrow> 'a list \<Rightarrow> read_helper \<Rightarrow> 'a list \<times> read_helper" where
  "read_each rf [] rc = ([], rc)"
| "read_each rf (d # ds) rc =
     (let (d', rc) = readTo rf d rc; (ds', rc) = read_each rf ds rc in (d' # ds', rc))"

text \<open>\<open>for n := range ws { ws[n] = h.readVarBuf() }\<close> over \<open>n\<close> items.\<close>

fun read_bufs :: "nat \<Rightarrow> read_helper \<Rightarrow> bytes list \<times> read_helper" where
  "read_bufs 0 rc = ([], rc)"
| "read_bufs (Suc n) rc =
     (let (w, rc) = readVarBuf rc; (ws, rc) = read_bufs n rc in (w # ws, rc))"

section \<open>Progress: what a read consumed\<close>

definition advance :: "nat \<Rightarrow> bytes \<Rightarrow> read_helper \<Rightarrow> read_helper" where
  "advance k r h = h\<lparr>hN := hN h + k, hR := r\<rparr>"

lemma advance_simps [simp]:
  "hErr (advance k r h) = hErr h" "hR (advance k r h) = r" "hN (advance k r h) = hN h + k"
  "advance k r (advance j s h) = advance (j + k) r h"
  by (simp_all add: advance_def)

lemma new_helper_simps [simp]:
  "hErr (new_helper r) = None" "hR (new_helper r) = r" "hN (new_helper r) = 0"
  by (simp_all add: new_helper_def)

text \<open>
  \<open>progress h h'\<close>: the count moved by exactly the bytes taken from the reader, and a
  helper in error did not move at all.
\<close>

definition progress :: "read_helper \<Rightarrow> read_helper \<Rightarrow> bool" where
  "progress h h' \<longleftrightarrow>
     (\<exists>k \<le> length (hR h). hR h' = drop k (hR h) \<and> hN h' = hN h + k) \<and>
     (hErr h \<noteq> None \<longrightarrow> h' = h)"

lemma progress_refl [simp]: "progress h h"
  by (auto simp: progress_def)

lemma progress_trans:
  assumes "progress h h'" and "progress h' h''"
  shows "progress h h''"
proof -
  from assms(1) obtain k where k: "k \<le> length (hR h)" "hR h' = drop k (hR h)" "hN h' = hN h + k"
    by (auto simp: progress_def)
  from assms(2) obtain j where j: "j \<le> length (hR h')" "hR h'' = drop j (hR h')" "hN h'' = hN h' + j"
    by (auto simp: progress_def)
  from k j have "k + j \<le> length (hR h) \<and> hR h'' = drop (k + j) (hR h) \<and> hN h'' = hN h + (k + j)"
    by (simp add: add.commute)
  moreover have "hErr h \<noteq> None \<longrightarrow> h'' = h"
    using assms by (auto simp: progress_def)
  ultimately show ?thesis
    unfolding progress_def by blast
qed

lemma progress_stuck: "progress h h' \<Longrightarrow> hErr h \<noteq> None \<Longrightarrow> h' = h"
  by (simp add: progress_def)

lemma progress_set_err: "progress h h' \<Longrightarrow> hErr h = None \<Longrightarrow> progress h (h'\<lparr>hErr := e\<rparr>)"
  by (simp add: progress_def)

lemma progress_count:
  "progress (new_helper r) h \<Longrightarrow> hN h \<le> length r \<and> hR h = drop (hN h) r"
  by (auto simp: progress_def)

lemma readFull_progress: "readFull buf h = (b, h') \<Longrightarrow> progress h h'"
  by (auto simp: readFull_def progress_def Let_def min_def split: if_splits)

lemma readByte_progress: "readByte h = (b, h') \<Longrightarrow> progress h h'"
  by (auto simp: readByte_def progress_def intro: exI [of _ 1] split: if_splits list.splits)

lemma read_ints_progress:
  "readUint16le h = (a, h') \<Longrightarrow> progress h h'"
  "readUint32le h = (b, h') \<Longrightarrow> progress h h'"
  "readUint64le h = (c, h') \<Longrightarrow> progress h h'"
  by (auto simp: readUint16le_def readUint32le_def readUint64le_def dest: readFull_progress
      split: prod.splits)

section \<open>More input does not change a read that succeeded\<close>

definition feed :: "bytes \<Rightarrow> read_helper \<Rightarrow> read_helper" where
  "feed s h = h\<lparr>hR := hR h @ s\<rparr>"

lemma feed_simps [simp]:
  "hErr (feed s h) = hErr h" "hR (feed s h) = hR h @ s" "hN (feed s h) = hN h"
  "feed s (new_helper r) = new_helper (r @ s)"
  by (simp_all add: feed_def new_helper_def)

lemma progress_ok: "progress h h' \<Longrightarrow> hErr h' = None \<Longrightarrow> hErr h = None"
  by (auto simp: progress_def)

lemma readFull_feed: "readFull buf h = (b, h') \<Longrightarrow> hErr h' = None \<Longrightarrow> readFull buf (feed s h) = (b, feed s h')"
  by (auto simp: readFull_def feed_def Let_def min_def split: if_splits)

lemma readByte_feed: "readByte h = (b, h') \<Longrightarrow> hErr h' = None \<Longrightarrow> readByte (feed s h) = (b, feed s h')"
  by (auto simp: readByte_def feed_def split: if_splits list.splits)

lemma read_ints_feed:
  "readUint16le h = (a, h') \<Longrightarrow> hErr h' = None \<Longrightarrow> readUint16le (feed s h) = (a, feed s h')"
  "readUint32le h = (b, h') \<Longrightarrow> hErr h' = None \<Longrightarrow> readUint32le (feed s h) = (b, feed s h')"
  "readUint64le h = (c, h') \<Longrightarrow> hErr h' = None \<Longrightarrow> readUint64le (feed s h) = (c, feed s h')"
  by (auto simp: readUint16le_def readUint32le_def readUint64le_def split: prod.splits
      dest: readFull_feed [of _ _ _ _ s])

lemmas feed_lemmas = readFull_feed readByte_feed read_ints_feed
lemmas progress_lemmas = readFull_progress readByte_progress read_ints_progress

section \<open>Reading what was written\<close>

lemma readFull_exact [codec_simps]:
  "hErr h = None \<Longrightarrow> hR h = bs @ rest \<Longrightarrow> length bs = length buf \<Longrightarrow>
    readFull buf h = (bs, advance (length bs) rest h)"
  by (simp add: readFull_def advance_def Let_def)

lemma readByte_exact [codec_simps]:
  "hErr h = None \<Longrightarrow> hR h = b # rest \<Longrightarrow> readByte h = (b, advance 1 rest h)"
  by (simp add: readByte_def advance_def)

lemma readUint16le_exact [codec_simps]:
  "hErr h = None \<Longrightarrow> hR h = put_u16 a @ rest \<Longrightarrow> readUint16le h = (a, advance 2 rest h)"
  by (simp add: readUint16le_def readFull_exact)

lemma readUint32le_exact [codec_simps]:
  "hErr h = None \<Longrightarrow> hR h = put_u32 a @ rest \<Longrightarrow> readUint32le h = (a, advance 4 rest h)"
  by (simp add: readUint32le_def readFull_exact)

lemma readUint64le_exact [codec_simps]:
  "hErr h = None \<Longrightarrow> hR h = put_u64 a @ rest \<Longrightarrow> readUint64le h = (a, advance 8 rest h)"
  by (simp add: readUint64le_def readFull_exact)

text \<open>
  The contract of a \<open>ReadFrom\<close> method against the writer of the same object: from a fresh
  object that fits, it reads back what was written whatever follows, and it counts what it
  consumes. \<open>upd d x\<close> is \<open>x\<close> with what the method leaves of the old object.
\<close>

locale wire_object =
  fixes wr :: "'a \<Rightarrow> bytes"
    and rf :: "'a \<Rightarrow> bytes \<Rightarrow> 'a \<times> bytes \<times> nat \<times> go_error option"
    and ok :: "'a \<Rightarrow> bool"
    and fit :: "'a \<Rightarrow> bool"
    and upd :: "'a \<Rightarrow> 'a \<Rightarrow> 'a"
  assumes reads: "fit d \<Longrightarrow> ok x \<Longrightarrow> rf d (wr x @ rest) = (upd d x, rest, length (wr x), None)"
    and counts: "rf d r = (d', r', n, e) \<Longrightarrow> n \<le> length r \<and> r' = drop n r"
    and feeds: "rf d r = (d', r', n, None) \<Longrightarrow> rf d (r @ s) = (d', r' @ s, n, None)"
begin

lemma readTo_wr:
  "hErr h = None \<Longrightarrow> hR h = wr x @ rest \<Longrightarrow> fit d \<Longrightarrow> ok x \<Longrightarrow>
    readTo rf d h = (upd d x, advance (length (wr x)) rest h)"
  by (simp add: readTo_def reads advance_def)

lemma readTo_progress: "readTo rf d h = (d', h') \<Longrightarrow> progress h h'"
proof (cases "hErr h = None")
  case True
  assume *: "readTo rf d h = (d', h')"
  obtain e' r' n e where r: "rf d (hR h) = (e', r', n, e)"
    by (cases "rf d (hR h)")
  have "progress h (h\<lparr>hN := hN h + n, hR := r'\<rparr>)"
    using counts [OF r] True by (auto simp: progress_def)
  then show ?thesis
    using * True r by (auto simp: readTo_def Let_def intro: progress_set_err split: if_splits)
qed (simp add: readTo_def progress_def)

lemma reads_exact: "fit d \<Longrightarrow> ok x \<Longrightarrow> rf d (wr x) = (upd d x, [], length (wr x), None)"
  using reads [of d x "[]"] by simp

text \<open>Every proper prefix of an encoding is rejected.\<close>

lemma truncated_rejected:
  assumes "fit d" "ok x" "k < length (wr x)" "rf d (take k (wr x)) = (d', r', n, e)"
  shows "e \<noteq> None"
proof
  assume "e = None"
  then have "rf d (take k (wr x) @ drop k (wr x)) = (d', r' @ drop k (wr x), n, None)"
    using assms(4) feeds by blast
  then have "n = length (wr x)"
    using reads_exact [OF assms(1,2)] by simp
  moreover have "n \<le> length (take k (wr x))"
    using counts [OF assms(4)] by simp
  ultimately show False
    using assms(3) by simp
qed

lemma readTo_feed:
  "readTo rf d h = (d', h') \<Longrightarrow> hErr h' = None \<Longrightarrow> readTo rf d (feed s h) = (d', feed s h')"
  by (auto simp: readTo_def feed_def Let_def feeds split: if_splits prod.splits)

lemma read_each_wr:
  "hErr h = None \<Longrightarrow> hR h = concat (map wr xs) @ rest \<Longrightarrow> length ds = length xs \<Longrightarrow>
    \<forall>d \<in> set ds. fit d \<Longrightarrow> \<forall>x \<in> set xs. ok x \<Longrightarrow>
    read_each rf ds h = (map2 upd ds xs, advance (length (concat (map wr xs))) rest h)"
proof (induction xs arbitrary: ds h)
  case Nil
  then show ?case by (simp add: advance_def)
next
  case (Cons x xs)
  then obtain d ds' where "ds = d # ds'"
    by (cases ds) auto
  with Cons show ?case
    by (simp add: readTo_wr)
qed

lemma read_each_progress: "read_each rf ds h = (ds', h') \<Longrightarrow> progress h h'"
proof (induction ds arbitrary: h ds')
  case (Cons d ds)
  then show ?case
    by (auto split: prod.splits intro: progress_trans readTo_progress)
qed simp

lemma read_each_feed:
  "read_each rf ds h = (ds', h') \<Longrightarrow> hErr h' = None \<Longrightarrow>
    read_each rf ds (feed s h) = (ds', feed s h')"
proof (induction ds arbitrary: h ds')
  case (Cons d ds)
  obtain d1 h1 where 1: "readTo rf d h = (d1, h1)" by (cases "readTo rf d h")
  obtain ds2 h2 where 2: "read_each rf ds h1 = (ds2, h2)" by (cases "read_each rf ds h1")
  from Cons.prems 1 2 have *: "ds' = d1 # ds2" "h2 = h'"
    by auto
  from Cons.prems(2) * 2 have "hErr h1 = None"
    using read_each_progress progress_ok by blast
  with 1 have "readTo rf d (feed s h) = (d1, feed s h1)"
    by (rule readTo_feed)
  moreover have "read_each rf ds (feed s h1) = (ds2, feed s h')"
    using Cons.IH [OF _ Cons.prems(2)] 2 * by simp
  ultimately show ?case
    using * by simp
qed simp

end

section \<open>The variable-length integer reads back\<close>

lemma ucast_small:
  "v \<le> 0xfc \<Longrightarrow> unat (ucast v :: byte) = unat v" "v \<le> 0xffff \<Longrightarrow> unat (ucast v :: 16 word) = unat v"
  "v \<le> 0xffffffff \<Longrightarrow> unat (ucast v :: 32 word) = unat v" for v :: "64 word"
  by (simp_all add: word_le_nat_alt unsigned_ucast_eq take_bit_nat_def)

lemma ucast_ucast_small:
  "v \<le> 0xfc \<Longrightarrow> ucast (ucast v :: byte) = v" "v \<le> 0xffff \<Longrightarrow> ucast (ucast v :: 16 word) = v"
  "v \<le> 0xffffffff \<Longrightarrow> ucast (ucast v :: 32 word) = v" for v :: "64 word"
  by (simp_all add: word_unat_eq_iff word_le_nat_alt unsigned_ucast_eq unsigned_take_bit_eq take_bit_nat_def)

lemma length_BtcVarInt_Bytes [simp, length_simps]: "length (BtcVarInt_Bytes v) = BtcVarInt_Len v"
  by (simp add: BtcVarInt_Bytes_def BtcVarInt_Len_def)

lemma BtcVarInt_ReadFrom_Bytes:
  "BtcVarInt_ReadFrom d (BtcVarInt_Bytes v @ rest) = (v, rest, length (BtcVarInt_Bytes v), None)"
proof -
  have "(ucast v :: byte) \<le> 0xfc" if "v \<le> 0xfc"
    using that ucast_small(1) [OF that] by (simp add: word_le_nat_alt)
  then show ?thesis
    by (auto simp: BtcVarInt_Bytes_def BtcVarInt_ReadFrom_def ret_def codec_simps ucast_ucast_small)
qed

lemma BtcVarInt_ReadFrom_counts:
  "BtcVarInt_ReadFrom d r = (d', r', n, e) \<Longrightarrow> n \<le> length r \<and> r' = drop n r"
  unfolding BtcVarInt_ReadFrom_def ret_def
  by (auto split: prod.splits if_splits
      dest!: progress_count progress_trans [OF readByte_progress] dest: readByte_progress read_ints_progress)

lemma BtcVarInt_ReadFrom_feeds:
  assumes "BtcVarInt_ReadFrom d r = (d', r', n, None)"
  shows "BtcVarInt_ReadFrom d (r @ s) = (d', r' @ s, n, None)"
proof -
  obtain t h where t: "readByte (new_helper r) = (t, h)"
    by (cases "readByte (new_helper r)")
  have "hErr h = None"
    using assms t unfolding BtcVarInt_ReadFrom_def ret_def
    by (auto split: prod.splits if_splits dest: read_ints_progress progress_ok)
  with t have "readByte (new_helper (r @ s)) = (t, feed s h)"
    using readByte_feed [OF t, of s] by simp
  then show ?thesis
    using assms t unfolding BtcVarInt_ReadFrom_def ret_def
    by (auto split: prod.splits if_splits dest: read_ints_feed [where s = s])
qed

interpretation varint: wire_object BtcVarInt_Bytes BtcVarInt_ReadFrom "\<lambda>_. True" "\<lambda>_. True" "\<lambda>_ x. x"
  by unfold_locales
    (auto simp: BtcVarInt_ReadFrom_Bytes BtcVarInt_ReadFrom_feeds dest: BtcVarInt_ReadFrom_counts)

section \<open>Length-prefixed buffers\<close>

lemma unat_varint_len: "n < 2 ^ 64 \<Longrightarrow> unat (varint_len n) = n"
  by (simp add: varint_len_def unat_of_nat)

lemma varint_len_0_iff: "n < 2 ^ 64 \<Longrightarrow> varint_len n = 0 \<longleftrightarrow> n = 0"
  using unat_varint_len [of n] by (auto simp: varint_len_def unat_eq_zero [symmetric])

lemma varint_len_le: "n < 2 ^ 64 \<Longrightarrow> varint_len n \<le> k \<longleftrightarrow> n \<le> unat k"
  by (simp add: word_le_nat_alt unat_varint_len)

lemma readVarBuf_exact [codec_simps]:
  assumes "hErr h = None" "hR h = var_buf b @ rest" "length b \<le> 100000"
  shows "readVarBuf h = (b, advance (length (var_buf b)) rest h)"
proof -
  have "readTo BtcVarInt_ReadFrom 0 h =
      (varint_len (length b), advance (BtcVarInt_Len (varint_len (length b))) (b @ rest) h)"
    using varint.readTo_wr [OF assms(1), of "varint_len (length b)" "b @ rest" 0] assms(2)
    by (simp add: var_buf_def)
  moreover have "\<not> varint_len (length b) > 100000"
    using assms(3) by (simp add: not_less varint_len_le)
  moreover have "unat (varint_len (length b)) = length b"
    using assms(3) by (simp add: unat_varint_len)
  ultimately show ?thesis
    using assms by (simp add: readVarBuf_def Let_def varint_len_0_iff readFull_exact var_buf_def)
qed

lemma readVarBuf_progress: "readVarBuf h = (b, h') \<Longrightarrow> progress h h'"
proof -
  assume *: "readVarBuf h = (b, h')"
  obtain ln h1 where 1: "readTo BtcVarInt_ReadFrom 0 h = (ln, h1)"
    by (cases "readTo BtcVarInt_ReadFrom 0 h")
  from varint.readTo_progress [OF this] show ?thesis
    using * 1 by (auto simp: readVarBuf_def Let_def split: if_splits
      intro: progress_set_err progress_trans readFull_progress)
qed

lemma readVarBuf_feed:
  assumes "readVarBuf h = (b, h')" "hErr h' = None"
  shows "readVarBuf (feed s h) = (b, feed s h')"
proof -
  obtain ln h1 where 1: "readTo BtcVarInt_ReadFrom 0 h = (ln, h1)"
    by (cases "readTo BtcVarInt_ReadFrom 0 h")
  have h: "hErr h = None"
    using assms readVarBuf_progress progress_ok by blast
  with assms 1 have "hErr h1 = None"
    by (auto simp: readVarBuf_def Let_def split: if_splits dest: readFull_progress progress_ok)
  from varint.readTo_feed [OF 1 this] show ?thesis
    using assms h 1 by (auto simp: readVarBuf_def Let_def split: if_splits dest: readFull_feed)
qed

text \<open>No buffer the reader allocates is larger than the limit, whatever the input.\<close>

lemma readVarBuf_bound: "readVarBuf h = (b, h') \<Longrightarrow> length b \<le> 100000"
proof -
  have *: "length c = length buf" if "readFull buf g = (c, g')" for buf c g g'
    using that by (auto simp: readFull_def Let_def split: if_splits)
  show "readVarBuf h = (b, h') \<Longrightarrow> length b \<le> 100000"
    by (auto simp: readVarBuf_def Let_def word_less_nat_alt split: if_splits prod.splits dest!: *)
qed

lemma read_bufs_progress: "read_bufs n h = (ws, h') \<Longrightarrow> progress h h'"
  by (induction n arbitrary: h ws)
    (auto split: prod.splits intro: progress_trans readVarBuf_progress)

lemma read_bufs_exact:
  "hErr h = None \<Longrightarrow> hR h = concat (map var_buf ws) @ rest \<Longrightarrow> \<forall>w \<in> set ws. length w \<le> 100000 \<Longrightarrow>
    read_bufs (length ws) h = (ws, advance (length (concat (map var_buf ws))) rest h)"
proof (induction ws arbitrary: h)
  case Nil
  then show ?case by (simp add: advance_def)
next
  case (Cons w ws)
  then show ?case
    by (simp add: readVarBuf_exact [where rest = "concat (map var_buf ws) @ rest"])
qed

lemma read_bufs_feed:
  "read_bufs n h = (ws, h') \<Longrightarrow> hErr h' = None \<Longrightarrow> read_bufs n (feed s h) = (ws, feed s h')"
proof (induction n arbitrary: h ws)
  case (Suc n)
  obtain w h1 where 1: "readVarBuf h = (w, h1)" by (cases "readVarBuf h")
  obtain ws2 h2 where 2: "read_bufs n h1 = (ws2, h2)" by (cases "read_bufs n h1")
  from Suc.prems 1 2 have *: "ws = w # ws2" "h2 = h'" by auto
  with Suc.prems(2) 2 have "hErr h1 = None"
    using read_bufs_progress progress_ok by blast
  with 1 have "readVarBuf (feed s h) = (w, feed s h1)"
    by (rule readVarBuf_feed)
  moreover have "read_bufs n (feed s h1) = (ws2, feed s h')"
    using Suc.IH [OF _ Suc.prems(2)] 2 * by simp
  ultimately show ?case
    using * by simp
qed simp

lemma read_bufs_bound:
  "read_bufs n h = (ws, h') \<Longrightarrow> length ws = n \<and> (\<forall>w \<in> set ws. length w \<le> 100000)"
  by (induction n arbitrary: h ws) (fastforce split: prod.splits dest: readVarBuf_bound)+

section \<open>Properties\<close>

lemma readByte_hN: "readByte h = (b, h') \<Longrightarrow> hErr h' = None \<Longrightarrow> hN h' = hN h + 1"
  by (auto simp: readByte_def split: if_splits list.splits)

lemma readFull_hN: "readFull buf h = (b, h') \<Longrightarrow> hErr h' = None \<Longrightarrow> hN h' = hN h + length buf"
  by (auto simp: readFull_def Let_def split: if_splits)

lemma read_ints_hN:
  "readUint16le h = (a, h') \<Longrightarrow> hErr h' = None \<Longrightarrow> hErr h = None \<and> hN h' = hN h + 2"
  "readUint32le h = (b, h') \<Longrightarrow> hErr h' = None \<Longrightarrow> hErr h = None \<and> hN h' = hN h + 4"
  "readUint64le h = (c, h') \<Longrightarrow> hErr h' = None \<Longrightarrow> hErr h = None \<and> hN h' = hN h + 8"
  by (auto simp: readUint16le_def readUint32le_def readUint64le_def split: prod.splits
      dest: readFull_hN readFull_progress progress_ok)

lemma ucast_bounds: "ucast (a :: 16 word) \<le> (0xffff :: 64 word)" "ucast (b :: 32 word) \<le> (0xffffffff :: 64 word)"
proof -
  have *: "unat a mod n \<le> 65535" "unat b mod n \<le> 4294967295" for n
    using unat_less_16 [of a] unat_less_32 [of b] mod_less_eq_dividend [of "unat a" n]
      mod_less_eq_dividend [of "unat b" n] by linarith+
  show "ucast a \<le> (0xffff :: 64 word)" "ucast b \<le> (0xffffffff :: 64 word)"
    by (simp_all add: word_le_nat_alt unsigned_ucast_eq unsigned_take_bit_eq take_bit_nat_def *)
qed

lemma BtcVarInt_Len_le: "BtcVarInt_Len v \<le> 9" "v \<le> 0xffff \<Longrightarrow> BtcVarInt_Len v \<le> Suc (Suc (Suc 0))"
  "v \<le> 0xffffffff \<Longrightarrow> BtcVarInt_Len v \<le> 5"
  by (auto simp: BtcVarInt_Len_def)

lemma BtcVarInt_ReadFrom_minimal:
  assumes "BtcVarInt_ReadFrom d r = (v, r', n, None)"
  shows "BtcVarInt_Len v \<le> n"
proof -
  obtain t h where t: "readByte (new_helper r) = (t, h)"
    by (cases "readByte (new_helper r)")
  have small: "ucast t \<le> (0xfc :: 64 word)" if "t \<le> 0xfc"
    using that by (simp add: word_le_nat_alt unsigned_ucast_eq unsigned_take_bit_eq take_bit_nat_def)
  have n1: "hN h = 1" if "hErr h = None"
    using readByte_hN [OF t that] by simp
  show ?thesis
    using assms t n1 small ucast_bounds BtcVarInt_Len_le unfolding BtcVarInt_ReadFrom_def ret_def
    by (auto split: prod.splits if_splits dest!: read_ints_hN) (simp add: BtcVarInt_Len_def)
qed

text \<open>
  Every 64-bit value reads back from its variable-length form, consuming exactly
  \<open>Len\<close> bytes of whatever stream follows, and no encoding of the value that \<open>ReadFrom\<close>
  accepts is shorter than the one \<open>Bytes\<close> chose.
\<close>

theorem varint_roundtrip:
  "length (BtcVarInt_Bytes v) = BtcVarInt_Len v \<and>
   BtcVarInt_ReadFrom d (BtcVarInt_Bytes v @ rest) = (v, rest, BtcVarInt_Len v, None) \<and>
   (\<forall>r r' n. BtcVarInt_ReadFrom d r = (v, r', n, None) \<longrightarrow> BtcVarInt_Len v \<le> n)"
  using BtcVarInt_ReadFrom_Bytes [of d v rest] BtcVarInt_ReadFrom_minimal by auto

theorem varint_roundtrip_witness:
  "BtcVarInt_ReadFrom 0 (BtcVarInt_Bytes 0x1234 @ [9]) = (0x1234, [9], 3, None) \<and> BtcVarInt_Len 3 \<le> 3"
proof -
  have "BtcVarInt_ReadFrom 0 [0xfd, 3, 0] = (3, [], 3, None)"
    by code_simp
  with varint_roundtrip [of "3" 0 "[]"] varint_roundtrip [of "0x1234" 0 "[9]"] show ?thesis
    by (auto simp: BtcVarInt_Len_def)
qed

end
