(* ===== verification/Amount.thy ===== *)
theory Amount
  imports Prelude
begin

text \<open>
  Bitcoin amounts (\<^verbatim>\<open>btcamount.go\<close>): a 64-bit count of satoshis, written in JSON as
  a decimal number of bitcoins and read from decimal, integer and hexadecimal text. The parts of
  \<open>strconv\<close> and \<open>strings\<close> it uses come first. An \<open>Unmarshal\<close> method takes the old
  value and returns the new one or the error, which leaves the receiver alone.
\<close>

type_synonym BtcAmount = "64 word"

section \<open>\<open>strconv\<close>\<close>

text \<open>\<open>FormatUint(v, 10)\<close>\<close>

fun format_uint :: "nat \<Rightarrow> string" where
  "format_uint n =
     (if n < 10 then [hex_digit n] else format_uint (n div 10) @ [hex_digit (n mod 10)])"

declare format_uint.simps [simp del]

definition digit_value :: "char \<Rightarrow> nat option" where
  "digit_value c =
     (let n = of_char c :: nat in
      if 48 \<le> n \<and> n \<le> 57 then Some (n - 48)
      else if 97 \<le> n \<and> n \<le> 122 then Some (n - 87)
      else if 65 \<le> n \<and> n \<le> 90 then Some (n - 55)
      else None)"

definition ErrSyntax :: go_error where
  "ErrSyntax = Errorf ''invalid syntax''"

definition ErrRange :: go_error where
  "ErrRange = Errorf ''value out of range''"

fun parse_digits :: "nat \<Rightarrow> nat \<Rightarrow> string \<Rightarrow> nat result" where
  "parse_digits base n [] = Inr n"
| "parse_digits base n (c # cs) =
     (case digit_value c of
        None \<Rightarrow> Inl (Error ErrSyntax)
      | Some d \<Rightarrow>
          if d \<ge> base then Inl (Error ErrSyntax)
          else if n * base + d \<ge> 2 ^ 64 then Inl (Error ErrRange)
          else parse_digits base (n * base + d) cs)"

text \<open>\<open>ParseUint(s, base, 64)\<close> for an explicit base\<close>

definition ParseUint :: "string \<Rightarrow> nat \<Rightarrow> 64 word result" where
  "ParseUint s base =
     (if s = [] then Inl (Error ErrSyntax)
      else bindE (parse_digits base 0 s) (\<lambda>n. Inr (word_of_nat n)))"

section \<open>The amount\<close>

definition BtcAmount_MarshalJSON :: "BtcAmount \<Rightarrow> string result" where
  "BtcAmount_MarshalJSON b =
     (let s = format_uint (unat b);
          ln = length s;
          (s, ln) = (if ln \<le> 8 then (replicate (9 - ln) (CHR ''0'') @ s, 9) else (s, ln))
      in bindE (slice_to s (ln - 8)) (\<lambda>l.
         bindE (slice_from s (ln - 8)) (\<lambda>r. Inr (l @ ''.'' @ r))))"

text \<open>\<open>for decCount < 8\<close>, with \<open>k = 8 - decCount\<close> rounds to go.\<close>

fun scale_up :: "nat \<Rightarrow> 64 word \<Rightarrow> 64 word result" where
  "scale_up 0 v = Inr v"
| "scale_up (Suc k) v =
     (if v > 18446744073709551615 div 10 then fail ''amount too large'' else scale_up k (v * 10))"

definition BtcAmount_UnmarshalText :: "BtcAmount \<Rightarrow> string \<Rightarrow> BtcAmount result" where
  "BtcAmount_UnmarshalText ba s =
     (if take 2 s = ''0x'' then bindE (slice_from s 2) (\<lambda>h. ParseUint h 16)
      else case index_byte (CHR ''.'') s of
        None \<Rightarrow>
          bindE (ParseUint s 10) (\<lambda>v.
            if v > 18446744073709551615 div 100000000 then fail ''amount too large''
            else Inr (v * 100000000))
      | Some pos \<Rightarrow>
          let decCount = length s - pos - 1 in
          if decCount > 8 then fail ''cannot parse amount with more than 8 decimals''
          else
            bindE (slice_to s pos) (\<lambda>l.
            bindE (slice_from s (pos + 1)) (\<lambda>r.
            bindE (ParseUint (l @ r) 10) (\<lambda>v. scale_up (8 - decCount) v))))"

definition BtcAmount_UnmarshalJSON :: "BtcAmount \<Rightarrow> string \<Rightarrow> BtcAmount result" where
  "BtcAmount_UnmarshalJSON ba b =
     (if b = ''null'' then Inr ba
      else if length b \<ge> 2 \<and> b ! 0 = CHR 0x22 \<and> b ! (length b - 1) = CHR 0x22 then
        bindE (subslice b 1 (length b - 1)) (BtcAmount_UnmarshalText ba)
      else BtcAmount_UnmarshalText ba b)"

section \<open>Decimal strings\<close>

definition is_digit :: "char \<Rightarrow> bool" where
  "is_digit c = (48 \<le> (of_char c :: nat) \<and> (of_char c :: nat) \<le> 57)"

definition dec_val :: "string \<Rightarrow> nat" where
  "dec_val s = foldl (\<lambda>n c. n * 10 + (of_char c - 48)) 0 s"

lemma digit_value_digit: "is_digit c \<Longrightarrow> digit_value c = Some (of_char c - 48)"
  by (simp add: is_digit_def digit_value_def)

lemma foldl_dec_mono: "(n :: nat) \<le> foldl (\<lambda>n c. n * 10 + (of_char c - 48)) n (s :: string)"
proof (induction s arbitrary: n)
  case (Cons c s)
  have "n \<le> n * 10 + (of_char c - 48)" by simp
  also note Cons.IH
  finally show ?case by simp
qed simp

lemma parse_digits_dec:
  "\<forall>c \<in> set s. is_digit c \<Longrightarrow> n < 2 ^ 64 \<Longrightarrow>
    parse_digits 10 n s =
      (let v = foldl (\<lambda>n c. n * 10 + (of_char c - 48)) n s in
       if v < 2 ^ 64 then Inr v else Inl (Error ErrRange))"
proof (induction s arbitrary: n)
  case (Cons c s)
  then have d: "digit_value c = Some (of_char c - 48)" "of_char c - 48 < (10 :: nat)"
    by (auto simp: digit_value_digit is_digit_def)
  have "n * 10 + (of_char c - 48) \<le> foldl (\<lambda>n c. n * 10 + (of_char c - 48)) (n * 10 + (of_char c - 48)) s"
    by (rule foldl_dec_mono)
  with Cons d show ?case
    by (auto simp: Let_def)
qed simp

lemma ParseUint_dec:
  assumes "\<forall>c \<in> set s. is_digit c" "s \<noteq> []"
  shows "ParseUint s 10 = (if dec_val s < 2 ^ 64 then Inr (word_of_nat (dec_val s)) else Inl (Error ErrRange))"
  using parse_digits_dec [OF assms(1), of 0] assms(2) by (simp add: ParseUint_def dec_val_def Let_def)

lemma dec_val_append: "dec_val (s @ [c]) = dec_val s * 10 + (of_char c - 48)"
  by (simp add: dec_val_def)

lemma dec_val_zeros: "dec_val (replicate k (CHR ''0'') @ s) = dec_val s"
  by (induction k) (auto simp: dec_val_def)

lemma of_char_hex_digit: "n < 10 \<Longrightarrow> (of_char (hex_digit n) :: nat) = 48 + n"
proof -
  assume "n < 10"
  then have "n \<in> {0,1,2,3,4,5,6,7,8,9}" by (simp, arith)
  then show ?thesis by (elim insertE) (simp_all add: hex_digit_def)
qed

lemma format_uint_digits: "(\<forall>c \<in> set (format_uint n). is_digit c) \<and> dec_val (format_uint n) = n \<and> format_uint n \<noteq> []"
proof (induction n rule: format_uint.induct)
  case (1 n)
  show ?case
  proof (cases "n < 10")
    case True
    then show ?thesis
      by (simp add: format_uint.simps [of n] is_digit_def of_char_hex_digit dec_val_def)
  next
    case False
    with 1 show ?thesis
      by (simp add: format_uint.simps [of n] is_digit_def of_char_hex_digit dec_val_append)
  qed
qed

lemma length_format_uint: "n < 10 ^ Suc k \<Longrightarrow> length (format_uint n) \<le> Suc k"
proof (induction k arbitrary: n)
  case (Suc k)
  then have "n div 10 < 10 ^ Suc k" by (simp add: less_mult_imp_div_less)
  with Suc.IH [of "n div 10"] show ?case
    by (simp add: format_uint.simps [of n])
qed (simp add: format_uint.simps)

lemma dot_not_digit: "\<not> is_digit (CHR ''.'')" "\<not> is_digit (CHR ''x'')" "\<not> is_digit (CHR 0x22)"
  "\<not> is_digit (CHR ''n'')"
  by (simp_all add: is_digit_def)

lemma no_dot: "\<forall>c \<in> set s. is_digit c \<Longrightarrow> CHR ''.'' \<notin> set s"
  using dot_not_digit by blast

lemma scale_up_exact:
  "n < 2 ^ 64 \<Longrightarrow> scale_up k (word_of_nat n) =
    (if n * 10 ^ k < 2 ^ 64 then Inr (word_of_nat (n * 10 ^ k)) else fail ''amount too large'')"
proof (induction k arbitrary: n)
  case (Suc k)
  have u: "unat (word_of_nat n :: 64 word) = n"
    using Suc.prems by (simp add: unat_of_nat)
  have big: "(word_of_nat n :: 64 word) > 18446744073709551615 div 10 \<longleftrightarrow> n > 1844674407370955161"
    by (simp add: word_less_nat_alt u unat_div)
  show ?case
  proof (cases "n > 1844674407370955161")
    case True
    then have "n * 10 \<ge> 2 ^ 64" by simp
    also have "n * 10 \<le> n * 10 ^ Suc k" by simp
    finally show ?thesis using True big by simp
  next
    case False
    then have "n * 10 < 2 ^ 64" by simp
    from Suc.IH [OF this] False big show ?thesis
      by (simp add: mult.assoc mult.commute [of "word_of_nat n"] mult.commute [of n])
  qed
qed simp

lemma take2_digits: "\<forall>c \<in> set s. is_digit c \<or> c = CHR ''.'' \<Longrightarrow> take 2 s \<noteq> ''0x''"
  using dot_not_digit by (cases s; cases "tl s") auto

lemma UnmarshalText_fraction:
  assumes "\<forall>c \<in> set (i @ f). is_digit c" "i @ f \<noteq> []" "length f \<le> 8"
  shows "BtcAmount_UnmarshalText ba (i @ CHR ''.'' # f) =
    (if dec_val (i @ f) < 2 ^ 64
     then if dec_val (i @ f) * 10 ^ (8 - length f) < 2 ^ 64
          then Inr (word_of_nat (dec_val (i @ f) * 10 ^ (8 - length f)))
          else fail ''amount too large''
     else Inl (Error ErrRange))"
proof -
  have "take 2 (i @ CHR ''.'' # f) \<noteq> ''0x''"
    using assms(1) by (intro take2_digits) auto
  moreover have "index_byte (CHR ''.'') (i @ CHR ''.'' # f) = Some (length i)"
    using assms(1) by (intro index_byte_append no_dot) auto
  ultimately show ?thesis
    using assms ParseUint_dec [OF assms(1,2)]
    by (simp add: BtcAmount_UnmarshalText_def Let_def scale_up_exact del: of_nat_mult of_nat_power)
qed

lemma UnmarshalText_integer:
  assumes "\<forall>c \<in> set s. is_digit c" "s \<noteq> []"
  shows "BtcAmount_UnmarshalText ba s =
    (if dec_val s < 2 ^ 64
     then if dec_val s * 10 ^ 8 < 2 ^ 64 then Inr (word_of_nat (dec_val s * 10 ^ 8))
          else fail ''amount too large''
     else Inl (Error ErrRange))"
proof -
  have t: "take 2 s \<noteq> ''0x''"
    using assms(1) by (intro take2_digits) auto
  have i: "index_byte (CHR ''.'') s = None"
    using assms(1) by (intro index_byte_None no_dot)
  have big: "(word_of_nat (dec_val s) :: 64 word) > 18446744073709551615 div 100000000 \<longleftrightarrow>
      dec_val s * 10 ^ 8 \<ge> 2 ^ 64" if "dec_val s < 2 ^ 64"
    using that by (auto simp: word_less_nat_alt unat_of_nat unat_div)
  show ?thesis
  proof (cases "dec_val s < 2 ^ 64")
    case True
    then show ?thesis
      using t i assms big [OF True]
      by (cases "dec_val s * 10 ^ 8 < 2 ^ 64") (simp_all add: BtcAmount_UnmarshalText_def ParseUint_dec)
  next
    case False
    then show ?thesis
      using t i assms by (simp add: BtcAmount_UnmarshalText_def ParseUint_dec)
  qed
qed

text \<open>\<open>MarshalJSON\<close> writes digits, a dot and eight more digits.\<close>

lemma MarshalJSON_shape:
  obtains l r where "BtcAmount_MarshalJSON b = Inr (l @ CHR ''.'' # r)" "l \<noteq> []" "length r = 8"
    "\<forall>c \<in> set (l @ r). is_digit c" "dec_val (l @ r) = unat b"
proof -
  define s where "s = format_uint (unat b)"
  define t where "t = replicate (9 - length s) (CHR ''0'') @ s"
  have s: "\<forall>c \<in> set s. is_digit c" "dec_val s = unat b"
    using format_uint_digits by (auto simp: s_def)
  have t: "length t \<ge> 9" "\<forall>c \<in> set t. is_digit c" "dec_val t = unat b"
    using s by (auto simp: t_def dec_val_zeros) (simp add: is_digit_def)
  have "BtcAmount_MarshalJSON b = Inr (take (length t - 8) t @ CHR ''.'' # drop (length t - 8) t)"
    using t(1) by (auto simp: BtcAmount_MarshalJSON_def Let_def s_def [symmetric] t_def)
  with t show thesis
    by (intro that [of "take (length t - 8) t" "drop (length t - 8) t"]) auto
qed

section \<open>Properties\<close>

text \<open>
  Every 64-bit amount survives JSON: reading the text \<open>MarshalJSON\<close> wrote, bare or quoted,
  gives back the same number of satoshis.
\<close>

theorem amount_json_roundtrip:
  "\<exists>s. BtcAmount_MarshalJSON b = Inr s \<and> BtcAmount_UnmarshalJSON ba s = Inr b \<and>
    BtcAmount_UnmarshalJSON ba (CHR 0x22 # s @ [CHR 0x22]) = Inr b"
proof -
  obtain l r where m: "BtcAmount_MarshalJSON b = Inr (l @ CHR ''.'' # r)" "l \<noteq> []" "length r = 8"
    "\<forall>c \<in> set (l @ r). is_digit c" "dec_val (l @ r) = unat b"
    by (rule MarshalJSON_shape)
  have u: "BtcAmount_UnmarshalText ba (l @ CHR ''.'' # r) = Inr b"
    using UnmarshalText_fraction [OF m(4)] m by simp
  obtain c l' where l: "l = c # l'" "is_digit c"
    using m by (cases l) auto
  with dot_not_digit have "c \<noteq> CHR ''n''" "c \<noteq> CHR 0x22"
    by auto
  with l u have "BtcAmount_UnmarshalJSON ba (l @ CHR ''.'' # r) = Inr b"
    by (simp add: BtcAmount_UnmarshalJSON_def)
  moreover have "BtcAmount_UnmarshalJSON ba (CHR 0x22 # (l @ CHR ''.'' # r) @ [CHR 0x22]) = Inr b"
    using u by (simp add: BtcAmount_UnmarshalJSON_def nth_append)
  ultimately show ?thesis
    using m(1) by blast
qed

text \<open>
  A decimal number of bitcoins with an integer part \<open>i\<close> and at most eight decimals
  \<open>f\<close> is read as exactly that number of satoshis, and it is refused exactly when that number
  does not fit 64 bits. A number without a dot is read as the same number with no decimals.
\<close>

theorem amount_decimal_exact:
  assumes "\<forall>c \<in> set (i @ f). is_digit c" "i @ f \<noteq> []" "length f \<le> 8"
    and "text = i @ ''.'' @ f \<or> (text = i \<and> f = [])"
  shows "let sats = dec_val (i @ f) * 10 ^ (8 - length f) in
    if sats < 2 ^ 64 then BtcAmount_UnmarshalText ba text = Inr (word_of_nat sats)
    else \<exists>e. BtcAmount_UnmarshalText ba text = Inl (Error e)"
proof -
  have *: "BtcAmount_UnmarshalText ba text =
    (if dec_val (i @ f) < 2 ^ 64
     then if dec_val (i @ f) * 10 ^ (8 - length f) < 2 ^ 64
          then Inr (word_of_nat (dec_val (i @ f) * 10 ^ (8 - length f)))
          else fail ''amount too large''
     else Inl (Error ErrRange))"
    using assms(4) UnmarshalText_fraction [OF assms(1-3)] UnmarshalText_integer [of i] assms(1,2) by auto
  have "dec_val (i @ f) < 2 ^ 64" if "dec_val (i @ f) * 10 ^ (8 - length f) < 2 ^ 64"
    using that by (rule le_less_trans [rotated]) simp
  then show ?thesis
    unfolding * Let_def by auto
qed

theorem amount_decimal_exact_witness:
  "BtcAmount_UnmarshalText 0 ''1.5'' = Inr 150000000"
proof -
  have *: "\<forall>c \<in> set (''1'' @ ''5''). is_digit c" "''1'' @ ''5'' \<noteq> []" "length ''5'' \<le> 8"
    by (simp_all add: is_digit_def)
  show ?thesis
    using amount_decimal_exact [OF *, of "''1.5''" 0] by (simp add: Let_def dec_val_def)
qed

end
