(* ===== verification/BtcTx.thy ===== *)
theory BtcTx
  imports Reader
begin

text \<open>
  Bitcoin transactions (\<^verbatim>\<open>btctx.go\<close>): the records, the wire format written by
  \<open>exportBytes\<close> and read by \<open>ReadFrom\<close>, size estimation, duplication and prefilling. A
  slice of pointers is the list of the objects it points to: the code never shares one input or
  output object between two positions. Nil and empty byte slices are not told apart here, since
  this file of the source only measures, copies and appends them.
\<close>

record btc_input =
  TXID :: bytes
  Vout :: "32 word"
  InScript :: bytes
  Sequence :: "32 word"
  Witnesses :: "bytes list"

record btc_output =
  Amount :: "64 word"
  OutN :: nat
  OutScript :: bytes

record btc_tx =
  Version :: "32 word"
  TxIn :: "btc_input list"
  TxOut :: "btc_output list"
  Locktime :: "32 word"

section \<open>Serialisation\<close>

definition BtcTxInput_Bytes :: "btc_input \<Rightarrow> bytes" where
  "BtcTxInput_Bytes i =
     rev (TXID i) @ put_u32 (Vout i) @ BtcVarInt_Bytes (varint_len (length (InScript i)))
       @ InScript i @ put_u32 (Sequence i)"

definition BtcTxOutput_Bytes :: "btc_output \<Rightarrow> bytes" where
  "BtcTxOutput_Bytes out =
     put_u64 (Amount out) @ BtcVarInt_Bytes (varint_len (length (OutScript out))) @ OutScript out"

definition witness_bytes :: "bytes list \<Rightarrow> bytes" where
  "witness_bytes ws =
     BtcVarInt_Bytes (varint_len (length ws)) @
     concat (map (\<lambda>b. BtcVarInt_Bytes (varint_len (length b)) @ b) ws)"

definition exportBytes :: "bool \<Rightarrow> btc_tx \<Rightarrow> bytes" where
  "exportBytes wit tx =
     put_u32 (Version tx) @
     (if wit then [0, 1] else []) @
     BtcVarInt_Bytes (varint_len (length (TxIn tx))) @
     concat (map BtcTxInput_Bytes (TxIn tx)) @
     BtcVarInt_Bytes (varint_len (length (TxOut tx))) @
     concat (map BtcTxOutput_Bytes (TxOut tx)) @
     (if wit then concat (map (\<lambda>i. witness_bytes (Witnesses i)) (TxIn tx)) else []) @
     put_u32 (Locktime tx)"

definition HasWitness :: "btc_tx \<Rightarrow> bool" where
  "HasWitness tx = list_ex (\<lambda>i. length (Witnesses i) > 0) (TxIn tx)"

definition BtcTx_Bytes :: "btc_tx \<Rightarrow> bytes" where
  "BtcTx_Bytes tx = exportBytes (HasWitness tx) tx"

definition BtcTx_MarshalBinary :: "btc_tx \<Rightarrow> bytes result" where
  "BtcTx_MarshalBinary tx = Inr (BtcTx_Bytes tx)"

section \<open>Parsing\<close>

definition BtcTxInput_ReadFrom :: "btc_input read_from" where
  "BtcTxInput_ReadFrom i r =
     (let h = new_helper r;
          (txid, h) = readFull (TXID i) h;
          i = i\<lparr>TXID := rev txid\<rparr>;
          (vout, h) = readUint32le h;
          (script, h) = readVarBuf h;
          (seq, h) = readUint32le h
      in ret (i\<lparr>Vout := vout, InScript := script, Sequence := seq\<rparr>, h))"

definition BtcTxOutput_ReadFrom :: "btc_output read_from" where
  "BtcTxOutput_ReadFrom out r =
     (let h = new_helper r;
          (amount, h) = readUint64le h;
          (script, h) = readVarBuf h
      in ret (out\<lparr>Amount := amount, OutScript := script\<rparr>, h))"

definition new_input :: btc_input where
  "new_input = \<lparr>TXID = replicate 32 0, Vout = 0, InScript = [], Sequence = 0, Witnesses = []\<rparr>"

definition new_output :: "nat \<Rightarrow> btc_output" where
  "new_output n = \<lparr>Amount = 0, OutN = n, OutScript = []\<rparr>"

text \<open>The witness loop; the error is its early return.\<close>

fun read_witnesses ::
    "btc_input list \<Rightarrow> read_helper \<Rightarrow> btc_input list \<times> read_helper \<times> go_error option" where
  "read_witnesses [] h = ([], h, None)"
| "read_witnesses (i # ins) h =
     (let (witnessCnt, h) = readTo BtcVarInt_ReadFrom 0 h in
      if witnessCnt > 10000 then
        (i # ins, h, Some (Errorf ''invalid transaction: too many witness items''))
      else
        let (ws, h) = read_bufs (unat witnessCnt) h;
            (ins', h, e) = read_witnesses ins h
        in (i\<lparr>Witnesses := ws\<rparr> # ins', h, e))"

text \<open>\<open>return h.err(e)\<close>: the count so far with the error \<open>e\<close>.\<close>

definition ret_err :: "go_error \<Rightarrow> 'a \<times> read_helper \<Rightarrow> 'a \<times> bytes \<times> nat \<times> go_error option" where
  "ret_err e p = (fst p, hR (snd p), hN (snd p), Some e)"

definition BtcTx_ReadFrom :: "btc_tx read_from" where
  "BtcTx_ReadFrom tx r =
     (let h = new_helper r;
          (version, h) = readUint32le h;
          tx = tx\<lparr>Version := version\<rparr>;
          (inCnt, h) = readTo BtcVarInt_ReadFrom 0 h;
          segwit = (inCnt = 0);
          (inCnt, h) =
            (if segwit then let (flag, h) = readByte h in readTo BtcVarInt_ReadFrom inCnt h
             else (inCnt, h))
      in if inCnt > 10000 then
           ret_err (Errorf ''invalid transaction: too many inputs'') (tx, h)
         else
           let (ins, h) = read_each BtcTxInput_ReadFrom (replicate (unat inCnt) new_input) h;
               (outCnt, h) = readTo BtcVarInt_ReadFrom 0 h
           in if outCnt > 65536 then
                ret_err (Errorf ''invalid transaction: too many inputs'') (tx\<lparr>TxIn := ins\<rparr>, h)
              else
                let (outs, h) = read_each BtcTxOutput_ReadFrom (map new_output [0..<unat outCnt]) h;
                    (ins, h, e) = (if segwit then read_witnesses ins h else (ins, h, None));
                    tx = tx\<lparr>TxIn := ins, TxOut := outs\<rparr>
                in case e of
                     Some e \<Rightarrow> ret_err e (tx, h)
                   | None \<Rightarrow>
                       let (locktime, h) = readUint32le h
                       in ret (tx\<lparr>Locktime := locktime\<rparr>, h))"

definition BtcTx_UnmarshalBinary :: "btc_tx \<Rightarrow> bytes \<Rightarrow> btc_tx \<times> go_error option" where
  "BtcTx_UnmarshalBinary tx buf = (let (tx', r, n, e) = BtcTx_ReadFrom tx buf in (tx', e))"

section \<open>Size estimation, duplication, prefilling\<close>

definition input_computeSize :: "btc_input \<Rightarrow> nat" where
  "input_computeSize i =
     32 + 4 + BtcVarInt_Len (varint_len (length (InScript i))) + length (InScript i) + 4"

definition input_computeWitnessSize :: "btc_input \<Rightarrow> nat" where
  "input_computeWitnessSize i =
     fold (\<lambda>b ln. ln + (BtcVarInt_Len (varint_len (length b)) + length b)) (Witnesses i)
       (BtcVarInt_Len (varint_len (length (Witnesses i))))"

definition output_computeSize :: "btc_output \<Rightarrow> nat" where
  "output_computeSize out =
     8 + BtcVarInt_Len (varint_len (length (OutScript out))) + length (OutScript out)"

definition ComputeSize :: "btc_tx \<Rightarrow> nat" where
  "ComputeSize tx =
     (let ln = 4 + BtcVarInt_Len (varint_len (length (TxIn tx)))
                 + BtcVarInt_Len (varint_len (length (TxOut tx))) + 4;
          (ln, witln) =
            fold (\<lambda>i (ln, witln). (ln + input_computeSize i, witln + input_computeWitnessSize i))
              (TxIn tx) (ln, 0);
          ln = fold (\<lambda>out ln. ln + output_computeSize out) (TxOut tx) ln
      in if \<not> HasWitness tx then ln
         else
           let witln = witln + 2;
               add = witln mod 4;
               add = (if add \<noteq> 0 then 1 else add)
           in ln + witln div 4 + add)"

definition input_Dup :: "btc_input \<Rightarrow> btc_input" where
  "input_Dup i = i\<lparr>InScript := InScript i, Witnesses := map (\<lambda>w. w) (Witnesses i)\<rparr>"

definition output_Dup :: "btc_output \<Rightarrow> btc_output" where
  "output_Dup out = out"

definition BtcTx_Dup :: "btc_tx \<Rightarrow> btc_tx" where
  "BtcTx_Dup tx =
     \<lparr>Version = Version tx, TxIn = map input_Dup (TxIn tx), TxOut = map output_Dup (TxOut tx),
      Locktime = Locktime tx\<rparr>"

definition ClearInputs :: "btc_tx \<Rightarrow> btc_tx" where
  "ClearInputs tx = tx\<lparr>TxIn := map (\<lambda>i. i\<lparr>InScript := [], Witnesses := []\<rparr>) (TxIn tx)\<rparr>"

section \<open>Inputs and outputs read back\<close>

definition ok_input :: "btc_input \<Rightarrow> bool" where
  "ok_input i \<longleftrightarrow> length (TXID i) = 32 \<and> length (InScript i) \<le> 100000"

definition ok_output :: "btc_output \<Rightarrow> bool" where
  "ok_output out \<longleftrightarrow> length (OutScript out) \<le> 100000"

lemma BtcTxInput_Bytes_alt:
  "BtcTxInput_Bytes i = rev (TXID i) @ put_u32 (Vout i) @ var_buf (InScript i) @ put_u32 (Sequence i)"
  by (simp add: BtcTxInput_Bytes_def var_buf_def)

lemma BtcTxOutput_Bytes_alt: "BtcTxOutput_Bytes out = put_u64 (Amount out) @ var_buf (OutScript out)"
  by (simp add: BtcTxOutput_Bytes_def var_buf_def)

lemma input_reads:
  assumes "length (TXID d) = 32" "ok_input i"
  shows "BtcTxInput_ReadFrom d (BtcTxInput_Bytes i @ rest) =
    (i\<lparr>Witnesses := Witnesses d\<rparr>, rest, length (BtcTxInput_Bytes i), None)"
  using assms unfolding BtcTxInput_ReadFrom_def BtcTxInput_Bytes_alt ok_input_def
  by (simp add: readFull_exact [where bs = "rev (TXID i)"] readUint32le_exact readVarBuf_exact ret_def)

lemma input_counts:
  assumes "BtcTxInput_ReadFrom d r = (d', r', n, e)"
  shows "n \<le> length r \<and> r' = drop n r"
proof -
  obtain b1 h1 where 1: "readFull (TXID d) (new_helper r) = (b1, h1)"
    by (cases "readFull (TXID d) (new_helper r)")
  obtain b2 h2 where 2: "readUint32le h1 = (b2, h2)" by (cases "readUint32le h1")
  obtain b3 h3 where 3: "readVarBuf h2 = (b3, h3)" by (cases "readVarBuf h2")
  obtain b4 h4 where 4: "readUint32le h3 = (b4, h4)" by (cases "readUint32le h3")
  have "progress (new_helper r) h4"
    using 1 2 3 4 progress_lemmas readVarBuf_progress progress_trans by metis
  with assms 1 2 3 4 show ?thesis
    by (auto simp: BtcTxInput_ReadFrom_def ret_def dest: progress_count)
qed

lemma input_feeds:
  assumes "BtcTxInput_ReadFrom d r = (d', r', n, None)"
  shows "BtcTxInput_ReadFrom d (r @ s) = (d', r' @ s, n, None)"
proof -
  obtain b1 h1 where 1: "readFull (TXID d) (new_helper r) = (b1, h1)"
    by (cases "readFull (TXID d) (new_helper r)")
  obtain b2 h2 where 2: "readUint32le h1 = (b2, h2)" by (cases "readUint32le h1")
  obtain b3 h3 where 3: "readVarBuf h2 = (b3, h3)" by (cases "readVarBuf h2")
  obtain b4 h4 where 4: "readUint32le h3 = (b4, h4)" by (cases "readUint32le h3")
  from assms 1 2 3 4 have e4: "hErr h4 = None"
    by (simp add: BtcTxInput_ReadFrom_def ret_def)
  with 4 have e3: "hErr h3 = None" using progress_lemmas progress_ok by blast
  with 3 have e2: "hErr h2 = None" using readVarBuf_progress progress_ok by blast
  with 2 have e1: "hErr h1 = None" using progress_lemmas progress_ok by blast
  from assms 1 2 3 4 show ?thesis
    using readFull_feed [OF 1 e1, of s] read_ints_feed(2) [OF 2 e2, of s]
      readVarBuf_feed [OF 3 e3, of s] read_ints_feed(2) [OF 4 e4, of s]
    by (simp add: BtcTxInput_ReadFrom_def ret_def)
qed

interpretation txin: wire_object BtcTxInput_Bytes BtcTxInput_ReadFrom ok_input
  "\<lambda>d. length (TXID d) = 32" "\<lambda>d i. i\<lparr>Witnesses := Witnesses d\<rparr>"
  by unfold_locales (auto simp: input_reads input_feeds dest: input_counts)

lemma output_reads:
  assumes "ok_output out"
  shows "BtcTxOutput_ReadFrom d (BtcTxOutput_Bytes out @ rest) =
    (out\<lparr>OutN := OutN d\<rparr>, rest, length (BtcTxOutput_Bytes out), None)"
  using assms unfolding BtcTxOutput_ReadFrom_def BtcTxOutput_Bytes_alt ok_output_def
  by (simp add: readUint64le_exact readVarBuf_exact ret_def)

lemma output_counts:
  assumes "BtcTxOutput_ReadFrom d r = (d', r', n, e)"
  shows "n \<le> length r \<and> r' = drop n r"
proof -
  obtain b1 h1 where 1: "readUint64le (new_helper r) = (b1, h1)" by (cases "readUint64le (new_helper r)")
  obtain b2 h2 where 2: "readVarBuf h1 = (b2, h2)" by (cases "readVarBuf h1")
  have "progress (new_helper r) h2"
    using 1 2 progress_lemmas readVarBuf_progress progress_trans by metis
  with assms 1 2 show ?thesis
    by (auto simp: BtcTxOutput_ReadFrom_def ret_def dest: progress_count)
qed

lemma output_feeds:
  assumes "BtcTxOutput_ReadFrom d r = (d', r', n, None)"
  shows "BtcTxOutput_ReadFrom d (r @ s) = (d', r' @ s, n, None)"
proof -
  obtain b1 h1 where 1: "readUint64le (new_helper r) = (b1, h1)" by (cases "readUint64le (new_helper r)")
  obtain b2 h2 where 2: "readVarBuf h1 = (b2, h2)" by (cases "readVarBuf h1")
  from assms 1 2 have e2: "hErr h2 = None"
    by (simp add: BtcTxOutput_ReadFrom_def ret_def)
  with 2 have e1: "hErr h1 = None" using readVarBuf_progress progress_ok by blast
  from assms 1 2 show ?thesis
    using read_ints_feed(3) [OF 1 e1, of s] readVarBuf_feed [OF 2 e2, of s]
    by (simp add: BtcTxOutput_ReadFrom_def ret_def)
qed

interpretation txout: wire_object BtcTxOutput_Bytes BtcTxOutput_ReadFrom ok_output
  "\<lambda>_. True" "\<lambda>d out. out\<lparr>OutN := OutN d\<rparr>"
  by unfold_locales (auto simp: output_reads output_feeds dest: output_counts)

section \<open>The witness loop\<close>

lemma witness_bytes_alt:
  "witness_bytes ws = BtcVarInt_Bytes (varint_len (length ws)) @ concat (map var_buf ws)"
  by (simp add: witness_bytes_def var_buf_def [abs_def])

lemma read_witnesses_exact:
  "hErr h = None \<Longrightarrow> length ds = length ins \<Longrightarrow>
    hR h = concat (map (\<lambda>i. witness_bytes (Witnesses i)) ins) @ rest \<Longrightarrow>
    \<forall>i \<in> set ins. length (Witnesses i) \<le> 10000 \<and> (\<forall>w \<in> set (Witnesses i). length w \<le> 100000) \<Longrightarrow>
    read_witnesses ds h =
      (map2 (\<lambda>d i. d\<lparr>Witnesses := Witnesses i\<rparr>) ds ins,
       advance (length (concat (map (\<lambda>i. witness_bytes (Witnesses i)) ins))) rest h, None)"
proof (induction ins arbitrary: ds h)
  case Nil
  then show ?case by (simp add: advance_def)
next
  case (Cons i ins)
  let ?ws = "Witnesses i"
  let ?more = "concat (map (\<lambda>i. witness_bytes (Witnesses i)) ins) @ rest"
  from Cons.prems obtain d ds' where ds: "ds = d # ds'"
    by (cases ds) auto
  have 1: "readTo BtcVarInt_ReadFrom 0 h =
      (varint_len (length ?ws), advance (BtcVarInt_Len (varint_len (length ?ws)))
        (concat (map var_buf ?ws) @ ?more) h)"
    using Cons.prems varint.readTo_wr [of h "varint_len (length ?ws)" "concat (map var_buf ?ws) @ ?more" 0]
    by (simp add: witness_bytes_alt)
  have 2: "\<not> varint_len (length ?ws) > 10000" "unat (varint_len (length ?ws)) = length ?ws"
    using Cons.prems by (auto simp: not_less varint_len_le unat_varint_len)
  show ?case
    using Cons ds 1 2
    by (simp add: read_bufs_exact [where rest = ?more] witness_bytes_alt)
qed

lemma read_witnesses_progress: "read_witnesses ins h = (ins', h', e) \<Longrightarrow> progress h h'"
proof (induction ins arbitrary: h ins' e)
  case (Cons i ins)
  then show ?case
    by (auto simp: Let_def split: prod.splits if_splits dest: varint.readTo_progress)
      (metis progress_trans varint.readTo_progress read_bufs_progress)
qed simp

lemma read_witnesses_feed:
  "read_witnesses ins h = (ins', h', None) \<Longrightarrow> hErr h' = None \<Longrightarrow>
    read_witnesses ins (feed s h) = (ins', feed s h', None)"
proof (induction ins arbitrary: h ins')
  case (Cons i ins)
  obtain c h1 where 1: "readTo BtcVarInt_ReadFrom 0 h = (c, h1)"
    by (cases "readTo BtcVarInt_ReadFrom 0 h")
  obtain ws h2 where 2: "read_bufs (unat c) h1 = (ws, h2)" by (cases "read_bufs (unat c) h1")
  obtain ins3 h3 e3 where 3: "read_witnesses ins h2 = (ins3, h3, e3)"
    by (cases "read_witnesses ins h2")
  from Cons.prems 1 2 3 have *: "\<not> c > 10000" "h3 = h'" "e3 = None" "ins' = i\<lparr>Witnesses := ws\<rparr> # ins3"
    by (auto split: if_splits)
  then have e2: "hErr h2 = None"
    using 3 Cons.prems(2) read_witnesses_progress progress_ok by blast
  then have e1: "hErr h1 = None"
    using 2 read_bufs_progress progress_ok by blast
  have "read_witnesses ins (feed s h2) = (ins3, feed s h3, None)"
    using Cons.IH 3 * Cons.prems(2) by simp
  then show ?case
    using * varint.readTo_feed [OF 1 e1, of s] read_bufs_feed [OF 2 e2, of s] by simp
qed simp

section \<open>Resource bounds\<close>

text \<open>What the reader may leave in an input or an output, whatever the bytes were.\<close>

definition input_bounded :: "btc_input \<Rightarrow> bool" where
  "input_bounded i \<longleftrightarrow>
     length (TXID i) = 32 \<and> length (InScript i) \<le> 100000 \<and> length (Witnesses i) \<le> 10000 \<and>
     (\<forall>w \<in> set (Witnesses i). length w \<le> 100000)"

definition tx_bounded :: "btc_tx \<Rightarrow> bool" where
  "tx_bounded tx \<longleftrightarrow>
     length (TxIn tx) \<le> 10000 \<and> (\<forall>i \<in> set (TxIn tx). input_bounded i) \<and>
     length (TxOut tx) \<le> 65536 \<and> (\<forall>out \<in> set (TxOut tx). ok_output out)"

lemma new_objects_bounded [simp]: "input_bounded new_input" "ok_output (new_output n)"
  by (simp_all add: new_input_def new_output_def input_bounded_def ok_output_def)

lemma readFull_length: "readFull buf h = (b, h') \<Longrightarrow> length b = length buf"
  by (auto simp: readFull_def Let_def split: if_splits)

lemma readTo_input_bounded:
  "readTo BtcTxInput_ReadFrom d h = (i, h') \<Longrightarrow> input_bounded d \<Longrightarrow> input_bounded i"
  by (auto simp: readTo_def BtcTxInput_ReadFrom_def ret_def input_bounded_def Let_def
      dest: readFull_length readVarBuf_bound split: if_splits prod.splits)

lemma readTo_output_bounded:
  "readTo BtcTxOutput_ReadFrom d h = (out, h') \<Longrightarrow> ok_output d \<Longrightarrow> ok_output out"
  by (auto simp: readTo_def BtcTxOutput_ReadFrom_def ret_def ok_output_def Let_def
      dest: readVarBuf_bound split: if_splits prod.splits)

lemma read_each_all:
  assumes "\<And>d h x h'. readTo rf d h = (x, h') \<Longrightarrow> P d \<Longrightarrow> P x"
  shows "read_each rf ds h = (xs, h') \<Longrightarrow> \<forall>d \<in> set ds. P d \<Longrightarrow>
    length xs = length ds \<and> (\<forall>x \<in> set xs. P x)"
proof (induction ds arbitrary: h xs)
  case (Cons d ds)
  obtain x h1 where 1: "readTo rf d h = (x, h1)" by (cases "readTo rf d h")
  obtain ys h2 where 2: "read_each rf ds h1 = (ys, h2)" by (cases "read_each rf ds h1")
  with 1 Cons.prems have "xs = x # ys" "h2 = h'" by auto
  with Cons.IH [of h1 ys] Cons.prems 1 2 assms [OF 1] show ?case by simp
qed simp

lemma read_witnesses_bounded:
  "read_witnesses ins h = (ins', h', e) \<Longrightarrow> \<forall>i \<in> set ins. input_bounded i \<Longrightarrow>
    length ins' = length ins \<and> (\<forall>i \<in> set ins'. input_bounded i)"
proof (induction ins arbitrary: h ins' e)
  case (Cons i ins)
  obtain c h1 where 1: "readTo BtcVarInt_ReadFrom 0 h = (c, h1)"
    by (cases "readTo BtcVarInt_ReadFrom 0 h")
  obtain ws h2 where 2: "read_bufs (unat c) h1 = (ws, h2)" by (cases "read_bufs (unat c) h1")
  obtain ins3 h3 e3 where 3: "read_witnesses ins h2 = (ins3, h3, e3)"
    by (cases "read_witnesses ins h2")
  show ?case
  proof (cases "c > 10000")
    case False
    with Cons.prems 1 2 3 have *: "ins' = i\<lparr>Witnesses := ws\<rparr> # ins3" "h3 = h'" by auto
    have "unat c \<le> 10000" using False by (simp add: word_less_nat_alt)
    with read_bufs_bound [OF 2] Cons.prems(2) have "input_bounded (i\<lparr>Witnesses := ws\<rparr>)"
      by (simp add: input_bounded_def)
    with * Cons.IH [of h2 ins3 e3] 3 Cons.prems(2) show ?thesis by simp
  qed (use Cons.prems 1 in auto)
qed simp

section \<open>Whole transactions\<close>

text \<open>
  The transactions the wire format covers: within the reader's limits, outputs numbered by
  position. At least one input is needed because a zero input count is the segwit marker.
\<close>

definition wf_tx :: "btc_tx \<Rightarrow> bool" where
  "wf_tx tx \<longleftrightarrow>
     TxIn tx \<noteq> [] \<and> tx_bounded tx \<and> map OutN (TxOut tx) = [0..<length (TxOut tx)]"

lemma HasWitness_False: "\<not> HasWitness tx \<Longrightarrow> i \<in> set (TxIn tx) \<Longrightarrow> Witnesses i = []"
  by (auto simp: HasWitness_def list_ex_iff)

lemma map2_strip:
  "length ds = length xs \<Longrightarrow> (\<And>d x. d \<in> set ds \<Longrightarrow> x \<in> set xs \<Longrightarrow> f d x = g x) \<Longrightarrow> map2 f ds xs = map g xs"
  by (induction ds xs rule: list_induct2) auto

lemma read_ins:
  assumes "wf_tx tx" "hErr h = None" "hR h = concat (map BtcTxInput_Bytes (TxIn tx)) @ rest"
  shows "read_each BtcTxInput_ReadFrom (replicate (length (TxIn tx)) new_input) h =
    (map (\<lambda>i. i\<lparr>Witnesses := []\<rparr>) (TxIn tx),
     advance (length (concat (map BtcTxInput_Bytes (TxIn tx)))) rest h)"
proof -
  have "\<forall>d \<in> set (replicate (length (TxIn tx)) new_input). length (TXID d) = 32"
    by (simp add: new_input_def)
  moreover have "\<forall>i \<in> set (TxIn tx). ok_input i"
    using assms(1) by (auto simp: wf_tx_def tx_bounded_def input_bounded_def ok_input_def)
  moreover have "map2 (\<lambda>d i. i\<lparr>Witnesses := Witnesses d\<rparr>) (replicate (length (TxIn tx)) new_input) (TxIn tx)
      = map (\<lambda>i. i\<lparr>Witnesses := []\<rparr>) (TxIn tx)"
    by (rule map2_strip) (auto simp: new_input_def)
  ultimately show ?thesis
    using txin.read_each_wr [OF assms(2,3)] by simp
qed

lemma read_outs:
  assumes "wf_tx tx" "hErr h = None" "hR h = concat (map BtcTxOutput_Bytes (TxOut tx)) @ rest"
  shows "read_each BtcTxOutput_ReadFrom (map new_output [0..<length (TxOut tx)]) h =
    (TxOut tx, advance (length (concat (map BtcTxOutput_Bytes (TxOut tx)))) rest h)"
proof -
  have ok: "\<forall>out \<in> set (TxOut tx). ok_output out"
    using assms(1) by (simp add: wf_tx_def tx_bounded_def)
  have "map2 (\<lambda>d out. out\<lparr>OutN := OutN d\<rparr>) (map new_output [0..<length (TxOut tx)]) (TxOut tx)
      = TxOut tx"
  proof (rule nth_equalityI)
    fix k assume "k < length (map2 (\<lambda>d out. out\<lparr>OutN := OutN d\<rparr>)
        (map new_output [0..<length (TxOut tx)]) (TxOut tx))"
    then have k: "k < length (TxOut tx)" by simp
    have "map OutN (TxOut tx) ! k = [0..<length (TxOut tx)] ! k"
      using assms(1) by (simp add: wf_tx_def)
    with k show "map2 (\<lambda>d out. out\<lparr>OutN := OutN d\<rparr>)
        (map new_output [0..<length (TxOut tx)]) (TxOut tx) ! k = TxOut tx ! k"
      by (simp add: new_output_def)
  qed simp
  with txout.read_each_wr [OF assms(2,3)] ok show ?thesis
    by simp
qed

lemma read_wits:
  assumes "wf_tx tx" "hErr h = None"
    and "hR h = concat (map (\<lambda>i. witness_bytes (Witnesses i)) (TxIn tx)) @ rest"
  shows "read_witnesses (map (\<lambda>i. i\<lparr>Witnesses := []\<rparr>) (TxIn tx)) h =
    (TxIn tx, advance (length (concat (map (\<lambda>i. witness_bytes (Witnesses i)) (TxIn tx)))) rest h, None)"
proof -
  have "map2 (\<lambda>d i. d\<lparr>Witnesses := Witnesses i\<rparr>) (map (\<lambda>i. i\<lparr>Witnesses := []\<rparr>) xs) xs = xs" for xs
    by (induction xs) auto
  then show ?thesis
    using read_witnesses_exact [OF assms(2) _ assms(3)] assms(1)
    by (auto simp: wf_tx_def tx_bounded_def input_bounded_def)
qed

lemma BtcTx_ReadFrom_exportBytes:
  assumes wf: "wf_tx tx" and wit: "wit \<or> \<not> HasWitness tx"
  shows "BtcTx_ReadFrom d (exportBytes wit tx @ rest) =
    (tx, rest, length (exportBytes wit tx), None)"
proof -
  let ?nin = "varint_len (length (TxIn tx))" and ?nout = "varint_len (length (TxOut tx))"
  have nin: "?nin \<noteq> 0" "\<not> ?nin > 10000" "unat ?nin = length (TxIn tx)"
    using wf by (auto simp: wf_tx_def tx_bounded_def not_less varint_len_le unat_varint_len varint_len_0_iff)
  have nout: "\<not> ?nout > 65536" "unat ?nout = length (TxOut tx)"
    using wf by (auto simp: wf_tx_def tx_bounded_def not_less varint_len_le unat_varint_len)
  have zero: "BtcVarInt_ReadFrom 0 (0 # bs) = (0, bs, 1, None)" for bs
    using BtcVarInt_ReadFrom_Bytes [of 0 0 bs] by (simp add: BtcVarInt_Bytes_def)
  have strip: "map (\<lambda>i. i\<lparr>Witnesses := []\<rparr>) (TxIn tx) = TxIn tx" if "\<not> HasWitness tx"
    using HasWitness_False [OF that] by (intro map_idI) simp
  show ?thesis
  proof (cases wit)
    case True
    then show ?thesis
      unfolding BtcTx_ReadFrom_def exportBytes_def
      using wf nin nout
      by (simp add: readUint32le_exact readByte_exact readTo_def zero BtcVarInt_ReadFrom_Bytes
          advance_def [symmetric] read_ins read_outs read_wits ret_def)
  next
    case False
    with wit strip show ?thesis
      unfolding BtcTx_ReadFrom_def exportBytes_def
      using wf nin nout
      by (simp add: readUint32le_exact readTo_def BtcVarInt_ReadFrom_Bytes
          advance_def [symmetric] read_ins read_outs ret_def)
  qed
qed

text \<open>
  The reader's run in named steps, shared by the facts about arbitrary input: the two counts,
  the inputs, the outputs and the witnesses.
\<close>

definition read_in_count :: "read_helper \<Rightarrow> bool \<times> 64 word \<times> read_helper" where
  "read_in_count h =
     (let (inCnt, h) = readTo BtcVarInt_ReadFrom 0 h in
      if inCnt = 0 then
        let (flag, h) = readByte h; (inCnt, h) = readTo BtcVarInt_ReadFrom inCnt h in (True, inCnt, h)
      else (False, inCnt, h))"

definition read_body ::
    "bool \<Rightarrow> btc_tx \<Rightarrow> btc_input list \<Rightarrow> 64 word \<Rightarrow> read_helper \<Rightarrow> btc_tx \<times> bytes \<times> nat \<times> go_error option" where
  "read_body segwit tx ins outCnt h =
     (let (outs, h) = read_each BtcTxOutput_ReadFrom (map new_output [0..<unat outCnt]) h;
          (ins, h, e) = (if segwit then read_witnesses ins h else (ins, h, None));
          tx = tx\<lparr>TxIn := ins, TxOut := outs\<rparr>
      in case e of
           Some e \<Rightarrow> ret_err e (tx, h)
         | None \<Rightarrow> let (locktime, h) = readUint32le h in ret (tx\<lparr>Locktime := locktime\<rparr>, h))"

lemma BtcTx_ReadFrom_steps:
  "BtcTx_ReadFrom tx r =
     (let (version, h) = readUint32le (new_helper r);
          tx = tx\<lparr>Version := version\<rparr>;
          (segwit, inCnt, h) = read_in_count h
      in if inCnt > 10000 then ret_err (Errorf ''invalid transaction: too many inputs'') (tx, h)
         else
           let (ins, h) = read_each BtcTxInput_ReadFrom (replicate (unat inCnt) new_input) h;
               (outCnt, h) = readTo BtcVarInt_ReadFrom 0 h
           in if outCnt > 65536 then
                ret_err (Errorf ''invalid transaction: too many inputs'') (tx\<lparr>TxIn := ins\<rparr>, h)
              else read_body segwit tx ins outCnt h)"
  unfolding BtcTx_ReadFrom_def read_in_count_def read_body_def
  by (simp add: Let_def split: prod.split)

lemma read_in_count_progress: "read_in_count h = (sw, c, h') \<Longrightarrow> progress h h'"
  by (auto simp: read_in_count_def dest!: varint.readTo_progress readByte_progress
      intro: progress_trans split: prod.splits if_splits)

lemma read_in_count_feed:
  assumes "read_in_count h = (sw, c, h')" "hErr h' = None"
  shows "read_in_count (feed s h) = (sw, c, feed s h')"
proof -
  obtain c1 h1 where 1: "readTo BtcVarInt_ReadFrom 0 h = (c1, h1)"
    by (cases "readTo BtcVarInt_ReadFrom 0 h")
  obtain f h2 where 2: "readByte h1 = (f, h2)" by (cases "readByte h1")
  obtain c3 h3 where 3: "readTo BtcVarInt_ReadFrom c1 h2 = (c3, h3)"
    by (cases "readTo BtcVarInt_ReadFrom c1 h2")
  show ?thesis
  proof (cases "c1 = 0")
    case True
    with assms 1 2 3 have "h3 = h'" "c3 = c" "sw" by (auto simp: read_in_count_def)
    with assms(2) 3 have e2: "hErr h2 = None" using varint.readTo_progress progress_ok by blast
    with 2 have e1: "hErr h1 = None" using readByte_progress progress_ok by blast
    show ?thesis
      using True varint.readTo_feed [OF 1 e1, of s] readByte_feed [OF 2 e2, of s]
        varint.readTo_feed [OF 3, of s] \<open>h3 = h'\<close> \<open>c3 = c\<close> \<open>sw\<close> assms(2)
      by (simp add: read_in_count_def)
  next
    case False
    with assms 1 varint.readTo_feed [OF 1, of s] show ?thesis
      by (auto simp: read_in_count_def)
  qed
qed

lemma read_body_counts:
  assumes "read_body sw tx ins c h = (tx', r', n, e)" and "progress (new_helper r) h"
  shows "n \<le> length r \<and> r' = drop n r"
proof -
  obtain outs h1 where 1: "read_each BtcTxOutput_ReadFrom (map new_output [0..<unat c]) h = (outs, h1)"
    by (cases "read_each BtcTxOutput_ReadFrom (map new_output [0..<unat c]) h")
  obtain ins2 h2 e2 where 2: "(if sw then read_witnesses ins h1 else (ins, h1, None)) = (ins2, h2, e2)"
    by (cases "if sw then read_witnesses ins h1 else (ins, h1, None)")
  obtain l h3 where 3: "readUint32le h2 = (l, h3)" by (cases "readUint32le h2")
  have "progress h1 h2"
    using 2 by (auto dest: read_witnesses_progress split: if_splits)
  with txout.read_each_progress [OF 1] assms(2) have p: "progress (new_helper r) h2"
    using progress_trans by blast
  with read_ints_progress(2) [OF 3] have "progress (new_helper r) h3"
    using progress_trans by blast
  with p assms(1) 1 2 3 show ?thesis
    by (auto simp: read_body_def ret_err_def ret_def Let_def dest!: progress_count split: option.splits)
qed

lemma BtcTx_ReadFrom_counts:
  assumes "BtcTx_ReadFrom d r = (tx, r', n, e)"
  shows "n \<le> length r \<and> r' = drop n r"
proof -
  obtain v h1 where 1: "readUint32le (new_helper r) = (v, h1)" by (cases "readUint32le (new_helper r)")
  obtain sw c h2 where 2: "read_in_count h1 = (sw, c, h2)" by (cases "read_in_count h1")
  obtain ins h3 where 3: "read_each BtcTxInput_ReadFrom (replicate (unat c) new_input) h2 = (ins, h3)"
    by (cases "read_each BtcTxInput_ReadFrom (replicate (unat c) new_input) h2")
  obtain oc h4 where 4: "readTo BtcVarInt_ReadFrom 0 h3 = (oc, h4)"
    by (cases "readTo BtcVarInt_ReadFrom 0 h3")
  have p2: "progress (new_helper r) h2"
    using read_ints_progress(2) [OF 1] read_in_count_progress [OF 2] progress_trans by blast
  then have p4: "progress (new_helper r) h4"
    using txin.read_each_progress [OF 3] varint.readTo_progress [OF 4] progress_trans by blast
  from p2 p4 assms 1 2 3 4 show ?thesis
    by (auto simp: BtcTx_ReadFrom_steps ret_err_def Let_def
        dest: progress_count read_body_counts split: if_splits)
qed

lemma read_body_feed:
  assumes "read_body sw tx ins c h = (tx', r', n, None)"
  shows "hErr h = None \<and> read_body sw tx ins c (feed s h) = (tx', r' @ s, n, None)"
proof -
  obtain outs h1 where 1: "read_each BtcTxOutput_ReadFrom (map new_output [0..<unat c]) h = (outs, h1)"
    by (cases "read_each BtcTxOutput_ReadFrom (map new_output [0..<unat c]) h")
  obtain ins2 h2 e2 where 2: "(if sw then read_witnesses ins h1 else (ins, h1, None)) = (ins2, h2, e2)"
    by (cases "if sw then read_witnesses ins h1 else (ins, h1, None)")
  obtain l h3 where 3: "readUint32le h2 = (l, h3)" by (cases "readUint32le h2")
  from assms 1 2 3 have e: "e2 = None" "hErr h3 = None"
    by (auto simp: read_body_def ret_err_def ret_def Let_def split: option.splits)
  with 3 have h2: "hErr h2 = None" using read_ints_progress(2) progress_ok by blast
  with 2 have h1: "hErr h1 = None"
    by (auto dest: read_witnesses_progress progress_ok split: if_splits)
  have wits: "(if sw then read_witnesses ins (feed s h1) else (ins, feed s h1, None)) = (ins2, feed s h2, None)"
    using 2 e h2 by (auto simp: read_witnesses_feed split: if_splits)
  show ?thesis
    using assms 1 2 wits e txout.read_each_progress [OF 1] progress_ok h1
      txout.read_each_feed [OF 1 h1, of s] read_ints_feed(2) [OF 3, of s] 3
    by (auto simp: read_body_def ret_def Let_def)
qed

lemma BtcTx_ReadFrom_feeds:
  assumes "BtcTx_ReadFrom d r = (tx, r', n, None)"
  shows "BtcTx_ReadFrom d (r @ s) = (tx, r' @ s, n, None)"
proof -
  obtain v h1 where 1: "readUint32le (new_helper r) = (v, h1)" by (cases "readUint32le (new_helper r)")
  obtain sw c h2 where 2: "read_in_count h1 = (sw, c, h2)" by (cases "read_in_count h1")
  obtain ins h3 where 3: "read_each BtcTxInput_ReadFrom (replicate (unat c) new_input) h2 = (ins, h3)"
    by (cases "read_each BtcTxInput_ReadFrom (replicate (unat c) new_input) h2")
  obtain oc h4 where 4: "readTo BtcVarInt_ReadFrom 0 h3 = (oc, h4)"
    by (cases "readTo BtcVarInt_ReadFrom 0 h3")
  from assms 1 2 3 4 have *: "\<not> c > 10000" "\<not> oc > 65536"
    and body: "read_body sw (d\<lparr>Version := v\<rparr>) ins oc h4 = (tx, r', n, None)"
    by (auto simp: BtcTx_ReadFrom_steps ret_err_def Let_def split: if_splits)
  from read_body_feed [OF body] have e4: "hErr h4 = None"
    and body': "read_body sw (d\<lparr>Version := v\<rparr>) ins oc (feed s h4) = (tx, r' @ s, n, None)"
    by auto
  from e4 4 have e3: "hErr h3 = None" using varint.readTo_progress progress_ok by blast
  with 3 have e2: "hErr h2 = None" using txin.read_each_progress progress_ok by blast
  with 2 have e1: "hErr h1 = None" using read_in_count_progress progress_ok by blast
  show ?thesis
    using * body' read_ints_feed(2) [OF 1 e1, of s] read_in_count_feed [OF 2 e2, of s]
      txin.read_each_feed [OF 3 e3, of s] varint.readTo_feed [OF 4 e4, of s]
    by (simp add: BtcTx_ReadFrom_steps Let_def)
qed

text \<open>A transaction is itself an object of the wire: the contract the larger formats use.\<close>

interpretation btctx: wire_object BtcTx_Bytes BtcTx_ReadFrom wf_tx "\<lambda>_. True" "\<lambda>_ tx. tx"
  by unfold_locales
    (auto simp: BtcTx_Bytes_def BtcTx_ReadFrom_exportBytes BtcTx_ReadFrom_feeds dest: BtcTx_ReadFrom_counts)

lemma read_body_bounded:
  assumes "read_body sw tx ins c h = (tx', r', n, e)" and "\<not> c > 65536"
    and "length ins \<le> 10000" and "\<forall>i \<in> set ins. input_bounded i"
  shows "tx_bounded tx'"
proof -
  obtain outs h1 where 1: "read_each BtcTxOutput_ReadFrom (map new_output [0..<unat c]) h = (outs, h1)"
    by (cases "read_each BtcTxOutput_ReadFrom (map new_output [0..<unat c]) h")
  obtain ins2 h2 e2 where 2: "(if sw then read_witnesses ins h1 else (ins, h1, None)) = (ins2, h2, e2)"
    by (cases "if sw then read_witnesses ins h1 else (ins, h1, None)")
  have "unat c \<le> 65536" using assms(2) by (simp add: word_less_nat_alt)
  moreover have "length outs = length (map new_output [0..<unat c]) \<and> (\<forall>out \<in> set outs. ok_output out)"
    using 1 by (rule read_each_all [rotated]) (auto intro: readTo_output_bounded)
  ultimately have outs: "length outs \<le> 65536" "\<forall>out \<in> set outs. ok_output out"
    by simp_all
  have ins: "length ins2 \<le> 10000" "\<forall>i \<in> set ins2. input_bounded i"
    using 2 assms(3,4) by (auto dest!: read_witnesses_bounded split: if_splits)
  obtain l h3 where "readUint32le h2 = (l, h3)" by (cases "readUint32le h2")
  with assms(1) 1 2 outs ins show ?thesis
    by (auto simp: read_body_def Let_def ret_def ret_err_def tx_bounded_def split: option.splits)
qed

lemma BtcTx_ReadFrom_bounded:
  assumes "BtcTx_ReadFrom d r = (tx, r', n, e)" and "tx_bounded d"
  shows "tx_bounded tx"
proof -
  obtain v h1 where 1: "readUint32le (new_helper r) = (v, h1)" by (cases "readUint32le (new_helper r)")
  obtain sw c h2 where 2: "read_in_count h1 = (sw, c, h2)" by (cases "read_in_count h1")
  obtain ins h3 where 3: "read_each BtcTxInput_ReadFrom (replicate (unat c) new_input) h2 = (ins, h3)"
    by (cases "read_each BtcTxInput_ReadFrom (replicate (unat c) new_input) h2")
  obtain oc h4 where 4: "readTo BtcVarInt_ReadFrom 0 h3 = (oc, h4)"
    by (cases "readTo BtcVarInt_ReadFrom 0 h3")
  have ins: "length ins \<le> 10000 \<and> (\<forall>i \<in> set ins. input_bounded i)" if "\<not> c > 10000"
  proof -
    have "unat c \<le> 10000" using that by (simp add: word_less_nat_alt)
    moreover have "length ins = length (replicate (unat c) new_input) \<and> (\<forall>i \<in> set ins. input_bounded i)"
      using 3 by (rule read_each_all [rotated])
        (auto intro: readTo_input_bounded)
    ultimately show ?thesis
      by simp
  qed
  show ?thesis
  proof (cases "c > 10000 \<or> oc > 65536")
    case True
    with assms 1 2 3 4 ins show ?thesis
      by (auto simp: BtcTx_ReadFrom_steps ret_err_def Let_def tx_bounded_def split: if_splits)
  next
    case False
    with assms 1 2 3 4 have "read_body sw (d\<lparr>Version := v\<rparr>) ins oc h4 = (tx, r', n, e)"
      by (simp add: BtcTx_ReadFrom_steps Let_def)
    with False ins show ?thesis
      by (auto dest: read_body_bounded)
  qed
qed

section \<open>Sizes\<close>

lemma fold_add: "fold (\<lambda>x n. n + f x) xs (a :: nat) = a + sum_list (map f xs)"
  by (induction xs arbitrary: a) auto

lemma fold_add2:
  "fold (\<lambda>x (m, n). (m + f x, n + g x)) xs (a :: nat, b :: nat) =
    (a + sum_list (map f xs), b + sum_list (map g xs))"
  by (induction xs arbitrary: a b) auto

lemma length_BtcTxInput_Bytes:
  "length (TXID i) = 32 \<Longrightarrow> length (BtcTxInput_Bytes i) = input_computeSize i"
  by (simp add: BtcTxInput_Bytes_def input_computeSize_def)

lemma length_BtcTxOutput_Bytes: "length (BtcTxOutput_Bytes out) = output_computeSize out"
  by (simp add: BtcTxOutput_Bytes_def output_computeSize_def)

lemma length_witness_bytes: "length (witness_bytes (Witnesses i)) = input_computeWitnessSize i"
  by (simp add: witness_bytes_def input_computeWitnessSize_def fold_add length_concat comp_def)

lemma length_exportBytes:
  assumes "\<forall>i \<in> set (TxIn tx). length (TXID i) = 32"
  shows "length (exportBytes wit tx) =
    8 + BtcVarInt_Len (varint_len (length (TxIn tx))) + BtcVarInt_Len (varint_len (length (TxOut tx))) +
    sum_list (map input_computeSize (TxIn tx)) + sum_list (map output_computeSize (TxOut tx)) +
    (if wit then 2 + sum_list (map input_computeWitnessSize (TxIn tx)) else 0)"
proof -
  have "sum_list (map (\<lambda>i. length (BtcTxInput_Bytes i)) (TxIn tx)) =
      sum_list (map input_computeSize (TxIn tx))"
    using assms by (intro arg_cong [where f = sum_list] map_cong) (simp_all add: length_BtcTxInput_Bytes)
  then show ?thesis
    by (simp add: exportBytes_def length_concat comp_def length_BtcTxOutput_Bytes length_witness_bytes)
qed

section \<open>Properties\<close>

definition sample_tx :: btc_tx where
  "sample_tx =
     \<lparr>Version = 2,
      TxIn = [\<lparr>TXID = replicate 31 0 @ [7], Vout = 1, InScript = [], Sequence = 0xffffffff,
               Witnesses = [[1, 2], []]\<rparr>],
      TxOut = [\<lparr>Amount = 50000, OutN = 0, OutScript = [0x6a]\<rparr>],
      Locktime = 0\<rparr>"

lemma wf_sample_tx: "wf_tx sample_tx"
  by (simp add: sample_tx_def wf_tx_def tx_bounded_def input_bounded_def ok_output_def)

text \<open>
  C4: a well-formed transaction, with or without witness data, survives serialisation: parsing
  the bytes \<open>Bytes\<close> produced, followed by anything, gives back the same transaction and no
  error.
\<close>

theorem btctx_roundtrip:
  assumes "wf_tx tx"
  shows "BtcTx_UnmarshalBinary d (BtcTx_Bytes tx @ rest) = (tx, None)"
  using btctx.reads [OF _ assms] by (simp add: BtcTx_UnmarshalBinary_def)

theorem btctx_roundtrip_witness:
  "BtcTx_UnmarshalBinary sample_tx (BtcTx_Bytes sample_tx @ [9]) = (sample_tx, None)"
  by (rule btctx_roundtrip [OF wf_sample_tx])

text \<open>
  Every proper prefix of a serialised transaction is rejected with an error, at whichever
  field it was cut.
\<close>

theorem btctx_truncated:
  assumes "wf_tx tx" and "k < length (BtcTx_Bytes tx)"
  shows "snd (BtcTx_UnmarshalBinary d (take k (BtcTx_Bytes tx))) \<noteq> None"
proof -
  obtain tx' r n e where r: "BtcTx_ReadFrom d (take k (BtcTx_Bytes tx)) = (tx', r, n, e)"
    by (cases "BtcTx_ReadFrom d (take k (BtcTx_Bytes tx))")
  with btctx.truncated_rejected [OF _ assms r] show ?thesis
    by (simp add: BtcTx_UnmarshalBinary_def)
qed

theorem btctx_truncated_witness:
  "snd (BtcTx_UnmarshalBinary sample_tx (take 60 (BtcTx_Bytes sample_tx))) \<noteq> None"
proof -
  have "60 < length (BtcTx_Bytes sample_tx)"
    by (simp add: BtcTx_Bytes_def exportBytes_def sample_tx_def HasWitness_def BtcTxInput_Bytes_def
        BtcTxOutput_Bytes_def BtcVarInt_Len_def varint_len_def witness_bytes_def)
  then show ?thesis
    by (rule btctx_truncated [OF wf_sample_tx])
qed

text \<open>
  On any bytes at all, parsing stays within the limits of the code (inputs, outputs, witness
  items and the size of every buffer it allocates), and the count it returns is exactly the
  number of bytes it took from the reader, also when it fails.
\<close>

theorem btctx_read_bounds:
  assumes "tx_bounded d" and "BtcTx_ReadFrom d r = (tx, r', n, e)"
  shows "tx_bounded tx \<and> n \<le> length r \<and> r' = drop n r"
  using BtcTx_ReadFrom_bounded [OF assms(2,1)] BtcTx_ReadFrom_counts [OF assms(2)] by simp

theorem btctx_read_bounds_witness:
  "\<exists>tx r' n e. BtcTx_ReadFrom sample_tx [1, 0, 0, 0, 0] = (tx, r', n, e) \<and>
     tx_bounded tx \<and> n \<le> 5 \<and> r' = drop n [1, 0, 0, 0, 0]"
proof -
  obtain tx r' n e where r: "BtcTx_ReadFrom sample_tx [1, 0, 0, 0, 0] = (tx, r', n, e)"
    by (cases "BtcTx_ReadFrom sample_tx [1, 0, 0, 0, 0]")
  have "tx_bounded sample_tx"
    using wf_sample_tx by (simp add: wf_tx_def)
  from btctx_read_bounds [OF this r] r show ?thesis
    by auto
qed

text \<open>
  C25: \<open>ComputeSize\<close> is the virtual size of BIP-141: the length of the serialisation for a
  transaction without witness data, and otherwise a quarter of the weight (three times the
  stripped length plus the full length), rounded up.
\<close>

theorem ComputeSize_is_vsize:
  assumes "\<forall>i \<in> set (TxIn tx). length (TXID i) = 32"
  shows "ComputeSize tx =
    (if HasWitness tx
     then (3 * length (exportBytes False tx) + length (exportBytes True tx) + 3) div 4
     else length (BtcTx_Bytes tx))"
proof -
  have round: "b + w div 4 + (if w mod 4 = 0 then w mod 4 else 1) = (3 * b + (b + w) + 3) div 4"
    for b w :: nat by (auto split: if_splits) arith+
  define b where "b = length (exportBytes False tx)"
  define w where "w = sum_list (map input_computeWitnessSize (TxIn tx)) + 2"
  have full: "length (exportBytes True tx) = b + w"
    by (simp add: b_def w_def length_exportBytes [OF assms])
  have "ComputeSize tx =
      (if HasWitness tx then b + w div 4 + (if w mod 4 = 0 then w mod 4 else 1) else b)"
    by (simp add: ComputeSize_def fold_add fold_add2 Let_def b_def w_def length_exportBytes [OF assms])
  then show ?thesis
    by (simp only: round full b_def [symmetric]) (simp add: BtcTx_Bytes_def b_def)
qed

theorem ComputeSize_is_vsize_witness:
  "ComputeSize sample_tx =
    (3 * length (exportBytes False sample_tx) + length (exportBytes True sample_tx) + 3) div 4"
proof -
  have "\<forall>i \<in> set (TxIn sample_tx). length (TXID i) = 32" "HasWitness sample_tx"
    by (simp_all add: sample_tx_def HasWitness_def)
  with ComputeSize_is_vsize [of sample_tx] show ?thesis by simp
qed

end
