(* ===== verification/SolanaWire.thy ===== *)
theory SolanaWire
  imports Codec "HOL-Library.List_Lexorder"
begin

text \<open>
  The wire format of Solana transactions (\<^verbatim>\<open>solanatx.go\<close>): keys, the compact-u16
  integer, compiled instructions, address table lookups, legacy and v0 messages and the signed
  transaction. An \<open>UnmarshalBinary\<close> threads the slice \<open>r\<close> of bytes still to be read;
  the model returns the message and what it left of \<open>r\<close>, and on an error only the error: the
  half-filled receiver of a failed call is not modelled.
\<close>

section \<open>Keys\<close>

text \<open>\<open>[32]byte\<close>; the length is part of the well-formedness of every message.\<close>

datatype solana_key = SolanaKey (key_bytes: bytes)

definition ok_key :: "solana_key \<Rightarrow> bool" where
  "ok_key k \<longleftrightarrow> length (key_bytes k) = 32"

definition SolanaKey_IsZero :: "solana_key \<Rightarrow> bool" where
  "SolanaKey_IsZero k \<longleftrightarrow> k = SolanaKey (replicate 32 0)"

text \<open>The order of \<open>slices.Compare\<close> on the bytes of two keys.\<close>

instantiation solana_key :: linorder
begin

definition less_eq_solana_key :: "solana_key \<Rightarrow> solana_key \<Rightarrow> bool" where
  "less_eq_solana_key a b \<longleftrightarrow> key_bytes a \<le> key_bytes b"

definition less_solana_key :: "solana_key \<Rightarrow> solana_key \<Rightarrow> bool" where
  "less_solana_key a b \<longleftrightarrow> key_bytes a < key_bytes b"

instance
  by standard (auto simp: less_eq_solana_key_def less_solana_key_def solana_key.expand)

end

section \<open>Messages\<close>

record solana_header =
  NumRequiredSignatures :: byte
  NumReadonlySignedAccounts :: byte
  NumReadonlyUnsignedAccounts :: byte

record solana_compiled =
  ProgramIDIndex :: byte
  AccountIndices :: bytes
  IxData :: bytes

record solana_lookup =
  LookupKey :: solana_key
  WritableIndexes :: bytes
  ReadonlyIndexes :: bytes

record solana_message =
  Header :: solana_header
  AccountKeys :: "solana_key list"
  RecentBlockhash :: solana_key
  Instructions :: "solana_compiled list"

record solana_message_v0 = solana_message +
  AddressTableLookups :: "solana_lookup list"

text \<open>An empty signature slot is an empty list.\<close>

record solana_tx =
  Signatures :: "bytes list"
  Message :: solana_message
  MessageV0 :: "solana_message_v0 option"

section \<open>The compact-u16 integer\<close>

definition compact_u16 :: "nat \<Rightarrow> bytes" where
  "compact_u16 v =
     (if v < 0x80 then [word_of_nat v]
      else if v < 0x4000 then [word_of_nat (v mod 0x80) OR 0x80, word_of_nat (v div 0x80)]
      else [word_of_nat (v mod 0x80) OR 0x80, word_of_nat (v div 0x80 mod 0x80) OR 0x80,
            word_of_nat (v div 0x4000)])"

definition solanaEncodeCompactU16 :: "nat \<Rightarrow> bytes result" where
  "solanaEncodeCompactU16 v = (if v > 0xffff then Inl Panic else Inr (compact_u16 v))"

definition solanaDecodeCompactU16 :: "bytes \<Rightarrow> (nat \<times> nat) result" where
  "solanaDecodeCompactU16 data =
     (if length data = 0 then Inl (Error ErrUnexpectedEOF)
      else bindE (idx data 0) (\<lambda>b0.
        if b0 < 0x80 then Inr (unat b0, 1)
        else if length data < 2 then Inl (Error ErrUnexpectedEOF)
        else bindE (idx data 1) (\<lambda>b1.
          if b1 < 0x80 then
            if b1 = 0 then fail ''non-canonical compact-u16''
            else Inr (unat (b0 AND 0x7f) OR push_bit 7 (unat b1), 2)
          else if length data < 3 then Inl (Error ErrUnexpectedEOF)
          else bindE (idx data 2) (\<lambda>b2.
            if b2 > 3 then fail ''compact-u16 overflow''
            else if b2 = 0 then fail ''non-canonical compact-u16''
            else Inr (unat (b0 AND 0x7f) OR push_bit 7 (unat (b1 AND 0x7f)) OR push_bit 14 (unat b2), 3)))))"

section \<open>Marshalling\<close>

definition marshal_ix :: "solana_compiled \<Rightarrow> bytes result" where
  "marshal_ix ix =
     bindE (solanaEncodeCompactU16 (length (AccountIndices ix))) (\<lambda>a.
     bindE (solanaEncodeCompactU16 (length (IxData ix))) (\<lambda>d.
     Inr ([ProgramIDIndex ix] @ a @ AccountIndices ix @ d @ IxData ix)))"

definition marshal_lookup :: "solana_lookup \<Rightarrow> bytes result" where
  "marshal_lookup l =
     bindE (solanaEncodeCompactU16 (length (WritableIndexes l))) (\<lambda>w.
     bindE (solanaEncodeCompactU16 (length (ReadonlyIndexes l))) (\<lambda>r.
     Inr (key_bytes (LookupKey l) @ w @ WritableIndexes l @ r @ ReadonlyIndexes l)))"

text \<open>What the two message versions share: header, keys, blockhash, instructions.\<close>

definition marshal_body :: "'a solana_message_scheme \<Rightarrow> bytes result" where
  "marshal_body msg =
     bindE (solanaEncodeCompactU16 (length (AccountKeys msg))) (\<lambda>nk.
     bindE (solanaEncodeCompactU16 (length (Instructions msg))) (\<lambda>ni.
     bindE (mapE marshal_ix (Instructions msg)) (\<lambda>ixs.
     Inr ([NumRequiredSignatures (Header msg), NumReadonlySignedAccounts (Header msg),
           NumReadonlyUnsignedAccounts (Header msg)]
          @ nk @ concat (map key_bytes (AccountKeys msg))
          @ key_bytes (RecentBlockhash msg) @ ni @ concat ixs))))"

definition SolanaMessage_MarshalBinary :: "solana_message \<Rightarrow> bytes result" where
  "SolanaMessage_MarshalBinary msg = marshal_body msg"

definition SolanaMessageV0_MarshalBinary :: "solana_message_v0 \<Rightarrow> bytes result" where
  "SolanaMessageV0_MarshalBinary msg =
     bindE (marshal_body msg) (\<lambda>body.
     bindE (solanaEncodeCompactU16 (length (AddressTableLookups msg))) (\<lambda>nl.
     bindE (mapE marshal_lookup (AddressTableLookups msg)) (\<lambda>ls.
     Inr ([0x80] @ body @ nl @ concat ls))))"

definition messageBytes :: "solana_tx \<Rightarrow> bytes result" where
  "messageBytes tx =
     (case MessageV0 tx of
        Some msg \<Rightarrow> SolanaMessageV0_MarshalBinary msg
      | None \<Rightarrow> SolanaMessage_MarshalBinary (Message tx))"

definition marshal_signature :: "bytes \<Rightarrow> bytes result" where
  "marshal_signature sig =
     (if length sig = 0 then Inr (replicate 64 0)
      else if length sig \<noteq> 64 then fail ''invalid signature length: %d''
      else Inr sig)"

definition SolanaTx_MarshalBinary :: "solana_tx \<Rightarrow> bytes result" where
  "SolanaTx_MarshalBinary tx =
     bindE (messageBytes tx) (\<lambda>msgBytes.
     bindE (solanaEncodeCompactU16 (length (Signatures tx))) (\<lambda>n.
     bindE (mapE marshal_signature (Signatures tx)) (\<lambda>sigs.
     Inr (n @ concat sigs @ msgBytes))))"

section \<open>Unmarshalling\<close>

text \<open>\<open>v, n, err := solanaDecodeCompactU16(r); ... r = r[n:]\<close>, with the wrapped error.\<close>

definition read_count :: "string \<Rightarrow> nat decoder" where
  "read_count what r =
     (case solanaDecodeCompactU16 r of
        Inl (Error _) \<Rightarrow> fail what
      | Inl Panic \<Rightarrow> Inl Panic
      | Inr (v, n) \<Rightarrow> bindE (slice_from r n) (\<lambda>r. Inr (v, r)))"

text \<open>\<open>if len(r) < k \{ return io.ErrUnexpectedEOF \}\<close>, then \<open>r[:k]\<close> and \<open>r[k:]\<close>.\<close>

definition read_bytes :: "nat \<Rightarrow> bytes decoder" where
  "read_bytes k r =
     (if length r < k then Inl (Error ErrUnexpectedEOF)
      else bindE (slice_to r k) (\<lambda>b. bindE (slice_from r k) (\<lambda>r. Inr (b, r))))"

definition read_key :: "solana_key decoder" where
  "read_key r = bindE (read_bytes 32 r) (\<lambda>(b, r). Inr (SolanaKey b, r))"

definition read_header :: "solana_header decoder" where
  "read_header r =
     (if length r < 3 then Inl (Error ErrUnexpectedEOF)
      else bindE (idx r 0) (\<lambda>a. bindE (idx r 1) (\<lambda>b. bindE (idx r 2) (\<lambda>c.
        bindE (slice_from r 3) (\<lambda>r.
        Inr (\<lparr>NumRequiredSignatures = a, NumReadonlySignedAccounts = b,
              NumReadonlyUnsignedAccounts = c\<rparr>, r))))))"

definition validateSolanaHeader :: "solana_header \<Rightarrow> nat \<Rightarrow> unit result" where
  "validateSolanaHeader h numKeys =
     (if unat (NumRequiredSignatures h) > numKeys then
        fail ''NumRequiredSignatures %d exceeds account key count %d''
      else if unat (NumReadonlySignedAccounts h) > unat (NumRequiredSignatures h) then
        fail ''NumReadonlySignedAccounts %d exceeds NumRequiredSignatures %d''
      else if unat (NumRequiredSignatures h) + unat (NumReadonlyUnsignedAccounts h) > numKeys then
        fail ''NumRequiredSignatures + NumReadonlyUnsignedAccounts (%d) exceeds account key count %d''
      else Inr ())"

definition read_ix :: "solana_compiled decoder" where
  "read_ix r =
     (if length r < 1 then Inl (Error ErrUnexpectedEOF)
      else bindE (idx r 0) (\<lambda>prog. bindE (slice_from r 1) (\<lambda>r.
        bindE (read_count ''reading account index count: %w'' r) (\<lambda>(accCount, r).
        bindE (read_bytes accCount r) (\<lambda>(accs, r).
        bindE (read_count ''reading instruction data length: %w'' r) (\<lambda>(dataLen, r).
        bindE (read_bytes dataLen r) (\<lambda>(dat, r).
        Inr (\<lparr>ProgramIDIndex = prog, AccountIndices = accs, IxData = dat\<rparr>, r))))))))"

text \<open>The program and account indexes of an instruction against the number of accounts.\<close>

definition check_ix :: "nat \<Rightarrow> solana_compiled \<Rightarrow> unit result" where
  "check_ix n ix =
     (if unat (ProgramIDIndex ix) \<ge> n then fail ''instruction %d program id index %d out of range''
      else if list_ex (\<lambda>ai. unat ai \<ge> n) (AccountIndices ix) then
        fail ''instruction %d account index %d out of range''
      else Inr ())"

definition read_checked_ix :: "nat \<Rightarrow> solana_compiled decoder" where
  "read_checked_ix n r = bindE (read_ix r) (\<lambda>(ix, r). bindE (check_ix n ix) (\<lambda>_. Inr (ix, r)))"

definition read_lookup :: "solana_lookup decoder" where
  "read_lookup r =
     bindE (read_key r) (\<lambda>(k, r).
     bindE (read_count ''reading writable indexes count: %w'' r) (\<lambda>(wCount, r).
     bindE (read_bytes wCount r) (\<lambda>(ws, r).
     bindE (read_count ''reading readonly indexes count: %w'' r) (\<lambda>(rCount, r).
     bindE (read_bytes rCount r) (\<lambda>(rs, r).
     Inr (\<lparr>LookupKey = k, WritableIndexes = ws, ReadonlyIndexes = rs\<rparr>, r))))))"

definition read_keys :: "solana_key list decoder" where
  "read_keys r =
     bindE (read_count ''reading account key count: %w'' r) (\<lambda>(keyCount, r).
       if keyCount > 256 then fail ''account key count %d exceeds maximum of 256''
       else dec_n read_key keyCount r)"

text \<open>A count of items that each take at least a byte, then the items.\<close>

definition read_capped :: "string \<Rightarrow> string \<Rightarrow> 'a decoder \<Rightarrow> 'a list decoder" where
  "read_capped what too_many item r =
     bindE (read_count what r) (\<lambda>(n, r).
       if n > length r then fail too_many else dec_n item n r)"

definition read_message :: "solana_message decoder" where
  "read_message data =
     bindE (read_header data) (\<lambda>(h, r).
     bindE (read_keys r) (\<lambda>(keys, r).
     bindE (validateSolanaHeader h (length keys)) (\<lambda>_.
     bindE (read_key r) (\<lambda>(bh, r).
     bindE (read_capped ''reading instruction count: %w'' ''instruction count %d exceeds remaining bytes %d''
              (read_checked_ix (length keys)) r) (\<lambda>(ixs, r).
     Inr (\<lparr>Header = h, AccountKeys = keys, RecentBlockhash = bh, Instructions = ixs\<rparr>, r))))))"

definition SolanaMessage_UnmarshalBinary :: "bytes \<Rightarrow> solana_message result" where
  "SolanaMessage_UnmarshalBinary data = bindE (read_message data) (\<lambda>(msg, r). Inr msg)"

definition addressable :: "nat \<Rightarrow> solana_lookup list \<Rightarrow> nat" where
  "addressable keyCount ls =
     fold (\<lambda>l n. n + (length (WritableIndexes l) + length (ReadonlyIndexes l))) ls keyCount"

definition read_message_v0 :: "solana_message_v0 decoder" where
  "read_message_v0 data =
     (if length data < 1 then Inl (Error ErrUnexpectedEOF)
      else bindE (idx data 0) (\<lambda>v.
        if v AND 0x80 = 0 then fail ''not a versioned message: MSB not set''
        else if v AND 0x7f \<noteq> 0 then fail ''unsupported message version: %d''
        else
          bindE (slice_from data 1) (\<lambda>r.
          bindE (read_header r) (\<lambda>(h, r).
          bindE (read_keys r) (\<lambda>(keys, r).
          bindE (validateSolanaHeader h (length keys)) (\<lambda>_.
          bindE (read_key r) (\<lambda>(bh, r).
          bindE (read_capped ''reading instruction count: %w''
                   ''instruction count %d exceeds remaining bytes %d'' read_ix r) (\<lambda>(ixs, r).
          bindE (read_capped ''reading address table lookup count: %w''
                   ''address table lookup count %d exceeds remaining bytes %d'' read_lookup r) (\<lambda>(ls, r).
          bindE (mapE (check_ix (addressable (length keys) ls)) ixs) (\<lambda>_.
          Inr (\<lparr>Header = h, AccountKeys = keys, RecentBlockhash = bh, Instructions = ixs,
                AddressTableLookups = ls\<rparr>, r)))))))))))"

definition SolanaMessageV0_UnmarshalBinary :: "bytes \<Rightarrow> solana_message_v0 result" where
  "SolanaMessageV0_UnmarshalBinary data = bindE (read_message_v0 data) (\<lambda>(msg, r). Inr msg)"

text \<open>The receiver \<open>tx\<close> is an argument: the method overwrites only parts of it.\<close>

definition SolanaTx_UnmarshalBinary :: "solana_tx \<Rightarrow> bytes \<Rightarrow> solana_tx result" where
  "SolanaTx_UnmarshalBinary tx data =
     bindE (read_count ''reading signature count: %w'' data) (\<lambda>(sigCount, r).
       if sigCount > 256 then fail ''signature count %d exceeds maximum of 256''
       else
         bindE (dec_n (read_bytes 64) sigCount r) (\<lambda>(sigs, r).
           let tx = tx\<lparr>Signatures := sigs\<rparr> in
           if r \<noteq> [] \<and> hd r AND 0x80 \<noteq> 0 then
             if hd r AND 0x7f \<noteq> 0 then fail ''unsupported transaction version: %d''
             else bindE (SolanaMessageV0_UnmarshalBinary r) (\<lambda>m. Inr (tx\<lparr>MessageV0 := Some m\<rparr>))
           else bindE (SolanaMessage_UnmarshalBinary r) (\<lambda>m. Inr (tx\<lparr>Message := m\<rparr>))))"

section \<open>The compact-u16 integer is canonical\<close>

lemma length_compact_u16: "length (compact_u16 v) = (if v < 0x80 then 1 else if v < 0x4000 then 2 else 3)"
  by (simp add: compact_u16_def)

lemma decode_compact_u16:
  assumes "v \<le> 0xffff"
  shows "solanaDecodeCompactU16 (compact_u16 v @ rest) = Inr (v, length (compact_u16 v))"
proof -
  have u: "unat (word_of_nat n :: byte) = n" if "n < 256" for n
    using that by (simp add: unat_of_nat)
  have lt: "(word_of_nat n :: byte) < 0x80 \<longleftrightarrow> n < 128" if "n < 256" for n
    using that by (simp add: word_less_nat_alt u)
  consider "v < 0x80" | "\<not> v < 0x80" "v < 0x4000" | "\<not> v < 0x4000" by fastforce
  then show ?thesis
  proof cases
    case 1
    then show ?thesis
      by (simp add: compact_u16_def solanaDecodeCompactU16_def lt u)
  next
    case 2
    define d where "d = v div 128"
    have d: "d < 128" "d \<noteq> 0" "v mod 128 + 128 * d = v"
      using 2 by (auto simp: d_def div_eq_0_iff)
    have "(word_of_nat d :: byte) \<noteq> 0"
      using d by (simp add: word_unat_eq_iff u)
    moreover have "v mod 128 OR push_bit 7 d = v"
      using or_push_bit [of "v mod 128" 7 d] d by simp
    ultimately show ?thesis
      using 2 d
      by (simp add: compact_u16_def solanaDecodeCompactU16_def high_bit_set lt u d_def [symmetric])
  next
    case 3
    define d where "d = v div 128 mod 128"
    define e where "e = v div 16384"
    have d: "d < 128" "e \<noteq> 0" "e \<le> 3" "v mod 128 + 128 * d + 16384 * e = v"
    proof -
      have "v div 128 div 128 = e"
        by (simp add: e_def div_mult2_eq [symmetric])
      then show "v mod 128 + 128 * d + 16384 * e = v"
        using div_mult_mod_eq [of v 128] div_mult_mod_eq [of "v div 128" 128] unfolding d_def by linarith
    qed (use 3 assms in \<open>auto simp: d_def e_def div_eq_0_iff\<close>)
    have e: "(word_of_nat e :: byte) \<noteq> 0" "\<not> (word_of_nat e :: byte) > 3"
      using d by (simp_all add: word_unat_eq_iff word_less_nat_alt u)
    have "(v mod 128 OR push_bit 7 d) OR push_bit 14 e = v"
      using or_push_bit [of "v mod 128" 7 d] or_push_bit [of "v mod 128 + 128 * d" 14 e] d by simp
    with 3 d e show ?thesis
      by (simp add: compact_u16_def solanaDecodeCompactU16_def high_bit_set lt u d_def [symmetric]
          e_def [symmetric] or.assoc)
  qed
qed

lemma compact_u16_decode:
  assumes "solanaDecodeCompactU16 bs = Inr (v, n)"
  shows "v \<le> 0xffff \<and> n = length (compact_u16 v) \<and> bs = compact_u16 v @ drop n bs"
proof -
  from assms obtain b0 cs where bs: "bs = b0 # cs"
    by (cases bs) (auto simp: solanaDecodeCompactU16_def)
  show ?thesis
  proof (cases "b0 < 0x80")
    case True
    with assms bs show ?thesis
      by (auto simp: solanaDecodeCompactU16_def compact_u16_def word_less_nat_alt)
  next
    case b0: False
    with assms bs obtain b1 ds where cs: "cs = b1 # ds"
      by (cases cs) (auto simp: solanaDecodeCompactU16_def)
    show ?thesis
    proof (cases "b1 < 0x80")
      case True
      with b0 assms bs cs have b1: "unat b1 \<noteq> 0" "n = 2"
        and v: "v = unat b0 mod 128 OR push_bit 7 (unat b1)"
        by (auto simp: solanaDecodeCompactU16_def unat_and_low7 word_unat_eq_iff split: if_splits)
      from v have v: "v = unat b0 mod 128 + 128 * unat b1"
        using or_push_bit [of "unat b0 mod 128" 7 "unat b1"] by simp
      have "unat b1 < 128" using True by (simp add: word_less_nat_alt)
      with v b1 have "\<not> v < 128" "v < 16384" "v mod 128 = unat b0 mod 128" "v div 128 = unat b1"
        by auto
      then show ?thesis
        using bs cs b1 set_high_bit [OF b0] by (simp add: compact_u16_def)
    next
      case False
      with b0 assms bs cs obtain b2 es where ds: "ds = b2 # es"
        by (cases ds) (auto simp: solanaDecodeCompactU16_def)
      from False b0 assms bs cs ds have b2: "unat b2 \<noteq> 0" "\<not> b2 > 3" "n = 3"
        and v: "v = (unat b0 mod 128 OR push_bit 7 (unat b1 mod 128)) OR push_bit 14 (unat b2)"
        by (auto simp: solanaDecodeCompactU16_def unat_and_low7 word_unat_eq_iff or.assoc split: if_splits)
      have "unat b2 \<le> 3"
        using b2(2) by (simp add: word_less_nat_alt)
      from v have v: "v = unat b0 mod 128 + 128 * (unat b1 mod 128) + 16384 * unat b2"
        using or_push_bit [of "unat b0 mod 128" 7 "unat b1 mod 128"]
          or_push_bit [of "unat b0 mod 128 + 128 * (unat b1 mod 128)" 14 "unat b2"] by simp
      have digits: "(a mod 128 + 128 * k) mod 128 = a mod 128 mod 128" "(a mod 128 + 128 * k) div 128 = k"
        for a k :: nat by simp_all
      have v': "v = unat b0 mod 128 + 128 * (unat b1 mod 128 + 128 * unat b2)"
        using v by simp
      have "v mod 128 = unat b0 mod 128" "v div 128 mod 128 = unat b1 mod 128"
        unfolding v' digits by (simp_all only: digits mod_mod_trivial)
      moreover have "v div 16384 = unat b2" "\<not> v < 16384" "v \<le> 65535"
        using v b2 \<open>unat b2 \<le> 3\<close> by auto
      ultimately have "v mod 128 = unat b0 mod 128" "v div 128 mod 128 = unat b1 mod 128"
        "v div 16384 = unat b2" "\<not> v < 16384" "v \<le> 65535" by simp_all
      then show ?thesis
        using bs cs ds b2 set_high_bit [OF b0] set_high_bit [OF False] by (simp add: compact_u16_def)
    qed
  qed
qed

lemma no_panic_decode_compact [no_panics]: "no_panic (solanaDecodeCompactU16 bs)"
  by (auto simp: solanaDecodeCompactU16_def)

lemma read_count_iff:
  "read_count what bs = Inr (v, rest) \<longleftrightarrow> bs = compact_u16 v @ rest \<and> v \<le> 0xffff"
proof
  assume *: "read_count what bs = Inr (v, rest)"
  then obtain n where n: "solanaDecodeCompactU16 bs = Inr (v, n)" "slice_from bs n = Inr rest"
    by (auto simp: read_count_def bindE_Inr_iff split: sum.splits failure.splits)
  from compact_u16_decode [OF n(1)] have "v \<le> 0xffff" "bs = compact_u16 v @ drop n bs"
    by blast+
  moreover have "rest = drop n bs"
    using n(2) by (auto simp: slice_from_def subslice_def split: if_splits)
  ultimately show "bs = compact_u16 v @ rest \<and> v \<le> 0xffff"
    by simp
next
  assume "bs = compact_u16 v @ rest \<and> v \<le> 0xffff"
  then show "read_count what bs = Inr (v, rest)"
    by (simp add: read_count_def decode_compact_u16)
qed

lemma read_bytes_iff: "read_bytes k bs = Inr (b, rest) \<longleftrightarrow> bs = b @ rest \<and> length b = k"
  by (auto simp: read_bytes_def)

lemma read_key_iff: "read_key bs = Inr (k, rest) \<longleftrightarrow> bs = key_bytes k @ rest \<and> ok_key k"
  by (cases k) (auto simp: read_key_def bindE_Inr_iff read_bytes_iff ok_key_def)

interpretation compact: canonical_codec compact_u16 "read_count what" "\<lambda>v. v \<le> 0xffff" for what
  by (rule canonical_codecI) (rule read_count_iff)

interpretation fixed: canonical_codec "\<lambda>b. b" "read_bytes k" "\<lambda>b. length b = k" for k
  by (rule canonical_codecI) (rule read_bytes_iff)

interpretation key: canonical_codec key_bytes read_key ok_key
  by (rule canonical_codecI) (rule read_key_iff)

section \<open>Instructions, lookups and messages are canonical\<close>

definition header_bytes :: "solana_header \<Rightarrow> bytes" where
  "header_bytes h =
     [NumRequiredSignatures h, NumReadonlySignedAccounts h, NumReadonlyUnsignedAccounts h]"

lemma read_header_iff: "read_header bs = Inr (h, rest) \<longleftrightarrow> bs = header_bytes h @ rest"
proof
  assume *: "read_header bs = Inr (h, rest)"
  then have "length bs \<ge> 3"
    by (auto simp: read_header_def split: if_splits)
  then obtain a b c ds where "bs = a # b # c # ds"
    by (cases bs; cases "tl bs"; cases "tl (tl bs)") auto
  with * show "bs = header_bytes h @ rest"
    by (auto simp: read_header_def header_bytes_def eval_nat_numeral)
qed (simp add: read_header_def header_bytes_def eval_nat_numeral)

definition ix_bytes :: "solana_compiled \<Rightarrow> bytes" where
  "ix_bytes ix = [ProgramIDIndex ix] @ compact_u16 (length (AccountIndices ix)) @ AccountIndices ix
     @ compact_u16 (length (IxData ix)) @ IxData ix"

definition ok_ix :: "solana_compiled \<Rightarrow> bool" where
  "ok_ix ix \<longleftrightarrow> length (AccountIndices ix) \<le> 0xffff \<and> length (IxData ix) \<le> 0xffff"

lemma read_ix_iff: "read_ix bs = Inr (ix, rest) \<longleftrightarrow> bs = ix_bytes ix @ rest \<and> ok_ix ix"
  by (cases bs; cases ix)
    (auto simp: read_ix_def ix_bytes_def ok_ix_def bindE_Inr_iff read_count_iff read_bytes_iff)

definition ix_at :: "nat \<Rightarrow> solana_compiled \<Rightarrow> bool" where
  "ix_at n ix \<longleftrightarrow> unat (ProgramIDIndex ix) < n \<and> (\<forall>ai \<in> set (AccountIndices ix). unat ai < n)"

lemma check_ix_iff: "check_ix n ix = Inr u \<longleftrightarrow> ix_at n ix"
  by (auto simp: check_ix_def ix_at_def list_ex_iff linorder_not_le [symmetric])

lemma read_checked_ix_iff:
  "read_checked_ix n bs = Inr (ix, rest) \<longleftrightarrow> bs = ix_bytes ix @ rest \<and> (ok_ix ix \<and> ix_at n ix)"
  by (auto simp: read_checked_ix_def bindE_Inr_iff read_ix_iff check_ix_iff)

definition lookup_bytes :: "solana_lookup \<Rightarrow> bytes" where
  "lookup_bytes l = key_bytes (LookupKey l) @ compact_u16 (length (WritableIndexes l))
     @ WritableIndexes l @ compact_u16 (length (ReadonlyIndexes l)) @ ReadonlyIndexes l"

definition ok_lookup :: "solana_lookup \<Rightarrow> bool" where
  "ok_lookup l \<longleftrightarrow> ok_key (LookupKey l) \<and> length (WritableIndexes l) \<le> 0xffff \<and>
     length (ReadonlyIndexes l) \<le> 0xffff"

lemma read_lookup_iff:
  "read_lookup bs = Inr (l, rest) \<longleftrightarrow> bs = lookup_bytes l @ rest \<and> ok_lookup l"
  by (cases l)
    (auto simp: read_lookup_def lookup_bytes_def ok_lookup_def bindE_Inr_iff read_key_iff
      read_count_iff read_bytes_iff)

interpretation ix: canonical_codec ix_bytes read_ix ok_ix
  by (rule canonical_codecI) (rule read_ix_iff)

interpretation checked_ix: canonical_codec ix_bytes "read_checked_ix n" "\<lambda>ix. ok_ix ix \<and> ix_at n ix" for n
  by (rule canonical_codecI) (rule read_checked_ix_iff)

interpretation lookup: canonical_codec lookup_bytes read_lookup ok_lookup
  by (rule canonical_codecI) (rule read_lookup_iff)

definition list_bytes :: "('a \<Rightarrow> bytes) \<Rightarrow> 'a list \<Rightarrow> bytes" where
  "list_bytes enc xs = compact_u16 (length xs) @ concat (map enc xs)"

lemma length_concat_ge: "\<forall>x \<in> set xs. f x \<noteq> [] \<Longrightarrow> length xs \<le> length (concat (map f xs))"
proof (induction xs)
  case (Cons x xs)
  then show ?case by (cases "f x") auto
qed simp

context canonical_codec
begin

lemma read_capped_iff:
  assumes "\<And>x. ok x \<Longrightarrow> enc x \<noteq> []"
  shows "read_capped what cap dec bs = Inr (xs, rest) \<longleftrightarrow>
    bs = list_bytes enc xs @ rest \<and> (length xs \<le> 0xffff \<and> (\<forall>x \<in> set xs. ok x))"
proof -
  have "length xs \<le> length (concat (map enc xs) @ rest)" if "\<forall>x \<in> set xs. ok x"
    using length_concat_ge [of xs enc] assms that by (simp add: trans_le_add1)
  then have "read_capped what cap dec (list_bytes enc xs @ rest) = Inr (xs, rest)"
    if "length xs \<le> 0xffff" "\<forall>x \<in> set xs. ok x"
    using that by (simp add: read_capped_def list_bytes_def compact.dec_enc dec_n_enc)
  moreover have "bs = list_bytes enc xs @ rest \<and> length xs \<le> 0xffff \<and> (\<forall>x \<in> set xs. ok x)"
    if "read_capped what cap dec bs = Inr (xs, rest)"
    using that by (auto simp: read_capped_def list_bytes_def bindE_Inr_iff read_count_iff dec_n_iff
        split: if_splits)
  ultimately show ?thesis
    by blast
qed

end

lemma ix_bytes_nonempty [simp]: "ix_bytes ix \<noteq> []"
  by (simp add: ix_bytes_def)

lemma lookup_bytes_nonempty: "ok_lookup l \<Longrightarrow> lookup_bytes l \<noteq> []"
  by (auto simp: lookup_bytes_def ok_lookup_def ok_key_def)

lemma read_keys_iff:
  "read_keys bs = Inr (ks, rest) \<longleftrightarrow>
    bs = list_bytes key_bytes ks @ rest \<and> (length ks \<le> 256 \<and> (\<forall>k \<in> set ks. ok_key k))"
proof -
  have "read_keys (list_bytes key_bytes ks @ rest) = Inr (ks, rest)"
    if "length ks \<le> 256" "\<forall>k \<in> set ks. ok_key k"
    using that by (simp add: read_keys_def list_bytes_def compact.dec_enc key.dec_n_enc)
  moreover have "bs = list_bytes key_bytes ks @ rest \<and> length ks \<le> 256 \<and> (\<forall>k \<in> set ks. ok_key k)"
    if "read_keys bs = Inr (ks, rest)"
    using that by (auto simp: read_keys_def list_bytes_def bindE_Inr_iff read_count_iff key.dec_n_iff
        split: if_splits)
  ultimately show ?thesis
    by blast
qed

definition ok_header :: "solana_header \<Rightarrow> nat \<Rightarrow> bool" where
  "ok_header h n \<longleftrightarrow> unat (NumRequiredSignatures h) + unat (NumReadonlyUnsignedAccounts h) \<le> n \<and>
     unat (NumReadonlySignedAccounts h) \<le> unat (NumRequiredSignatures h)"

lemma validateSolanaHeader_iff: "validateSolanaHeader h n = Inr u \<longleftrightarrow> ok_header h n"
  by (auto simp: validateSolanaHeader_def ok_header_def)

text \<open>The bytes of the shared part of a message, and what the code demands of a message.\<close>

definition body_bytes :: "'a solana_message_scheme \<Rightarrow> bytes" where
  "body_bytes msg = header_bytes (Header msg) @ list_bytes key_bytes (AccountKeys msg)
     @ key_bytes (RecentBlockhash msg) @ list_bytes ix_bytes (Instructions msg)"

definition ok_body :: "nat \<Rightarrow> 'a solana_message_scheme \<Rightarrow> bool" where
  "ok_body n msg \<longleftrightarrow>
     length (AccountKeys msg) \<le> 256 \<and> (\<forall>k \<in> set (AccountKeys msg). ok_key k) \<and>
     ok_header (Header msg) (length (AccountKeys msg)) \<and> ok_key (RecentBlockhash msg) \<and>
     length (Instructions msg) \<le> 0xffff \<and> (\<forall>ix \<in> set (Instructions msg). ok_ix ix \<and> ix_at n ix)"

definition ok_message :: "solana_message \<Rightarrow> bool" where
  "ok_message msg \<longleftrightarrow> ok_body (length (AccountKeys msg)) msg"

definition v0_bytes :: "solana_message_v0 \<Rightarrow> bytes" where
  "v0_bytes msg = 0x80 # body_bytes msg @ list_bytes lookup_bytes (AddressTableLookups msg)"

definition ok_message_v0 :: "solana_message_v0 \<Rightarrow> bool" where
  "ok_message_v0 msg \<longleftrightarrow>
     ok_body (addressable (length (AccountKeys msg)) (AddressTableLookups msg)) msg \<and>
     length (AddressTableLookups msg) \<le> 0xffff \<and> (\<forall>l \<in> set (AddressTableLookups msg). ok_lookup l)"

lemma read_message_iff:
  "read_message bs = Inr (msg, rest) \<longleftrightarrow> bs = body_bytes msg @ rest \<and> ok_message msg"
  by (cases msg)
    (auto simp: read_message_def body_bytes_def ok_message_def ok_body_def bindE_Inr_iff
      read_header_iff read_keys_iff validateSolanaHeader_iff read_key_iff checked_ix.read_capped_iff)

lemma mapE_check_ix: "(\<exists>u. mapE (check_ix n) ixs = Inr u) \<longleftrightarrow> (\<forall>ix \<in> set ixs. ix_at n ix)"
  by (induction ixs) (auto simp: bindE_Inr_iff check_ix_iff)

lemma version_byte: "v AND 0x80 \<noteq> 0 \<and> v AND 0x7f = 0 \<longleftrightarrow> v = (0x80 :: byte)"
proof
  assume *: "v AND 0x80 \<noteq> 0 \<and> v AND 0x7f = 0"
  then have "unat v mod 128 = 0"
    using unat_and_low7 [of v] by simp
  moreover have "128 \<le> unat v" "unat v < 256"
    using * by (auto simp: and_high_bit)
  ultimately have "unat v = 128"
    by (simp add: le_mod_geq)
  then show "v = 0x80"
    by (simp add: word_unat_eq_iff)
qed simp

lemma read_message_v0_iff:
  "read_message_v0 bs = Inr (msg, rest) \<longleftrightarrow> bs = v0_bytes msg @ rest \<and> ok_message_v0 msg"
proof (cases "\<exists>v r. bs = v # r \<and> v = 0x80")
  case True
  then obtain r where bs: "bs = 0x80 # r" by blast
  show ?thesis
    unfolding bs
    by (cases msg)
      (auto simp: read_message_v0_def v0_bytes_def body_bytes_def ok_message_v0_def ok_body_def
        bindE_Inr_iff read_header_iff read_keys_iff validateSolanaHeader_iff read_key_iff
        ix.read_capped_iff lookup.read_capped_iff lookup_bytes_nonempty mapE_check_ix)
next
  case False
  then show ?thesis
    using version_byte by (cases bs) (auto simp: read_message_v0_def v0_bytes_def)
qed

interpretation message: canonical_codec body_bytes read_message ok_message
  by (rule canonical_codecI) (rule read_message_iff)

interpretation message_v0: canonical_codec v0_bytes read_message_v0 ok_message_v0
  by (rule canonical_codecI) (rule read_message_v0_iff)

section \<open>Marshalling writes these bytes\<close>

lemma encode_compact [simp]: "v \<le> 0xffff \<Longrightarrow> solanaEncodeCompactU16 v = Inr (compact_u16 v)"
  by (simp add: solanaEncodeCompactU16_def)

lemma marshal_ix_bytes: "ok_ix ix \<Longrightarrow> marshal_ix ix = Inr (ix_bytes ix)"
  by (simp add: marshal_ix_def ok_ix_def ix_bytes_def)

lemma marshal_lookup_bytes: "ok_lookup l \<Longrightarrow> marshal_lookup l = Inr (lookup_bytes l)"
  by (simp add: marshal_lookup_def ok_lookup_def lookup_bytes_def)

lemma marshal_body_bytes: "ok_body n msg \<Longrightarrow> marshal_body msg = Inr (body_bytes msg)"
  by (simp add: marshal_body_def ok_body_def body_bytes_def header_bytes_def list_bytes_def
      mapE_all_Inr [where g = ix_bytes] marshal_ix_bytes)

lemma SolanaMessage_MarshalBinary_bytes:
  "ok_message msg \<Longrightarrow> SolanaMessage_MarshalBinary msg = Inr (body_bytes msg)"
  unfolding SolanaMessage_MarshalBinary_def ok_message_def by (rule marshal_body_bytes)

lemma SolanaMessageV0_MarshalBinary_bytes:
  "ok_message_v0 msg \<Longrightarrow> SolanaMessageV0_MarshalBinary msg = Inr (v0_bytes msg)"
  by (auto simp: SolanaMessageV0_MarshalBinary_def ok_message_v0_def v0_bytes_def list_bytes_def
      mapE_all_Inr [where g = lookup_bytes] marshal_lookup_bytes dest!: marshal_body_bytes)

text \<open>A transaction the wire format can carry; an empty slot is written as zeros.\<close>

definition ok_active :: "solana_tx \<Rightarrow> bool" where
  "ok_active tx \<longleftrightarrow>
     (case MessageV0 tx of
        Some m \<Rightarrow> ok_message_v0 m
      | None \<Rightarrow> ok_message (Message tx) \<and> unat (NumRequiredSignatures (Header (Message tx))) < 128)"

definition ok_tx :: "solana_tx \<Rightarrow> bool" where
  "ok_tx tx \<longleftrightarrow> length (Signatures tx) \<le> 256 \<and>
     (\<forall>s \<in> set (Signatures tx). s = [] \<or> length s = 64) \<and> ok_active tx"

definition filled :: "bytes \<Rightarrow> bytes" where
  "filled s = (if s = [] then replicate 64 0 else s)"

definition message_wire :: "solana_tx \<Rightarrow> bytes" where
  "message_wire tx = (case MessageV0 tx of Some m \<Rightarrow> v0_bytes m | None \<Rightarrow> body_bytes (Message tx))"

definition tx_bytes :: "solana_tx \<Rightarrow> bytes" where
  "tx_bytes tx = list_bytes filled (Signatures tx) @ message_wire tx"

lemma messageBytes_wire: "ok_active tx \<Longrightarrow> messageBytes tx = Inr (message_wire tx)"
  by (simp add: messageBytes_def ok_active_def message_wire_def SolanaMessage_MarshalBinary_bytes
      SolanaMessageV0_MarshalBinary_bytes split: option.splits)

lemma SolanaTx_MarshalBinary_bytes: "ok_tx tx \<Longrightarrow> SolanaTx_MarshalBinary tx = Inr (tx_bytes tx)"
proof -
  assume *: "ok_tx tx"
  then have "mapE marshal_signature (Signatures tx) = Inr (map filled (Signatures tx))"
    by (intro mapE_all_Inr) (auto simp: ok_tx_def marshal_signature_def filled_def)
  with * show ?thesis
    by (simp add: SolanaTx_MarshalBinary_def ok_tx_def tx_bytes_def messageBytes_wire list_bytes_def)
qed

section \<open>Decoding never panics\<close>

lemma no_panic_read_count [no_panics]: "no_panic (read_count what r)"
proof (cases "solanaDecodeCompactU16 r")
  case (Inl e)
  then show ?thesis
    using no_panic_decode_compact [of r] by (cases e) (auto simp: read_count_def)
next
  case (Inr p)
  obtain v n where p: "p = (v, n)" by (cases p)
  from compact_u16_decode [OF Inr [unfolded p]] have "n \<le> length r"
    by (metis length_append le_add1)
  with Inr p show ?thesis
    by (simp add: read_count_def)
qed

lemma no_panic_read_bytes [no_panics]: "no_panic (read_bytes k r)"
  by (simp add: read_bytes_def)

lemma no_panic_read_key [no_panics]: "no_panic (read_key r)"
  by (auto simp: read_key_def intro!: no_panic_bindE no_panics split: prod.splits)

lemma no_panic_read_header [no_panics]: "no_panic (read_header r)"
  by (auto simp: read_header_def idx_def)

lemma no_panic_checks [no_panics]: "no_panic (validateSolanaHeader h n)" "no_panic (check_ix n ix)"
  by (auto simp: validateSolanaHeader_def check_ix_def)

lemma no_panic_read_ix [no_panics]: "no_panic (read_ix r)"
  by (cases r) (auto simp: read_ix_def intro!: no_panic_bindE no_panics split: prod.splits)

lemma no_panic_read_checked_ix [no_panics]: "no_panic (read_checked_ix n r)"
  by (auto simp: read_checked_ix_def intro!: no_panic_bindE no_panics split: prod.splits)

lemma no_panic_read_lookup [no_panics]: "no_panic (read_lookup r)"
  by (auto simp: read_lookup_def intro!: no_panic_bindE no_panics split: prod.splits)

lemma no_panic_read_keys [no_panics]: "no_panic (read_keys r)"
  by (auto simp: read_keys_def intro!: no_panic_bindE no_panic_dec_n no_panics split: prod.splits)

lemma no_panic_read_capped: "(\<And>r. no_panic (item r)) \<Longrightarrow> no_panic (read_capped what cap item r)"
  by (auto simp: read_capped_def intro!: no_panic_bindE no_panic_dec_n no_panics split: prod.splits)

lemma no_panic_read_message [no_panics]: "no_panic (read_message r)"
  by (auto simp: read_message_def intro!: no_panic_bindE no_panic_read_capped no_panics split: prod.splits)

lemma no_panic_read_message_v0 [no_panics]: "no_panic (read_message_v0 r)"
  by (cases r) (auto simp: read_message_v0_def
      intro!: no_panic_bindE no_panic_read_capped no_panic_mapE no_panics split: prod.splits)

section \<open>The transaction\<close>

text \<open>What a successful \<open>UnmarshalBinary\<close> leaves in the receiver.\<close>

definition received :: "solana_tx \<Rightarrow> solana_tx \<Rightarrow> solana_tx" where
  "received old tx =
     (case MessageV0 tx of
        Some m \<Rightarrow> old\<lparr>Signatures := map filled (Signatures tx), MessageV0 := Some m\<rparr>
      | None \<Rightarrow> old\<lparr>Signatures := map filled (Signatures tx), Message := Message tx\<rparr>)"

lemma first_byte: "body_bytes msg @ rest = b # r \<Longrightarrow> b = NumRequiredSignatures (Header msg)"
  by (simp add: body_bytes_def header_bytes_def)

lemma dec_signatures:
  assumes "\<forall>s \<in> set sigs. s = [] \<or> length s = 64"
  shows "dec_n (read_bytes 64) (length sigs) (concat (map filled sigs) @ rest) = Inr (map filled sigs, rest)"
proof -
  have "\<forall>s \<in> set (map filled sigs). length s = 64"
    using assms by (auto simp: filled_def)
  from fixed.dec_n_enc [OF this, of rest] show ?thesis
    by simp
qed

lemma SolanaTx_UnmarshalBinary_bytes:
  assumes "ok_tx tx"
  shows "SolanaTx_UnmarshalBinary old (tx_bytes tx @ rest) = Inr (received old tx)"
proof -
  have hd: "hd (body_bytes m) = NumRequiredSignatures (Header m)" "body_bytes m \<noteq> []"
    "hd (v0_bytes m') = 0x80" "v0_bytes m' \<noteq> []" for m :: solana_message and m' :: solana_message_v0
    by (simp_all add: body_bytes_def header_bytes_def v0_bytes_def)
  have start: "SolanaTx_UnmarshalBinary old (tx_bytes tx @ rest) =
      (let r = message_wire tx @ rest; old = old\<lparr>Signatures := map filled (Signatures tx)\<rparr> in
       if r \<noteq> [] \<and> hd r AND 0x80 \<noteq> 0 then
         if hd r AND 0x7f \<noteq> 0 then fail ''unsupported transaction version: %d''
         else bindE (SolanaMessageV0_UnmarshalBinary r) (\<lambda>m. Inr (old\<lparr>MessageV0 := Some m\<rparr>))
       else bindE (SolanaMessage_UnmarshalBinary r) (\<lambda>m. Inr (old\<lparr>Message := m\<rparr>)))"
    using assms by (simp add: SolanaTx_UnmarshalBinary_def ok_tx_def tx_bytes_def list_bytes_def
        compact.dec_enc dec_signatures Let_def)
  show ?thesis
  proof (cases "MessageV0 tx")
    case None
    then have "ok_message (Message tx)" "NumRequiredSignatures (Header (Message tx)) AND 0x80 = 0"
      using assms by (auto simp: ok_tx_def ok_active_def and_high_bit)
    with None show ?thesis
      by (simp add: start message_wire_def Let_def hd SolanaMessage_UnmarshalBinary_def
          message.dec_enc received_def)
  next
    case (Some m)
    then have "ok_message_v0 m"
      using assms by (auto simp: ok_tx_def ok_active_def)
    with Some show ?thesis
      by (simp add: start message_wire_def Let_def hd SolanaMessageV0_UnmarshalBinary_def
          message_v0.dec_enc received_def)
  qed
qed

lemma SolanaTx_UnmarshalBinary_sound:
  assumes "SolanaTx_UnmarshalBinary old bs = Inr tx" and "MessageV0 old = None"
  shows "ok_tx tx \<and> (\<exists>rest. bs = tx_bytes tx @ rest)"
proof -
  from assms(1) obtain sigs r where sigs: "\<not> 256 < length sigs" "\<forall>s \<in> set sigs. length s = 64"
      "bs = compact_u16 (length sigs) @ concat sigs @ r"
    and r: "(let old = old\<lparr>Signatures := sigs\<rparr> in
       if r \<noteq> [] \<and> hd r AND 0x80 \<noteq> 0 then
         if hd r AND 0x7f \<noteq> 0 then fail ''unsupported transaction version: %d''
         else bindE (SolanaMessageV0_UnmarshalBinary r) (\<lambda>m. Inr (old\<lparr>MessageV0 := Some m\<rparr>))
       else bindE (SolanaMessage_UnmarshalBinary r) (\<lambda>m. Inr (old\<lparr>Message := m\<rparr>))) = Inr tx"
    by (auto simp: SolanaTx_UnmarshalBinary_def bindE_Inr_iff [of "read_count w b" for w b]
        bindE_Inr_iff [of "dec_n d n b" for d n b] read_count_iff fixed.dec_n_iff split: if_splits)
  have fill: "map filled sigs = sigs" "\<forall>s \<in> set sigs. s = [] \<or> length s = 64"
    using sigs(2) by (fastforce simp: filled_def intro!: map_idI)+
  show ?thesis
  proof (cases "r \<noteq> [] \<and> hd r AND 0x80 \<noteq> 0")
    case True
    with r obtain m s where m: "read_message_v0 r = Inr (m, s)"
      and tx: "tx = old\<lparr>Signatures := sigs, MessageV0 := Some m\<rparr>"
      by (auto simp: Let_def bindE_Inr_iff SolanaMessageV0_UnmarshalBinary_def split: if_splits)
    from m have "r = v0_bytes m @ s" "ok_message_v0 m"
      by (simp_all add: read_message_v0_iff)
    with tx sigs fill show ?thesis
      by (simp add: ok_tx_def ok_active_def tx_bytes_def list_bytes_def message_wire_def)
  next
    case False
    with r obtain m s where m: "read_message r = Inr (m, s)"
      and tx: "tx = old\<lparr>Signatures := sigs, Message := m\<rparr>"
      by (auto simp: Let_def bindE_Inr_iff SolanaMessage_UnmarshalBinary_def)
    from m have m: "r = body_bytes m @ s" "ok_message m"
      by (simp_all add: read_message_iff)
    with False have "unat (NumRequiredSignatures (Header m)) < 128"
      by (auto simp: and_high_bit body_bytes_def header_bytes_def)
    with m tx sigs fill assms(2) show ?thesis
      by (simp add: ok_tx_def ok_active_def tx_bytes_def list_bytes_def message_wire_def)
  qed
qed

lemma no_panic_SolanaTx_UnmarshalBinary: "no_panic (SolanaTx_UnmarshalBinary old bs)"
  by (auto simp: SolanaTx_UnmarshalBinary_def SolanaMessage_UnmarshalBinary_def
      SolanaMessageV0_UnmarshalBinary_def Let_def
      intro!: no_panic_bindE no_panic_dec_n no_panics split: prod.splits)

section \<open>Properties\<close>

definition sample_key :: "byte \<Rightarrow> solana_key" where
  "sample_key b = SolanaKey (b # replicate 31 0)"

definition sample_v0 :: solana_message_v0 where
  "sample_v0 =
     \<lparr>Header = \<lparr>NumRequiredSignatures = 1, NumReadonlySignedAccounts = 0,
                NumReadonlyUnsignedAccounts = 1\<rparr>,
      AccountKeys = [sample_key 1, sample_key 2], RecentBlockhash = sample_key 9,
      Instructions = [\<lparr>ProgramIDIndex = 1, AccountIndices = [0, 2], IxData = [5]\<rparr>],
      AddressTableLookups = [\<lparr>LookupKey = sample_key 3, WritableIndexes = [7], ReadonlyIndexes = []\<rparr>]\<rparr>"

definition sample_legacy :: solana_message where
  "sample_legacy =
     \<lparr>Header = \<lparr>NumRequiredSignatures = 1, NumReadonlySignedAccounts = 0,
                NumReadonlyUnsignedAccounts = 1\<rparr>,
      AccountKeys = [sample_key 1, sample_key 2], RecentBlockhash = sample_key 9,
      Instructions = [\<lparr>ProgramIDIndex = 1, AccountIndices = [0], IxData = [5]\<rparr>]\<rparr>"

definition sample_tx_v0 :: solana_tx where
  "sample_tx_v0 = \<lparr>Signatures = [[]], Message = sample_legacy, MessageV0 = Some sample_v0\<rparr>"

definition sample_tx_legacy :: solana_tx where
  "sample_tx_legacy = \<lparr>Signatures = [[]], Message = sample_legacy, MessageV0 = None\<rparr>"

lemma ok_samples: "ok_tx sample_tx_v0" "ok_tx sample_tx_legacy"
  by (simp_all add: sample_tx_v0_def sample_tx_legacy_def sample_v0_def sample_legacy_def sample_key_def
      ok_tx_def ok_active_def ok_message_def ok_message_v0_def ok_body_def ok_key_def ok_ix_def ix_at_def
      ok_header_def ok_lookup_def addressable_def)

text \<open>
  C7: a Solana transaction within the limits of the format, legacy or v0, is marshalled without
  error, and unmarshalling those bytes into any receiver, whatever follows them, restores its
  message and its signatures, with zeros in the slots that were empty.
\<close>

theorem solana_tx_roundtrip:
  assumes "ok_tx tx"
  shows "\<exists>bs. SolanaTx_MarshalBinary tx = Inr bs \<and>
    (\<forall>old rest. SolanaTx_UnmarshalBinary old (bs @ rest) = Inr (received old tx))"
  using SolanaTx_MarshalBinary_bytes [OF assms] SolanaTx_UnmarshalBinary_bytes [OF assms] by blast

theorem solana_tx_roundtrip_witness:
  "\<exists>bs. SolanaTx_MarshalBinary sample_tx_v0 = Inr bs \<and>
    SolanaTx_UnmarshalBinary sample_tx_legacy bs =
      Inr (sample_tx_v0\<lparr>Signatures := [replicate 64 0]\<rparr>)"
proof -
  from solana_tx_roundtrip [OF ok_samples(1)] obtain bs where bs: "SolanaTx_MarshalBinary sample_tx_v0 = Inr bs"
    "\<And>old rest. SolanaTx_UnmarshalBinary old (bs @ rest) = Inr (received old sample_tx_v0)" by blast
  from bs(2) [of sample_tx_legacy "[]"] bs(1) show ?thesis
    by (simp add: received_def sample_tx_v0_def sample_tx_legacy_def filled_def)
qed




text \<open>
  A receiver that once held a v0 message keeps it when legacy bytes are read into it: the
  call succeeds, and the transaction still signs and marshals the old message.
\<close>

theorem solana_stale_v0_message:
  assumes "ok_tx tx" "MessageV0 tx = None" "MessageV0 old = Some m"
  shows "\<exists>bs tx'. SolanaTx_MarshalBinary tx = Inr bs \<and> SolanaTx_UnmarshalBinary old bs = Inr tx' \<and>
    Message tx' = Message tx \<and> messageBytes tx' = SolanaMessageV0_MarshalBinary m"
proof -
  have "messageBytes (received old tx) = SolanaMessageV0_MarshalBinary m"
      "Message (received old tx) = Message tx"
    using assms(2,3) by (simp_all add: received_def messageBytes_def)
  then show ?thesis
    using SolanaTx_MarshalBinary_bytes [OF assms(1)]
      SolanaTx_UnmarshalBinary_bytes [OF assms(1), of old "[]"] by auto
qed

theorem solana_stale_v0_message_witness:
  "\<exists>bs tx'. SolanaTx_MarshalBinary sample_tx_legacy = Inr bs \<and>
    SolanaTx_UnmarshalBinary sample_tx_v0 bs = Inr tx' \<and>
    messageBytes tx' = SolanaMessageV0_MarshalBinary sample_v0"
  using solana_stale_v0_message [OF ok_samples(2), of sample_tx_v0 sample_v0]
  by (auto simp: sample_tx_legacy_def sample_tx_v0_def)

end
