(* ===== verification/SolanaTx.thy ===== *)
theory SolanaTx
  imports SolanaWire "HOL-Library.AList" "HOL-Library.Multiset"
begin

text \<open>
  Building, signing and verifying Solana transactions (\<^verbatim>\<open>solanatx.go\<close>):
  \<open>NewSolanaTx\<close> and \<open>NewSolanaTxV0\<close> merge the accounts of the instructions, order them
  into the four privilege groups and compile every account reference to an index. The Go map
  \<open>seen\<close> is an association list; the order in which Go ranges over it is the parameter
  \<open>iter\<close>, any rearrangement of its values. Ed25519 is a parameter of signing and verifying.
\<close>

record solana_meta =
  Pubkey :: solana_key
  IsSigner :: bool
  IsWritable :: bool

record solana_instruction =
  ProgramID :: solana_key
  Accounts :: "solana_meta list"
  Data :: bytes

record solana_info =
  infoKey :: solana_key
  infoSigner :: bool
  infoWritable :: bool

type_synonym seen_map = "(solana_key \<times> solana_info) list"

section \<open>Compilation\<close>

definition see_account :: "solana_meta \<Rightarrow> seen_map \<Rightarrow> seen_map" where
  "see_account acc seen =
     (case map_of seen (Pubkey acc) of
        Some info \<Rightarrow>
          AList.update (Pubkey acc)
            (info\<lparr>infoSigner := infoSigner info \<or> IsSigner acc,
                  infoWritable := infoWritable info \<or> IsWritable acc\<rparr>) seen
      | None \<Rightarrow>
          AList.update (Pubkey acc)
            \<lparr>infoKey = Pubkey acc, infoSigner = IsSigner acc, infoWritable = IsWritable acc\<rparr> seen)"

definition see_program :: "solana_key \<Rightarrow> seen_map \<Rightarrow> seen_map" where
  "see_program prog seen =
     (case map_of seen prog of
        Some info \<Rightarrow> seen
      | None \<Rightarrow> AList.update prog \<lparr>infoKey = prog, infoSigner = False, infoWritable = False\<rparr> seen)"

definition see_instruction :: "solana_instruction \<Rightarrow> seen_map \<Rightarrow> seen_map" where
  "see_instruction ix seen = see_program (ProgramID ix) (fold see_account (Accounts ix) seen)"

definition seen_accounts :: "solana_key \<Rightarrow> solana_instruction list \<Rightarrow> seen_map" where
  "seen_accounts feePayer ixs =
     fold see_instruction ixs
       [(feePayer, \<lparr>infoKey = feePayer, infoSigner = True, infoWritable = True\<rparr>)]"

text \<open>The accounts other than the fee payer, in the four groups, each sorted by key.\<close>

definition account_group :: "solana_key \<Rightarrow> bool \<Rightarrow> bool \<Rightarrow> solana_info list \<Rightarrow> solana_info list" where
  "account_group feePayer signer writable infos =
     sort_key infoKey
       (filter (\<lambda>i. infoKey i \<noteq> feePayer \<and> infoSigner i = signer \<and> infoWritable i = writable) infos)"

definition index_step :: "nat \<times> solana_info \<Rightarrow> (solana_key \<rightharpoonup> byte) \<Rightarrow> (solana_key \<rightharpoonup> byte)" where
  "index_step p m = m(infoKey (snd p) \<mapsto> word_of_nat (fst p))"

definition index_map :: "solana_info list \<Rightarrow> solana_key \<rightharpoonup> byte" where
  "index_map accs = fold index_step (enumerate 0 accs) Map.empty"

text \<open>\<open>indexMap[k]\<close>: the zero value when the key is missing.\<close>

definition index_of :: "(solana_key \<rightharpoonup> byte) \<Rightarrow> solana_key \<Rightarrow> byte" where
  "index_of m k = (case m k of Some i \<Rightarrow> i | None \<Rightarrow> 0)"

definition compile_ix :: "(solana_key \<rightharpoonup> byte) \<Rightarrow> solana_instruction \<Rightarrow> solana_compiled" where
  "compile_ix m ix =
     \<lparr>ProgramIDIndex = index_of m (ProgramID ix),
      AccountIndices = map (\<lambda>acc. index_of m (Pubkey acc)) (Accounts ix),
      IxData = Data ix\<rparr>"

text \<open>The part that is the same text in both constructors; the count is \<open>numSigners\<close>.\<close>

definition compile_message ::
    "(solana_info list \<Rightarrow> solana_info list) \<Rightarrow> solana_key \<Rightarrow> solana_key \<Rightarrow> solana_instruction list
      \<Rightarrow> (solana_message \<times> nat) result" where
  "compile_message iter feePayer recentBlockhash ixs =
     (let seen = seen_accounts feePayer ixs;
          infos = iter (map snd seen);
          signerWritable = account_group feePayer True True infos;
          signerReadonly = account_group feePayer True False infos;
          nonsignerWritable = account_group feePayer False True infos;
          nonsignerReadonly = account_group feePayer False False infos
      in case map_of seen feePayer of
           None \<Rightarrow> Inl Panic
         | Some feePayerInfo \<Rightarrow>
             let allAccounts =
                   [feePayerInfo] @ signerWritable @ signerReadonly @ nonsignerWritable @ nonsignerReadonly
             in if length allAccounts > 256 then fail ''transaction has %d accounts, maximum is 256''
                else
                  let indexMap = index_map allAccounts;
                      numSigners = 1 + length signerWritable + length signerReadonly
                  in Inr (\<lparr>Header =
                            \<lparr>NumRequiredSignatures = word_of_nat numSigners,
                             NumReadonlySignedAccounts = word_of_nat (length signerReadonly),
                             NumReadonlyUnsignedAccounts = word_of_nat (length nonsignerReadonly)\<rparr>,
                          AccountKeys = map infoKey allAccounts,
                          RecentBlockhash = recentBlockhash,
                          Instructions = map (compile_ix indexMap) ixs\<rparr>,
                         numSigners))"

definition zero_key :: solana_key where
  "zero_key = SolanaKey (replicate 32 0)"

definition zero_message :: solana_message where
  "zero_message =
     \<lparr>Header = \<lparr>NumRequiredSignatures = 0, NumReadonlySignedAccounts = 0, NumReadonlyUnsignedAccounts = 0\<rparr>,
      AccountKeys = [], RecentBlockhash = zero_key, Instructions = []\<rparr>"

definition NewSolanaTx ::
    "(solana_info list \<Rightarrow> solana_info list) \<Rightarrow> solana_key \<Rightarrow> solana_key \<Rightarrow> solana_instruction list
      \<Rightarrow> solana_tx result" where
  "NewSolanaTx iter feePayer recentBlockhash ixs =
     bindE (compile_message iter feePayer recentBlockhash ixs) (\<lambda>(msg, numSigners).
       Inr \<lparr>Signatures = replicate numSigners [], Message = msg, MessageV0 = None\<rparr>)"

definition NewSolanaTxV0 ::
    "(solana_info list \<Rightarrow> solana_info list) \<Rightarrow> solana_key \<Rightarrow> solana_key \<Rightarrow> solana_lookup list
      \<Rightarrow> solana_instruction list \<Rightarrow> solana_tx result" where
  "NewSolanaTxV0 iter feePayer recentBlockhash lookups ixs =
     bindE (compile_message iter feePayer recentBlockhash ixs) (\<lambda>(msg, numSigners).
       Inr \<lparr>Signatures = replicate numSigners [], Message = zero_message,
            MessageV0 = Some (solana_message.extend msg \<lparr>AddressTableLookups = lookups\<rparr>)\<rparr>)"

section \<open>Signing and verifying\<close>

definition messageHeader :: "solana_tx \<Rightarrow> solana_header" where
  "messageHeader tx = (case MessageV0 tx of Some m \<Rightarrow> Header m | None \<Rightarrow> Header (Message tx))"

definition messageAccountKeys :: "solana_tx \<Rightarrow> solana_key list" where
  "messageAccountKeys tx =
     (case MessageV0 tx of Some m \<Rightarrow> AccountKeys m | None \<Rightarrow> AccountKeys (Message tx))"

text \<open>\<open>var k SolanaKey; copy(k[:], b)\<close>\<close>

definition copy_key :: "bytes \<Rightarrow> solana_key" where
  "copy_key b = SolanaKey (take 32 b @ replicate (32 - length b) 0)"

fun find_signer :: "solana_key \<Rightarrow> solana_key list \<Rightarrow> nat option" where
  "find_signer k [] = None"
| "find_signer k (a # as) = (if a = k then Some 0 else map_option Suc (find_signer k as))"

text \<open>The loop over the private keys; the list is \<open>tx.Signatures\<close>, kept up to an error.\<close>

fun sign_keys ::
    "('k \<Rightarrow> bytes) \<Rightarrow> ('k \<Rightarrow> bytes \<Rightarrow> bytes) \<Rightarrow> bytes \<Rightarrow> solana_key list \<Rightarrow> 'k list \<Rightarrow> bytes list
      \<Rightarrow> bytes list \<times> unit result" where
  "sign_keys pub sign msg signers [] sigs = (sigs, Inr ())"
| "sign_keys pub sign msg signers (key # ks) sigs =
     (case find_signer (copy_key (pub key)) signers of
        None \<Rightarrow> (sigs, fail ''key %s is not a required signer'')
      | Some i \<Rightarrow>
          if i < length sigs then sign_keys pub sign msg signers ks (sigs[i := sign key msg])
          else (sigs, Inl Panic))"

definition SolanaTx_Sign ::
    "('k \<Rightarrow> bytes) \<Rightarrow> ('k \<Rightarrow> bytes \<Rightarrow> bytes) \<Rightarrow> solana_tx \<Rightarrow> 'k list \<Rightarrow> solana_tx \<times> unit result" where
  "SolanaTx_Sign pub sign tx keys =
     (case messageBytes tx of
        Inl e \<Rightarrow> (tx, Inl e)
      | Inr msgBytes \<Rightarrow>
          let numSigners = unat (NumRequiredSignatures (messageHeader tx));
              accountKeys = messageAccountKeys tx
          in if numSigners > length accountKeys then
               (tx, fail ''invalid header: %d required signers but only %d account keys'')
             else
               let (sigs, r) = sign_keys pub sign msgBytes (take numSigners accountKeys) keys (Signatures tx)
               in (tx\<lparr>Signatures := sigs\<rparr>, r))"

fun verify_signatures ::
    "(bytes \<Rightarrow> bytes \<Rightarrow> bytes \<Rightarrow> bool) \<Rightarrow> bytes \<Rightarrow> bytes list \<Rightarrow> solana_key list \<Rightarrow> nat \<Rightarrow> nat \<Rightarrow> unit result" where
  "verify_signatures verify msg sigs keys i 0 = Inr ()"
| "verify_signatures verify msg sigs keys i (Suc n) =
     bindE (idx sigs i) (\<lambda>sig.
       if length sig \<noteq> 64 then fail ''signature %d is missing or has invalid length %d''
       else bindE (idx keys i) (\<lambda>k.
         if \<not> verify (key_bytes k) msg sig then fail ''signature %d (signer %s) verification failed''
         else verify_signatures verify msg sigs keys (i + 1) n))"

definition SolanaTx_Verify :: "(bytes \<Rightarrow> bytes \<Rightarrow> bytes \<Rightarrow> bool) \<Rightarrow> solana_tx \<Rightarrow> unit result" where
  "SolanaTx_Verify verify tx =
     (case messageBytes tx of
        Inl Panic \<Rightarrow> Inl Panic
      | Inl (Error _) \<Rightarrow> fail ''failed to serialize message: %w''
      | Inr msgBytes \<Rightarrow>
          let numSigners = unat (NumRequiredSignatures (messageHeader tx));
              accountKeys = messageAccountKeys tx
          in if numSigners > length accountKeys then
               fail ''invalid header: %d required signers but only %d account keys''
             else if length (Signatures tx) < numSigners then fail ''expected %d signatures, got %d''
             else verify_signatures verify msgBytes (Signatures tx) accountKeys 0 numSigners)"

definition SolanaTx_Hash :: "solana_tx \<Rightarrow> bytes result" where
  "SolanaTx_Hash tx =
     (if length (Signatures tx) = 0 then fail ''transaction has no signature''
      else bindE (idx (Signatures tx) 0) (\<lambda>s.
        if length s = 0 then fail ''transaction has no signature'' else Inr s))"

section \<open>What compilation sees\<close>

text \<open>Every mention of an account, the fee payer and the programs included.\<close>

definition mentions :: "solana_key \<Rightarrow> solana_instruction list \<Rightarrow> solana_meta list" where
  "mentions feePayer ixs =
     \<lparr>Pubkey = feePayer, IsSigner = True, IsWritable = True\<rparr> #
     concat (map (\<lambda>ix. Accounts ix @ [\<lparr>Pubkey = ProgramID ix, IsSigner = False, IsWritable = False\<rparr>]) ixs)"

definition mentioned :: "solana_meta list \<Rightarrow> solana_key \<Rightarrow> bool" where
  "mentioned ms k \<longleftrightarrow> (\<exists>m \<in> set ms. Pubkey m = k)"

definition signs :: "solana_meta list \<Rightarrow> solana_key \<Rightarrow> bool" where
  "signs ms k \<longleftrightarrow> (\<exists>m \<in> set ms. Pubkey m = k \<and> IsSigner m)"

definition writes :: "solana_meta list \<Rightarrow> solana_key \<Rightarrow> bool" where
  "writes ms k \<longleftrightarrow> (\<exists>m \<in> set ms. Pubkey m = k \<and> IsWritable m)"

definition info_of :: "solana_meta list \<Rightarrow> solana_key \<Rightarrow> solana_info" where
  "info_of ms k = \<lparr>infoKey = k, infoSigner = signs ms k, infoWritable = writes ms k\<rparr>"

definition seen_inv :: "solana_meta list \<Rightarrow> seen_map \<Rightarrow> bool" where
  "seen_inv ms seen \<longleftrightarrow> distinct (map fst seen) \<and>
     (\<forall>k. map_of seen k = (if mentioned ms k then Some (info_of ms k) else None))"

lemma see_account_inv: "seen_inv ms seen \<Longrightarrow> seen_inv (ms @ [acc]) (see_account acc seen)"
  unfolding seen_inv_def see_account_def
  by (auto simp: distinct_update update_conv' info_of_def mentioned_def signs_def writes_def
      split: option.splits if_splits)

lemma see_program_inv:
  "seen_inv ms seen \<Longrightarrow>
    seen_inv (ms @ [\<lparr>Pubkey = p, IsSigner = False, IsWritable = False\<rparr>]) (see_program p seen)"
  unfolding seen_inv_def see_program_def
  by (auto simp: distinct_update update_conv' info_of_def mentioned_def signs_def writes_def
      split: option.splits if_splits)

lemma see_accounts_inv: "seen_inv ms seen \<Longrightarrow> seen_inv (ms @ accs) (fold see_account accs seen)"
proof (induction accs arbitrary: ms seen)
  case (Cons acc accs)
  from Cons.IH [OF see_account_inv [OF Cons.prems]] show ?case
    by simp
qed simp

lemma see_instructions_inv:
  "seen_inv ms seen \<Longrightarrow>
    seen_inv (ms @ concat (map (\<lambda>ix. Accounts ix @ [\<lparr>Pubkey = ProgramID ix, IsSigner = False, IsWritable = False\<rparr>]) ixs))
      (fold see_instruction ixs seen)"
proof (induction ixs arbitrary: ms seen)
  case (Cons ix ixs)
  from Cons.IH [OF see_program_inv [OF see_accounts_inv [OF Cons.prems, of "Accounts ix"], of "ProgramID ix"]]
  show ?case
    by (simp add: see_instruction_def)
qed simp

lemma seen_accounts_inv: "seen_inv (mentions feePayer ixs) (seen_accounts feePayer ixs)"
proof -
  have "seen_inv [\<lparr>Pubkey = feePayer, IsSigner = True, IsWritable = True\<rparr>]
      [(feePayer, \<lparr>infoKey = feePayer, infoSigner = True, infoWritable = True\<rparr>)]"
    by (auto simp: seen_inv_def mentioned_def info_of_def signs_def writes_def)
  from see_instructions_inv [OF this, of ixs] show ?thesis
    by (simp add: mentions_def seen_accounts_def)
qed

lemma mentioned_fee_payer [simp]: "mentioned (mentions fp ixs) fp" "signs (mentions fp ixs) fp"
    "writes (mentions fp ixs) fp"
  by (simp_all add: mentions_def mentioned_def signs_def writes_def)

lemma mentioned_in:
  "ix \<in> set ixs \<Longrightarrow> acc \<in> set (Accounts ix) \<Longrightarrow> mentioned (mentions fp ixs) (Pubkey acc)"
  "ix \<in> set ixs \<Longrightarrow> mentioned (mentions fp ixs) (ProgramID ix)"
  by (auto simp: mentions_def mentioned_def)

section \<open>What compilation produces\<close>

text \<open>Go's \<open>range\<close> over a map visits every value once, in some order.\<close>

definition ranges_over :: "(solana_info list \<Rightarrow> solana_info list) \<Rightarrow> bool" where
  "ranges_over iter \<longleftrightarrow> (\<forall>xs. mset (iter xs) = mset xs)"

definition group_keys :: "solana_meta list \<Rightarrow> solana_key \<Rightarrow> bool \<Rightarrow> bool \<Rightarrow> solana_key list" where
  "group_keys ms fp s w =
     sorted_list_of_set {k. mentioned ms k \<and> k \<noteq> fp \<and> signs ms k = s \<and> writes ms k = w}"

definition all_keys :: "solana_meta list \<Rightarrow> solana_key \<Rightarrow> solana_key list" where
  "all_keys ms fp = fp # group_keys ms fp True True @ group_keys ms fp True False @
     group_keys ms fp False True @ group_keys ms fp False False"

lemma finite_mentioned: "finite {k. mentioned ms k}"
proof -
  have "{k. mentioned ms k} = Pubkey ` set ms"
    by (auto simp: mentioned_def)
  then show ?thesis by simp
qed

lemma set_group_keys:
  "set (group_keys ms fp s w) = {k. mentioned ms k \<and> k \<noteq> fp \<and> signs ms k = s \<and> writes ms k = w}"
proof -
  have "finite {k. mentioned ms k \<and> k \<noteq> fp \<and> signs ms k = s \<and> writes ms k = w}"
    by (rule finite_subset [OF _ finite_mentioned [of ms]]) auto
  then show ?thesis
    by (simp add: group_keys_def)
qed

lemma info_of_key [simp]: "infoKey (info_of ms k) = k"
  by (simp add: info_of_def)

lemma seen_infos:
  assumes "seen_inv ms seen"
  shows "map infoKey (map snd seen) = map fst seen"
    and "set (map snd seen) = info_of ms ` {k. mentioned ms k}"
proof -
  have *: "i = info_of ms k \<and> mentioned ms k" if "(k, i) \<in> set seen" for k i
  proof -
    have d: "distinct (map fst seen)"
      and m: "map_of seen k = (if mentioned ms k then Some (info_of ms k) else None)"
      using assms by (auto simp: seen_inv_def)
    from map_of_is_SomeI [OF d that] m show ?thesis
      by (auto split: if_splits)
  qed
  show "map infoKey (map snd seen) = map fst seen"
    by (auto dest: *)
  show "set (map snd seen) = info_of ms ` {k. mentioned ms k}"
  proof (intro set_eqI iffI)
    fix i assume "i \<in> info_of ms ` {k. mentioned ms k}"
    then obtain k where "mentioned ms k" "i = info_of ms k"
      by auto
    then have "map_of seen k = Some i"
      using assms by (simp add: seen_inv_def)
    then show "i \<in> set (map snd seen)"
      by (force dest: map_of_SomeD)
  qed (auto dest: *)
qed

lemma account_group_keys:
  assumes "seen_inv ms seen" and "mset infos = mset (map snd seen)"
  shows "account_group fp s w infos = map (info_of ms) (group_keys ms fp s w)"
proof -
  let ?g = "account_group fp s w infos"
  have set_infos: "set infos = info_of ms ` {k. mentioned ms k}"
    using assms(2) seen_infos(2) [OF assms(1)] by (metis set_mset_mset)
  have "distinct (map infoKey infos)"
  proof -
    have "mset (map infoKey infos) = mset (map fst seen)"
      using assms(2) seen_infos(1) [OF assms(1)] by (metis mset_map)
    then show ?thesis
      using assms(1) by (metis mset_eq_imp_distinct_iff seen_inv_def)
  qed
  then have "distinct (map infoKey (filter P infos))" for P
    by (rule distinct_map_filter)
  then have d: "distinct (map infoKey ?g)"
    unfolding account_group_def by (metis (no_types, lifting) mset_eq_imp_distinct_iff mset_map mset_sort)
  have set_g: "set ?g = info_of ms ` {k. mentioned ms k \<and> k \<noteq> fp \<and> signs ms k = s \<and> writes ms k = w}"
    by (auto simp: account_group_def set_infos info_of_def)
  have "map infoKey ?g = group_keys ms fp s w"
    unfolding group_keys_def
  proof (rule sorted_distinct_set_unique)
    show "sorted (map infoKey ?g)"
      by (simp add: account_group_def)
    show "set (map infoKey ?g) = set (sorted_list_of_set
        {k. mentioned ms k \<and> k \<noteq> fp \<and> signs ms k = s \<and> writes ms k = w})"
      using set_group_keys [of ms fp s w] by (simp add: set_g image_image group_keys_def)
  qed (use d in simp_all)
  then have "map (info_of ms) (group_keys ms fp s w) = map (\<lambda>i. info_of ms (infoKey i)) ?g"
    by (simp flip: \<open>map infoKey ?g = group_keys ms fp s w\<close>)
  also have "\<dots> = ?g"
  proof (rule map_idI)
    fix i assume "i \<in> set ?g"
    then show "info_of ms (infoKey i) = i"
      using set_g by auto
  qed
  finally show ?thesis by simp
qed

definition compiled_message ::
    "solana_key \<Rightarrow> solana_key \<Rightarrow> solana_instruction list \<Rightarrow> solana_message" where
  "compiled_message fp bh ixs =
     (let ms = mentions fp ixs; roSigners = length (group_keys ms fp True False) in
      \<lparr>Header =
         \<lparr>NumRequiredSignatures = word_of_nat (1 + length (group_keys ms fp True True) + roSigners),
          NumReadonlySignedAccounts = word_of_nat roSigners,
          NumReadonlyUnsignedAccounts = word_of_nat (length (group_keys ms fp False False))\<rparr>,
       AccountKeys = all_keys ms fp, RecentBlockhash = bh,
       Instructions = map (compile_ix (index_map (map (info_of ms) (all_keys ms fp)))) ixs\<rparr>)"

definition signer_count :: "solana_key \<Rightarrow> solana_instruction list \<Rightarrow> nat" where
  "signer_count fp ixs =
     1 + length (group_keys (mentions fp ixs) fp True True) + length (group_keys (mentions fp ixs) fp True False)"

lemma compile_message_spec:
  assumes "ranges_over iter"
  shows "compile_message iter fp bh ixs =
    (if length (all_keys (mentions fp ixs) fp) > 256 then fail ''transaction has %d accounts, maximum is 256''
     else Inr (compiled_message fp bh ixs, signer_count fp ixs))"
proof -
  let ?ms = "mentions fp ixs" and ?seen = "seen_accounts fp ixs"
  have inv: "seen_inv ?ms ?seen"
    by (rule seen_accounts_inv)
  then have fp: "map_of ?seen fp = Some (info_of ?ms fp)"
    by (simp add: seen_inv_def)
  have groups: "account_group fp s w (iter (map snd ?seen)) = map (info_of ?ms) (group_keys ?ms fp s w)" for s w
    using account_group_keys [OF inv] assms by (simp add: ranges_over_def)
  have all: "[info_of ?ms fp] @ map (info_of ?ms) (group_keys ?ms fp True True) @
      map (info_of ?ms) (group_keys ?ms fp True False) @ map (info_of ?ms) (group_keys ?ms fp False True) @
      map (info_of ?ms) (group_keys ?ms fp False False) = map (info_of ?ms) (all_keys ?ms fp)"
    by (simp add: all_keys_def)
  show ?thesis
    unfolding compile_message_def Let_def fp groups all option.case
    by (simp add: compiled_message_def signer_count_def Let_def comp_def)
qed

lemma distinct_all_keys: "distinct (all_keys ms fp)"
proof -
  have d: "distinct (group_keys ms fp s w)" for s w
    by (simp add: group_keys_def)
  show ?thesis
    by (auto simp: all_keys_def d set_group_keys)
qed

lemma set_all_keys: "mentioned ms fp \<Longrightarrow> set (all_keys ms fp) = {k. mentioned ms k}"
  by (auto simp: all_keys_def set_group_keys)

section \<open>Indexes\<close>

lemma index_map_other:
  "k \<notin> infoKey ` set xs \<Longrightarrow>
    fold index_step (enumerate n xs) m k = m k"
  by (induction xs arbitrary: n m) (auto simp: index_step_def)

lemma index_map_from:
  "distinct (map infoKey xs) \<Longrightarrow> i < length xs \<Longrightarrow>
    fold index_step (enumerate n xs) m (infoKey (xs ! i)) =
      Some (word_of_nat (n + i))"
proof (induction xs arbitrary: n m i)
  case (Cons x xs)
  show ?case
  proof (cases i)
    case 0
    with Cons.prems show ?thesis
      by (simp add: index_map_other) (simp add: index_step_def)
  next
    case (Suc j)
    with Cons.IH [of j "Suc n"] Cons.prems show ?thesis
      by simp
  qed
qed simp

lemma index_map_nth:
  "distinct (map infoKey xs) \<Longrightarrow> i < length xs \<Longrightarrow>
    index_of (index_map xs) (infoKey (xs ! i)) = word_of_nat i"
  using index_map_from [of xs i 0 Map.empty]
  by (simp only: index_map_def index_of_def option.case add_0)

lemma index_resolves:
  assumes "k \<in> set (all_keys ms fp)" and "length (all_keys ms fp) \<le> 256"
  shows "unat (index_of (index_map (map (info_of ms) (all_keys ms fp))) k) < length (all_keys ms fp) \<and>
    all_keys ms fp ! unat (index_of (index_map (map (info_of ms) (all_keys ms fp))) k) = k"
proof -
  let ?ks = "all_keys ms fp"
  obtain i where i: "i < length ?ks" "?ks ! i = k"
    using assms(1) by (auto simp: in_set_conv_nth)
  have "map infoKey (map (info_of ms) ?ks) = ?ks"
    by (simp add: comp_def)
  then have "index_of (index_map (map (info_of ms) ?ks)) k = word_of_nat i"
    using index_map_nth [of "map (info_of ms) ?ks" i] i distinct_all_keys [of ms fp] by simp
  moreover have "unat (word_of_nat i :: byte) = i"
    using i(1) assms(2) by (simp add: unat_of_nat)
  ultimately show ?thesis
    using i by simp
qed

section \<open>Privileges\<close>

lemma nth_prefix_iff:
  "(\<forall>x \<in> set xs. P x) \<Longrightarrow> (\<forall>y \<in> set ys. \<not> P y) \<Longrightarrow> p < length (xs @ ys) \<Longrightarrow>
    p < length xs \<longleftrightarrow> P ((xs @ ys) ! p)"
  by (auto simp: nth_append all_set_conv_all_nth)

lemma nth_four_iff:
  assumes "\<forall>x \<in> set a. P x" "\<forall>x \<in> set b. \<not> P x" "\<forall>x \<in> set c. P x" "\<forall>x \<in> set d. \<not> P x"
    and "p < length (a @ b @ c @ d)"
  shows "P ((a @ b @ c @ d) ! p) \<longleftrightarrow>
    p < length a \<or> length (a @ b) \<le> p \<and> p < length (a @ b @ c)"
  using assms by (auto simp: nth_append all_set_conv_all_nth)

lemma signer_prefix:
  assumes "p < length (all_keys (mentions fp ixs) fp)"
  shows "p < signer_count fp ixs \<longleftrightarrow> signs (mentions fp ixs) (all_keys (mentions fp ixs) fp ! p)"
proof -
  let ?g = "group_keys (mentions fp ixs) fp"
  let ?xs = "fp # ?g True True @ ?g True False" and ?ys = "?g False True @ ?g False False"
  have "p < length ?xs \<longleftrightarrow> signs (mentions fp ixs) ((?xs @ ?ys) ! p)"
    using assms by (intro nth_prefix_iff) (auto simp: set_group_keys all_keys_def)
  then show ?thesis
    by (simp add: signer_count_def all_keys_def)
qed

lemma writable_ranges:
  assumes "p < length (all_keys (mentions fp ixs) fp)"
  shows "writes (mentions fp ixs) (all_keys (mentions fp ixs) fp ! p) \<longleftrightarrow>
    p < signer_count fp ixs - length (group_keys (mentions fp ixs) fp True False) \<or>
    signer_count fp ixs \<le> p \<and>
      p < length (all_keys (mentions fp ixs) fp) - length (group_keys (mentions fp ixs) fp False False)"
proof -
  let ?ms = "mentions fp ixs" and ?g = "group_keys (mentions fp ixs) fp"
  let ?a = "fp # ?g True True" and ?b = "?g True False" and ?c = "?g False True" and ?d = "?g False False"
  have all: "all_keys ?ms fp = ?a @ ?b @ ?c @ ?d"
    by (simp add: all_keys_def)
  have w: "\<forall>k \<in> set ?a. writes ?ms k" "\<forall>k \<in> set ?b. \<not> writes ?ms k"
    "\<forall>k \<in> set ?c. writes ?ms k" "\<forall>k \<in> set ?d. \<not> writes ?ms k"
    by (auto simp: set_group_keys)
  have "writes ?ms ((?a @ ?b @ ?c @ ?d) ! p) \<longleftrightarrow>
      p < length ?a \<or> length (?a @ ?b) \<le> p \<and> p < length (?a @ ?b @ ?c)"
    using assms [unfolded all] by (intro nth_four_iff w) simp
  then show ?thesis
    unfolding all by (simp add: signer_count_def all_keys_def)
qed

lemma compiled_header:
  assumes "length (all_keys (mentions fp ixs) fp) \<le> 256" and "signer_count fp ixs < 256"
  shows "unat (NumRequiredSignatures (Header (compiled_message fp bh ixs))) = signer_count fp ixs"
    and "unat (NumReadonlySignedAccounts (Header (compiled_message fp bh ixs))) =
      length (group_keys (mentions fp ixs) fp True False)"
    and "unat (NumReadonlyUnsignedAccounts (Header (compiled_message fp bh ixs))) =
      length (group_keys (mentions fp ixs) fp False False)"
proof -
  have u: "unat (word_of_nat n :: byte) = n" if "n < 256" for n
    using that by (simp add: unat_of_nat)
  show "unat (NumRequiredSignatures (Header (compiled_message fp bh ixs))) = signer_count fp ixs"
    using u [OF assms(2)] unfolding compiled_message_def signer_count_def Let_def by (simp only: simp_thms
        solana_message.simps solana_header.simps)
  show "unat (NumReadonlySignedAccounts (Header (compiled_message fp bh ixs))) =
      length (group_keys (mentions fp ixs) fp True False)"
    using assms(2) by (simp add: compiled_message_def Let_def signer_count_def u)
  show "unat (NumReadonlyUnsignedAccounts (Header (compiled_message fp bh ixs))) =
      length (group_keys (mentions fp ixs) fp False False)"
    using assms(1) by (simp add: compiled_message_def Let_def all_keys_def u)
qed

lemma NewSolanaTx_spec:
  assumes "ranges_over iter"
  shows "NewSolanaTx iter fp bh ixs =
    (if length (all_keys (mentions fp ixs) fp) > 256 then fail ''transaction has %d accounts, maximum is 256''
     else Inr \<lparr>Signatures = replicate (signer_count fp ixs) [], Message = compiled_message fp bh ixs,
               MessageV0 = None\<rparr>)"
  by (simp add: NewSolanaTx_def compile_message_spec [OF assms])

lemma NewSolanaTxV0_spec:
  assumes "ranges_over iter"
  shows "NewSolanaTxV0 iter fp bh ls ixs =
    (if length (all_keys (mentions fp ixs) fp) > 256 then fail ''transaction has %d accounts, maximum is 256''
     else Inr \<lparr>Signatures = replicate (signer_count fp ixs) [], Message = zero_message,
               MessageV0 = Some (solana_message.extend (compiled_message fp bh ixs) \<lparr>AddressTableLookups = ls\<rparr>)\<rparr>)"
  by (simp add: NewSolanaTxV0_def compile_message_spec [OF assms])

lemma length_all_keys: "length (all_keys (mentions fp ixs) fp) = card {k. mentioned (mentions fp ixs) k}"
  by (metis distinct_all_keys distinct_card mentioned_fee_payer(1) set_all_keys)

lemma compiled_resolves:
  assumes "length (all_keys (mentions fp ixs) fp) \<le> 256" and "mentioned (mentions fp ixs) k"
  shows "unat (index_of (index_map (map (info_of (mentions fp ixs)) (all_keys (mentions fp ixs) fp))) k)
      < length (all_keys (mentions fp ixs) fp)"
    and "all_keys (mentions fp ixs) fp !
      unat (index_of (index_map (map (info_of (mentions fp ixs)) (all_keys (mentions fp ixs) fp))) k) = k"
  using index_resolves [OF _ assms(1), of k] set_all_keys [of "mentions fp ixs" fp] assms(2) by simp_all

text \<open>What an instruction's compiled form means against the message's keys.\<close>

definition resolves :: "solana_key list \<Rightarrow> solana_compiled \<Rightarrow> solana_instruction \<Rightarrow> bool" where
  "resolves ks c ix \<longleftrightarrow> ix_at (length ks) c \<and> ks ! unat (ProgramIDIndex c) = ProgramID ix \<and>
     map (\<lambda>ai. ks ! unat ai) (AccountIndices c) = map Pubkey (Accounts ix) \<and> IxData c = Data ix"

lemma compile_ix_resolves:
  assumes "length (all_keys (mentions fp ixs) fp) \<le> 256" and "ix \<in> set ixs"
  shows "resolves (all_keys (mentions fp ixs) fp)
    (compile_ix (index_map (map (info_of (mentions fp ixs)) (all_keys (mentions fp ixs) fp))) ix) ix"
  using compiled_resolves [OF assms(1)] mentioned_in [OF assms(2)]
  by (auto simp: resolves_def compile_ix_def ix_at_def comp_def)

lemma compiled_message_resolves:
  "length (all_keys (mentions fp ixs) fp) \<le> 256 \<Longrightarrow>
    list_all2 (resolves (AccountKeys (compiled_message fp bh ixs)))
      (Instructions (compiled_message fp bh ixs)) ixs"
  by (simp add: compiled_message_def Let_def list_all2_conv_all_nth compile_ix_resolves)

section \<open>Signing\<close>

text \<open>What signing relies on: Ed25519 verifies its own signatures and fixes their lengths.\<close>

definition ed25519_ok ::
    "('k \<Rightarrow> bytes) \<Rightarrow> ('k \<Rightarrow> bytes \<Rightarrow> bytes) \<Rightarrow> (bytes \<Rightarrow> bytes \<Rightarrow> bytes \<Rightarrow> bool) \<Rightarrow> bool" where
  "ed25519_ok pub sign verify \<longleftrightarrow>
     (\<forall>k m. length (pub k) = 32 \<and> length (sign k m) = 64 \<and> verify (pub k) m (sign k m))"

definition header_fits :: "solana_tx \<Rightarrow> bool" where
  "header_fits tx \<longleftrightarrow>
     unat (NumRequiredSignatures (messageHeader tx)) \<le> length (messageAccountKeys tx) \<and>
     unat (NumRequiredSignatures (messageHeader tx)) \<le> length (Signatures tx)"

definition required_signers :: "solana_tx \<Rightarrow> solana_key list" where
  "required_signers tx = take (unat (NumRequiredSignatures (messageHeader tx))) (messageAccountKeys tx)"

lemma find_signer_Some: "find_signer k ks = Some i \<Longrightarrow> i < length ks \<and> ks ! i = k"
  by (induction ks arbitrary: i) (auto split: if_splits)

lemma find_signer_None_iff: "find_signer k ks = None \<longleftrightarrow> k \<notin> set ks"
  by (induction ks) auto

lemma find_signer_nth: "distinct ks \<Longrightarrow> i < length ks \<Longrightarrow> find_signer (ks ! i) ks = Some i"
  by (induction ks arbitrary: i) (auto simp: nth_Cons split: nat.split)

lemma copy_key_pub: "length b = 32 \<Longrightarrow> key_bytes (copy_key b) = b"
  by (simp add: copy_key_def)

lemma sign_keys_safe:
  assumes "length signers \<le> length sigs" "sign_keys pub sign msg signers keys sigs = (sigs', r)"
  shows "length sigs' = length sigs \<and>
    r = (if \<forall>k \<in> set keys. copy_key (pub k) \<in> set signers then Inr ()
         else fail ''key %s is not a required signer'')"
  using assms
proof (induction keys arbitrary: sigs)
  case (Cons key keys)
  show ?case
  proof (cases "find_signer (copy_key (pub key)) signers")
    case None
    with Cons.prems show ?thesis
      by (simp add: find_signer_None_iff)
  next
    case (Some i)
    then have "i < length sigs" "copy_key (pub key) \<in> set signers"
      using find_signer_Some [OF Some] Cons.prems(1) find_signer_None_iff [of "copy_key (pub key)" signers]
      by auto
    with Some Cons.IH [of "sigs[i := sign key msg]"] Cons.prems show ?thesis
      by simp
  qed
qed simp

text \<open>Slot \<open>i\<close> holds a valid signature once one of the keys is that of signer \<open>i\<close>.\<close>

lemma sign_keys_valid:
  assumes "ed25519_ok pub sign verify" "distinct signers" "length signers \<le> length sigs"
    and "\<forall>k \<in> set keys. copy_key (pub k) \<in> set signers" "i < length signers"
    and "signers ! i \<in> (\<lambda>k. copy_key (pub k)) ` set keys \<or>
      (length (sigs ! i) = 64 \<and> verify (key_bytes (signers ! i)) msg (sigs ! i))"
    and "sign_keys pub sign msg signers keys sigs = (sigs', r)"
  shows "length (sigs' ! i) = 64 \<and> verify (key_bytes (signers ! i)) msg (sigs' ! i)"
  using assms(3-)
proof (induction keys arbitrary: sigs)
  case (Cons key keys)
  from Cons.prems(2) obtain j where j: "find_signer (copy_key (pub key)) signers = Some j"
    using find_signer_None_iff [of "copy_key (pub key)" signers] by auto
  note js = find_signer_Some [OF j]
  have len: "j < length sigs"
    using js Cons.prems(1) by simp
  let ?sigs = "sigs[j := sign key msg]"
  have pub: "length (pub key) = 32" "length (sign key msg) = 64" "verify (pub key) msg (sign key msg)"
    using assms(1) by (simp_all add: ed25519_ok_def)
  have "signers ! i \<in> (\<lambda>k. copy_key (pub k)) ` set keys \<or>
      (length (?sigs ! i) = 64 \<and> verify (key_bytes (signers ! i)) msg (?sigs ! i))"
  proof (cases "i = j")
    case True
    then have "key_bytes (signers ! i) = pub key"
      using js copy_key_pub [OF pub(1)] by simp
    with True pub len show ?thesis
      by simp
  next
    case False
    then have "signers ! i \<noteq> copy_key (pub key)"
      using js Cons.prems(3) assms(2) by (metis nth_eq_iff_index_eq)
    with False Cons.prems(4) show ?thesis
      by auto
  qed
  with Cons.IH [of ?sigs] Cons.prems j len show ?case
    by simp
qed simp

lemma verify_signatures_ok:
  "(\<And>j. i \<le> j \<Longrightarrow> j < i + n \<Longrightarrow> j < length sigs \<and> j < length keys \<and> length (sigs ! j) = 64 \<and>
      verify (key_bytes (keys ! j)) msg (sigs ! j)) \<Longrightarrow>
    verify_signatures verify msg sigs keys i n = Inr ()"
  by (induction n arbitrary: i) simp_all

lemma messageBytes_signatures [simp]:
  "messageBytes (tx\<lparr>Signatures := s\<rparr>) = messageBytes tx"
  "messageHeader (tx\<lparr>Signatures := s\<rparr>) = messageHeader tx"
  "messageAccountKeys (tx\<lparr>Signatures := s\<rparr>) = messageAccountKeys tx"
  by (simp_all add: messageBytes_def messageHeader_def messageAccountKeys_def split: option.split)

section \<open>Properties\<close>

text \<open>
  C13: compilation puts the fee payer first and every account and program of the instructions
  exactly once in the key list, and every compiled instruction means, through its indexes, the
  instruction it came from.
\<close>

theorem NewSolanaTx_resolves:
  assumes "ranges_over iter" and "NewSolanaTx iter fp bh ixs = Inr tx"
  shows "let ks = AccountKeys (Message tx) in
    distinct ks \<and> hd ks = fp \<and> set ks = {k. mentioned (mentions fp ixs) k} \<and> length ks \<le> 256 \<and>
    RecentBlockhash (Message tx) = bh \<and> list_all2 (resolves ks) (Instructions (Message tx)) ixs"
proof -
  from assms(2) have len: "length (all_keys (mentions fp ixs) fp) \<le> 256"
    and tx: "Message tx = compiled_message fp bh ixs"
    by (auto simp: NewSolanaTx_spec [OF assms(1)] split: if_splits)
  have ks: "AccountKeys (compiled_message fp bh ixs) = all_keys (mentions fp ixs) fp"
    "RecentBlockhash (compiled_message fp bh ixs) = bh"
    by (simp_all add: compiled_message_def Let_def)
  show ?thesis
    using compiled_message_resolves [OF len, of bh] len set_all_keys [of "mentions fp ixs" fp]
    by (simp add: tx ks Let_def distinct_all_keys) (simp add: all_keys_def)
qed

definition sample_ixs :: "solana_instruction list" where
  "sample_ixs =
     [\<lparr>ProgramID = sample_key 0,
       Accounts = [\<lparr>Pubkey = sample_key 9, IsSigner = True, IsWritable = True\<rparr>,
                   \<lparr>Pubkey = sample_key 4, IsSigner = False, IsWritable = True\<rparr>,
                   \<lparr>Pubkey = sample_key 5, IsSigner = True, IsWritable = False\<rparr>],
       Data = [2, 0, 0, 0]\<rparr>]"

definition sample_compiled :: solana_tx where
  "sample_compiled =
     \<lparr>Signatures = [[], []],
      Message =
        \<lparr>Header = \<lparr>NumRequiredSignatures = 2, NumReadonlySignedAccounts = 1, NumReadonlyUnsignedAccounts = 1\<rparr>,
         AccountKeys = [sample_key 9, sample_key 5, sample_key 4, sample_key 0],
         RecentBlockhash = sample_key 7,
         Instructions = [\<lparr>ProgramIDIndex = 3, AccountIndices = [0, 2, 1], IxData = [2, 0, 0, 0]\<rparr>]\<rparr>,
      MessageV0 = None\<rparr>"

lemma ranges_over_samples: "ranges_over (\<lambda>xs. xs)" "ranges_over rev"
  by (simp_all add: ranges_over_def)

lemma sample_compiled: "NewSolanaTx rev (sample_key 9) (sample_key 7) sample_ixs = Inr sample_compiled"
  by code_simp

theorem NewSolanaTx_resolves_witness:
  "distinct (AccountKeys (Message sample_compiled)) \<and>
   list_all2 (resolves (AccountKeys (Message sample_compiled))) (Instructions (Message sample_compiled)) sample_ixs"
  using NewSolanaTx_resolves [OF ranges_over_samples(2) sample_compiled] by (simp add: Let_def)



text \<open>
  The result does not depend on the order in which Go ranges over the map of accounts, and
  compilation fails exactly when more than 256 distinct accounts are mentioned, with an error and
  never a panic.
\<close>

theorem NewSolanaTx_deterministic:
  assumes "ranges_over iter" and "ranges_over iter'"
  shows "NewSolanaTx iter fp bh ixs = NewSolanaTx iter' fp bh ixs \<and>
    NewSolanaTxV0 iter fp bh ls ixs = NewSolanaTxV0 iter' fp bh ls ixs \<and>
    (if card {k. mentioned (mentions fp ixs) k} > 256
     then NewSolanaTx iter fp bh ixs = fail ''transaction has %d accounts, maximum is 256''
     else \<exists>tx. NewSolanaTx iter fp bh ixs = Inr tx)"
  by (simp add: NewSolanaTx_spec [OF assms(1)] NewSolanaTx_spec [OF assms(2)]
      NewSolanaTxV0_spec [OF assms(1)] NewSolanaTxV0_spec [OF assms(2)] length_all_keys)

theorem NewSolanaTx_deterministic_witness:
  "NewSolanaTx (\<lambda>xs. xs) (sample_key 9) (sample_key 7) sample_ixs = Inr sample_compiled"
  using NewSolanaTx_deterministic [OF ranges_over_samples] sample_compiled by metis

definition key_sizes :: "solana_key \<Rightarrow> solana_key \<Rightarrow> solana_instruction list \<Rightarrow> bool" where
  "key_sizes fp bh ixs \<longleftrightarrow> ok_key bh \<and> (\<forall>m \<in> set (mentions fp ixs). ok_key (Pubkey m)) \<and>
     length ixs \<le> 0xffff \<and> (\<forall>ix \<in> set ixs. length (Accounts ix) \<le> 0xffff \<and> length (Data ix) \<le> 0xffff)"

lemma compiled_ok_message:
  assumes "key_sizes fp bh ixs" "length (all_keys (mentions fp ixs) fp) \<le> 256" "signer_count fp ixs < 256"
  shows "ok_message (compiled_message fp bh ixs)"
proof -
  let ?m = "compiled_message fp bh ixs" and ?ks = "all_keys (mentions fp ixs) fp"
  have fields: "AccountKeys ?m = ?ks" "RecentBlockhash ?m = bh" "length (Instructions ?m) = length ixs"
    by (simp_all add: compiled_message_def Let_def)
  have keys: "\<forall>k \<in> set ?ks. ok_key k"
    using assms(1) set_all_keys [OF mentioned_fee_payer(1), of fp ixs]
    by (auto simp: key_sizes_def mentioned_def)
  have "ok_header (Header ?m) (length ?ks)"
    by (simp add: ok_header_def compiled_header [OF assms(2,3)] signer_count_def all_keys_def)
  moreover have "\<forall>c \<in> set (Instructions ?m). ok_ix c \<and> ix_at (length ?ks) c"
  proof
    fix c assume "c \<in> set (Instructions ?m)"
    then obtain ix where ix: "ix \<in> set ixs" "c = compile_ix (index_map (map (info_of (mentions fp ixs)) ?ks)) ix"
      by (auto simp: compiled_message_def Let_def)
    with compile_ix_resolves [OF assms(2) ix(1)] assms(1) show "ok_ix c \<and> ix_at (length ?ks) c"
      by (auto simp: resolves_def ok_ix_def compile_ix_def key_sizes_def)
  qed
  ultimately show ?thesis
    using assms keys by (simp add: ok_message_def ok_body_def fields key_sizes_def)
qed

text \<open>
  A transaction compiled from 32-byte keys, fewer than 128 signers and instructions whose
  account lists and data fit 16 bits survives the wire: it marshals, and a fresh receiver reads
  back the compiled message.
\<close>

theorem NewSolanaTx_survives_wire:
  assumes "ranges_over iter" and "NewSolanaTx iter fp bh ixs = Inr tx"
    and "key_sizes fp bh ixs" and "length (Signatures tx) < 128" and "MessageV0 old = None"
  shows "\<exists>bs tx'. SolanaTx_MarshalBinary tx = Inr bs \<and> SolanaTx_UnmarshalBinary old bs = Inr tx' \<and>
    Message tx' = Message tx \<and> MessageV0 tx' = None \<and> Signatures tx' = map (\<lambda>_. replicate 64 0) (Signatures tx)"
proof -
  from assms(2) have len: "length (all_keys (mentions fp ixs) fp) \<le> 256"
    and tx: "tx = \<lparr>Signatures = replicate (signer_count fp ixs) [], Message = compiled_message fp bh ixs,
      MessageV0 = None\<rparr>"
    by (auto simp: NewSolanaTx_spec [OF assms(1)] split: if_splits)
  have "ok_tx tx"
    using compiled_ok_message [OF assms(3) len] assms(4) compiled_header(1) [OF len, of bh]
    by (simp add: ok_tx_def ok_active_def tx)
  from SolanaTx_MarshalBinary_bytes [OF this] SolanaTx_UnmarshalBinary_bytes [OF this, of old "[]"]
  show ?thesis
    using assms(5) by (auto simp: received_def tx filled_def)
qed

theorem NewSolanaTx_survives_wire_witness:
  "\<exists>bs tx'. SolanaTx_MarshalBinary sample_compiled = Inr bs \<and>
    SolanaTx_UnmarshalBinary sample_tx_legacy bs = Inr tx' \<and> Message tx' = Message sample_compiled"
proof -
  have "key_sizes (sample_key 9) (sample_key 7) sample_ixs"
    by (simp add: key_sizes_def sample_ixs_def sample_key_def ok_key_def mentions_def)
  moreover have "length (Signatures sample_compiled) < 128" "MessageV0 sample_tx_legacy = None"
    by (simp_all add: sample_compiled_def sample_tx_legacy_def)
  ultimately show ?thesis
    using NewSolanaTx_survives_wire [OF ranges_over_samples(2) sample_compiled] by blast
qed

text \<open>
  When the header fits the account keys and there is a slot for every required signer,
  signing with a key for each of them (and no others) succeeds, and the signed transaction
  verifies, whatever the order of the keys.
\<close>

theorem solana_sign_verify:
  assumes "ed25519_ok pub sign verify" and "header_fits tx" and "distinct (messageAccountKeys tx)"
    and "(\<lambda>k. copy_key (pub k)) ` set keys = set (required_signers tx)"
    and "messageBytes tx = Inr msg"
  shows "\<exists>tx'. SolanaTx_Sign pub sign tx keys = (tx', Inr ()) \<and> SolanaTx_Verify verify tx' = Inr ()"
proof -
  let ?n = "unat (NumRequiredSignatures (messageHeader tx))"
  let ?ks = "required_signers tx"
  obtain sigs r where s: "sign_keys pub sign msg ?ks keys (Signatures tx) = (sigs, r)"
    by (cases "sign_keys pub sign msg ?ks keys (Signatures tx)")
  have n: "?n \<le> length (messageAccountKeys tx)" "?n \<le> length (Signatures tx)" "length ?ks = ?n"
    "distinct ?ks"
    using assms(2,3) by (auto simp: header_fits_def required_signers_def)
  have keys: "\<forall>k \<in> set keys. copy_key (pub k) \<in> set ?ks"
    using assms(4) by auto
  have safe: "length sigs = length (Signatures tx)" "r = Inr ()"
    using sign_keys_safe [OF _ s] n keys by simp_all
  have ok: "length (sigs ! i) = 64 \<and> verify (key_bytes (messageAccountKeys tx ! i)) msg (sigs ! i)"
    if "i < ?n" for i
  proof -
    have "?ks ! i \<in> (\<lambda>k. copy_key (pub k)) ` set keys"
      using assms(4) that n by simp
    with sign_keys_valid [OF assms(1) n(4) _ keys _ _ s, of i] n that show ?thesis
      by (simp add: required_signers_def)
  qed
  have "verify_signatures verify msg sigs (messageAccountKeys tx) 0 ?n = Inr ()"
    using n ok safe by (intro verify_signatures_ok) auto
  then show ?thesis
    using s safe n assms(5) by (simp add: SolanaTx_Sign_def SolanaTx_Verify_def required_signers_def)
qed

text \<open>A stand-in for Ed25519, to show that the hypotheses can hold together.\<close>

definition toy_sign :: "byte \<Rightarrow> bytes \<Rightarrow> bytes" where
  "toy_sign k m = k # replicate 63 0"

definition toy_verify :: "bytes \<Rightarrow> bytes \<Rightarrow> bytes \<Rightarrow> bool" where
  "toy_verify p m s \<longleftrightarrow> s = hd p # replicate 63 0"

theorem solana_sign_verify_witness:
  "\<exists>tx'. SolanaTx_Sign (\<lambda>k. key_bytes (sample_key k)) toy_sign sample_compiled [5, 9] = (tx', Inr ()) \<and>
    SolanaTx_Verify toy_verify tx' = Inr ()"
proof -
  have "ed25519_ok (\<lambda>k. key_bytes (sample_key k)) toy_sign toy_verify"
    by (simp add: ed25519_ok_def sample_key_def toy_sign_def toy_verify_def)
  moreover have "header_fits sample_compiled" "distinct (messageAccountKeys sample_compiled)"
    by (simp_all add: header_fits_def sample_compiled_def messageHeader_def messageAccountKeys_def sample_key_def)
  moreover have "(\<lambda>k. copy_key (key_bytes (sample_key k))) ` set [5, 9] = set (required_signers sample_compiled)"
    by code_simp
  moreover have "\<exists>msg. messageBytes sample_compiled = Inr msg"
    by (simp add: sample_compiled_def messageBytes_def SolanaMessage_MarshalBinary_def marshal_body_def
        marshal_ix_def)
  ultimately show ?thesis
    using solana_sign_verify by blast
qed

section \<open>Where the limits bite\<close>

lemma signer_count_card: "signer_count fp ixs = card {k. signs (mentions fp ixs) k}"
proof -
  let ?ms = "mentions fp ixs" and ?g = "group_keys (mentions fp ixs) fp"
  let ?xs = "fp # ?g True True @ ?g True False"
  have "distinct ?xs"
    using distinct_all_keys [of ?ms fp] by (auto simp: all_keys_def)
  moreover have "set ?xs = {k. signs ?ms k}"
    by (auto simp: set_group_keys) (auto simp: signs_def mentioned_def)
  ultimately have "length ?xs = card {k. signs ?ms k}"
    by (metis distinct_card)
  then show ?thesis
    by (simp add: signer_count_def)
qed

lemma compiled_marshals:
  assumes "key_sizes fp bh ixs" "length (all_keys (mentions fp ixs) fp) \<le> 256"
  shows "\<exists>bs. SolanaMessage_MarshalBinary (compiled_message fp bh ixs) = Inr bs"
proof -
  have "\<forall>c \<in> set (Instructions (compiled_message fp bh ixs)). ok_ix c"
    using assms(1) by (auto simp: compiled_message_def Let_def ok_ix_def compile_ix_def key_sizes_def)
  then have "mapE marshal_ix (Instructions (compiled_message fp bh ixs)) =
      Inr (map ix_bytes (Instructions (compiled_message fp bh ixs)))"
    by (intro mapE_all_Inr) (simp add: marshal_ix_bytes)
  moreover have "AccountKeys (compiled_message fp bh ixs) = all_keys (mentions fp ixs) fp"
    "length (Instructions (compiled_message fp bh ixs)) = length ixs"
    by (simp_all add: compiled_message_def Let_def)
  ultimately show ?thesis
    using assms by (simp add: SolanaMessage_MarshalBinary_def marshal_body_def key_sizes_def)
qed

text \<open>
  With exactly 256 signers, which compilation accepts, the signature count in the 8-bit header
  field wraps to zero, and \<open>Verify\<close> accepts the transaction with every signature missing.
\<close>

theorem NewSolanaTx_256_signers:
  assumes "ranges_over iter" and "NewSolanaTx iter fp bh ixs = Inr tx"
    and "key_sizes fp bh ixs" and "card {k. signs (mentions fp ixs) k} = 256"
  shows "NumRequiredSignatures (Header (Message tx)) = 0 \<and>
    Signatures tx = replicate 256 [] \<and> SolanaTx_Verify verify tx = Inr ()"
proof -
  from assms(2) have len: "length (all_keys (mentions fp ixs) fp) \<le> 256"
    and tx: "tx = \<lparr>Signatures = replicate (signer_count fp ixs) [], Message = compiled_message fp bh ixs,
      MessageV0 = None\<rparr>"
    by (auto simp: NewSolanaTx_spec [OF assms(1)] split: if_splits)
  have count: "signer_count fp ixs = 256"
    using assms(4) by (simp add: signer_count_card)
  have "NumRequiredSignatures (Header (compiled_message fp bh ixs)) = word_of_nat (signer_count fp ixs)"
    unfolding compiled_message_def signer_count_def Let_def by (simp only: solana_message.simps solana_header.simps)
  then have zero: "NumRequiredSignatures (Header (compiled_message fp bh ixs)) = 0"
    by (simp add: count)
  obtain bs where "SolanaMessage_MarshalBinary (compiled_message fp bh ixs) = Inr bs"
    using compiled_marshals [OF assms(3) len] by blast
  with zero count show ?thesis
    by (simp add: tx SolanaTx_Verify_def messageBytes_def messageHeader_def)
qed

definition crowd :: "solana_instruction list" where
  "crowd = [\<lparr>ProgramID = sample_key 0,
     Accounts = map (\<lambda>n. \<lparr>Pubkey = sample_key (word_of_nat n), IsSigner = True, IsWritable = False\<rparr>) [0..<256],
     Data = []\<rparr>]"

lemma crowd_mentions:
  "{k. mentioned (mentions (sample_key 0) crowd) k} = range sample_key"
  "{k. signs (mentions (sample_key 0) crowd) k} = range sample_key"
proof -
  have bytes: "\<exists>n \<in> {0..<256}. sample_key (word_of_nat n) = sample_key b" for b
    by (intro bexI [of _ "unat b"]) simp_all
  show "{k. mentioned (mentions (sample_key 0) crowd) k} = range sample_key"
    "{k. signs (mentions (sample_key 0) crowd) k} = range sample_key"
    using bytes by (auto simp: mentioned_def signs_def mentions_def crowd_def)
qed

theorem NewSolanaTx_256_signers_witness:
  "\<exists>tx. NewSolanaTx rev (sample_key 0) (sample_key 7) crowd = Inr tx \<and>
    NumRequiredSignatures (Header (Message tx)) = 0 \<and> SolanaTx_Verify toy_verify tx = Inr ()"
proof -
  have "inj sample_key"
    by (auto simp: inj_def sample_key_def)
  then have card: "card (range sample_key) = 256"
    by (simp add: card_image card_word)
  then obtain tx where tx: "NewSolanaTx rev (sample_key 0) (sample_key 7) crowd = Inr tx"
    by (auto simp: NewSolanaTx_spec [OF ranges_over_samples(2)] length_all_keys crowd_mentions)
  have "key_sizes (sample_key 0) (sample_key 7) crowd"
    by (auto simp: key_sizes_def crowd_def sample_key_def ok_key_def mentions_def)
  from NewSolanaTx_256_signers [OF ranges_over_samples(2) tx this] card tx show ?thesis
    by (simp add: crowd_mentions)
qed

text \<open>
  C0: \<open>Sign\<close> never panics on a transaction whose header fits its keys and its signature
  slots; but \<open>UnmarshalBinary\<close> accepts a message with more required signers than slots, and
  signing what it returned for the first signer is then a run-time panic.
\<close>

theorem solana_sign_panic:
  assumes "messageBytes tx = Inr msg"
  shows "(header_fits tx \<longrightarrow> snd (SolanaTx_Sign pub sign tx keys) \<noteq> Inl Panic) \<and>
    (ok_tx tx \<and> Signatures tx = [] \<and> required_signers tx = copy_key (pub k) # others \<longrightarrow>
      (\<exists>bs tx'. SolanaTx_MarshalBinary tx = Inr bs \<and> SolanaTx_UnmarshalBinary tx bs = Inr tx' \<and>
        snd (SolanaTx_Sign pub sign tx' [k]) = Inl Panic))"
proof (intro conjI impI)
  assume fits: "header_fits tx"
  obtain sigs r where s: "sign_keys pub sign msg (required_signers tx) keys (Signatures tx) = (sigs, r)"
    by (cases "sign_keys pub sign msg (required_signers tx) keys (Signatures tx)")
  have "length (required_signers tx) \<le> length (Signatures tx)"
    using fits by (simp add: header_fits_def required_signers_def)
  from sign_keys_safe [OF this s] show "snd (SolanaTx_Sign pub sign tx keys) \<noteq> Inl Panic"
    using assms s by (auto simp: SolanaTx_Sign_def required_signers_def Let_def)
next
  assume *: "ok_tx tx \<and> Signatures tx = [] \<and> required_signers tx = copy_key (pub k) # others"
  then have same: "received tx tx = tx"
    by (cases tx) (auto simp: received_def split: option.splits)
  from * have "unat (NumRequiredSignatures (messageHeader tx)) \<le> length (messageAccountKeys tx)"
    by (auto simp: ok_tx_def ok_active_def ok_message_def ok_message_v0_def ok_body_def ok_header_def
        messageHeader_def messageAccountKeys_def split: option.splits)
  with * assms have "snd (SolanaTx_Sign pub sign tx [k]) = Inl Panic"
    by (simp add: SolanaTx_Sign_def required_signers_def)
  then show "\<exists>bs tx'. SolanaTx_MarshalBinary tx = Inr bs \<and> SolanaTx_UnmarshalBinary tx bs = Inr tx' \<and>
      snd (SolanaTx_Sign pub sign tx' [k]) = Inl Panic"
    using * SolanaTx_MarshalBinary_bytes SolanaTx_UnmarshalBinary_bytes [of tx tx "[]"] same by auto
qed

theorem solana_sign_panic_witness:
  "\<exists>bs tx'. SolanaTx_MarshalBinary (sample_compiled\<lparr>Signatures := []\<rparr>) = Inr bs \<and>
    SolanaTx_UnmarshalBinary (sample_compiled\<lparr>Signatures := []\<rparr>) bs = Inr tx' \<and>
    snd (SolanaTx_Sign (\<lambda>k. key_bytes (sample_key k)) toy_sign tx' [9]) = Inl Panic"
proof -
  let ?tx = "sample_compiled\<lparr>Signatures := []\<rparr>"
  have "\<exists>msg. messageBytes ?tx = Inr msg"
    by (simp add: sample_compiled_def messageBytes_def SolanaMessage_MarshalBinary_def marshal_body_def
        marshal_ix_def)
  moreover have "ok_tx ?tx"
    by (simp add: sample_compiled_def ok_tx_def ok_active_def ok_message_def ok_body_def ok_key_def
        sample_key_def ok_ix_def ix_at_def ok_header_def)
  moreover have "required_signers ?tx = copy_key (key_bytes (sample_key 9)) # [sample_key 5]"
    by code_simp
  ultimately show ?thesis
    using solana_sign_panic [of ?tx _ "\<lambda>k. key_bytes (sample_key k)" toy_sign "[9]" "9"] by auto
qed

end
