(* ===== verification/SolanaProgram.thy ===== *)
theory SolanaProgram
  imports SolanaTx
begin

text \<open>
  Solana keys as text, the instruction constructors and program-derived addresses
  (\<^verbatim>\<open>solanatx.go\<close>, \<^verbatim>\<open>solana_instructions.go\<close>, \<^verbatim>\<open>solana_pda.go\<close>). The
  base-58 codec, SHA-256 and the Ed25519 point decoder are parameters; the package variables that
  hold the well-known programs are a record built by the package initialisation.
\<close>

section \<open>Keys as text\<close>

definition ParseSolanaKey :: "(string \<Rightarrow> bytes result) \<Rightarrow> string \<Rightarrow> solana_key result" where
  "ParseSolanaKey b58 s =
     (case b58 s of
        Inl Panic \<Rightarrow> Inl Panic
      | Inl (Error _) \<Rightarrow> fail ''failed to decode solana key: %w''
      | Inr buf \<Rightarrow>
          if length buf \<noteq> 32 then fail ''invalid solana key: expected 32 bytes, got %d''
          else Inr (copy_key buf))"

definition mustParseSolanaKey :: "(string \<Rightarrow> bytes result) \<Rightarrow> string \<Rightarrow> solana_key result" where
  "mustParseSolanaKey b58 s = (case ParseSolanaKey b58 s of Inl _ \<Rightarrow> Inl Panic | Inr k \<Rightarrow> Inr k)"

definition SolanaKey_String :: "(bytes \<Rightarrow> string) \<Rightarrow> solana_key \<Rightarrow> string" where
  "SolanaKey_String enc58 k = enc58 (key_bytes k)"

record solana_programs =
  SystemProgram :: solana_key
  ComputeBudgetProgram :: solana_key
  TokenProgram :: solana_key
  ATAProgram :: solana_key
  RecentBlockhashesSysvar :: solana_key

text \<open>The initialisers of the package variables, in the order of the files.\<close>

definition init_programs :: "(string \<Rightarrow> bytes result) \<Rightarrow> solana_programs result" where
  "init_programs b58 =
     bindE (mustParseSolanaKey b58 ''ComputeBudget111111111111111111111111111111'') (\<lambda>cb.
     bindE (mustParseSolanaKey b58 ''TokenkegQfeZyiNwAJbNbGKPFXCWuBvf9Ss623VQ5DA'') (\<lambda>tok.
     bindE (mustParseSolanaKey b58 ''ATokenGPvbdGVxr1b2hvZbsiqW5xWH25efTNsLJA8knL'') (\<lambda>ata.
     bindE (mustParseSolanaKey b58 ''SysvarRecentB1ockHashes11111111111111111111'') (\<lambda>rb.
     bindE (mustParseSolanaKey b58 ''11111111111111111111111111111111'') (\<lambda>sys.
     Inr \<lparr>SystemProgram = sys, ComputeBudgetProgram = cb, TokenProgram = tok, ATAProgram = ata,
          RecentBlockhashesSysvar = rb\<rparr>)))))"

section \<open>Instructions\<close>

abbreviation meta :: "solana_key \<Rightarrow> bool \<Rightarrow> bool \<Rightarrow> solana_meta" where
  "meta k signer writable \<equiv> \<lparr>Pubkey = k, IsSigner = signer, IsWritable = writable\<rparr>"

definition SolanaTransferInstruction ::
    "solana_programs \<Rightarrow> solana_key \<Rightarrow> solana_key \<Rightarrow> 64 word \<Rightarrow> solana_instruction" where
  "SolanaTransferInstruction prog from to lamports =
     \<lparr>ProgramID = SystemProgram prog,
      Accounts = [meta from True True, meta to False True],
      Data = put_u32 2 @ put_u64 lamports\<rparr>"

definition SolanaSetComputeUnitLimit :: "solana_programs \<Rightarrow> 32 word \<Rightarrow> solana_instruction" where
  "SolanaSetComputeUnitLimit prog units =
     \<lparr>ProgramID = ComputeBudgetProgram prog, Accounts = [], Data = 2 # put_u32 units\<rparr>"

definition SolanaSetComputeUnitPrice :: "solana_programs \<Rightarrow> 64 word \<Rightarrow> solana_instruction" where
  "SolanaSetComputeUnitPrice prog microLamports =
     \<lparr>ProgramID = ComputeBudgetProgram prog, Accounts = [], Data = 3 # put_u64 microLamports\<rparr>"

definition SolanaSPLTransferInstruction ::
    "solana_programs \<Rightarrow> solana_key \<Rightarrow> solana_key \<Rightarrow> solana_key \<Rightarrow> 64 word \<Rightarrow> solana_instruction" where
  "SolanaSPLTransferInstruction prog source destination owner amount =
     \<lparr>ProgramID = TokenProgram prog,
      Accounts = [meta source False True, meta destination False True, meta owner True False],
      Data = 3 # put_u64 amount\<rparr>"

definition SolanaAdvanceNonceInstruction ::
    "solana_programs \<Rightarrow> solana_key \<Rightarrow> solana_key \<Rightarrow> solana_instruction" where
  "SolanaAdvanceNonceInstruction prog nonceAccount nonceAuthority =
     \<lparr>ProgramID = SystemProgram prog,
      Accounts = [meta nonceAccount False True, meta (RecentBlockhashesSysvar prog) False False,
                  meta nonceAuthority True False],
      Data = put_u32 4\<rparr>"

section \<open>Program-derived addresses\<close>

text \<open>\<open>sha256\<close> hashes what was written to it; \<open>on_curve\<close> is \<open>FromBytes\<close> of the point.\<close>

fun write_seeds :: "bytes list \<Rightarrow> bytes result" where
  "write_seeds [] = Inr []"
| "write_seeds (seed # seeds) =
     (if length seed > 32 then fail ''seed too long: maximum 32 bytes''
      else bindE (write_seeds seeds) (\<lambda>h. Inr (seed @ h)))"

definition pda_marker :: bytes where
  "pda_marker = str_bytes ''ProgramDerivedAddress''"

definition SolanaCreateProgramAddress ::
    "(bytes \<Rightarrow> bytes) \<Rightarrow> (bytes \<Rightarrow> bool) \<Rightarrow> bytes list \<Rightarrow> solana_key \<Rightarrow> solana_key result" where
  "SolanaCreateProgramAddress sha256 on_curve seeds programID =
     (if length seeds > 16 then fail ''too many seeds: maximum 16''
      else bindE (write_seeds seeds) (\<lambda>h.
        let hash = sha256 (h @ key_bytes programID @ pda_marker);
            buf = copy_key hash
        in if on_curve (key_bytes buf) then fail ''derived address is on the Ed25519 curve''
           else Inr (copy_key hash)))"

text \<open>The loop from bump 255 down to 0; \<open>n + 1\<close> bumps are left to try, the next is \<open>n\<close>.\<close>

fun find_bump ::
    "(bytes \<Rightarrow> bytes) \<Rightarrow> (bytes \<Rightarrow> bool) \<Rightarrow> bytes list \<Rightarrow> solana_key \<Rightarrow> nat \<Rightarrow> (solana_key \<times> byte) result" where
  "find_bump sha256 on_curve seeds programID n =
     (let bump = word_of_nat n :: byte in
      case SolanaCreateProgramAddress sha256 on_curve (seeds @ [[bump]]) programID of
        Inr addr \<Rightarrow> Inr (addr, bump)
      | Inl e \<Rightarrow>
          (case n of 0 \<Rightarrow> fail ''could not find valid program address''
           | Suc m \<Rightarrow> find_bump sha256 on_curve seeds programID m))"

declare find_bump.simps [simp del]

definition SolanaFindProgramAddress ::
    "(bytes \<Rightarrow> bytes) \<Rightarrow> (bytes \<Rightarrow> bool) \<Rightarrow> bytes list \<Rightarrow> solana_key \<Rightarrow> (solana_key \<times> byte) result" where
  "SolanaFindProgramAddress sha256 on_curve seeds programID = find_bump sha256 on_curve seeds programID 255"

definition SolanaGetAssociatedTokenAddress ::
    "(bytes \<Rightarrow> bytes) \<Rightarrow> (bytes \<Rightarrow> bool) \<Rightarrow> solana_programs \<Rightarrow> solana_key \<Rightarrow> solana_key \<Rightarrow> solana_key result" where
  "SolanaGetAssociatedTokenAddress sha256 on_curve prog wallet mint =
     bindE (SolanaFindProgramAddress sha256 on_curve
              [key_bytes wallet, key_bytes (TokenProgram prog), key_bytes mint] (ATAProgram prog))
       (\<lambda>(addr, bump). Inr addr)"

definition SolanaCreateATAInstruction ::
    "(bytes \<Rightarrow> bytes) \<Rightarrow> (bytes \<Rightarrow> bool) \<Rightarrow> solana_programs \<Rightarrow> solana_key \<Rightarrow> solana_key \<Rightarrow> solana_key
      \<Rightarrow> solana_instruction result" where
  "SolanaCreateATAInstruction sha256 on_curve prog payer wallet mint =
     (case SolanaGetAssociatedTokenAddress sha256 on_curve prog wallet mint of
        Inl Panic \<Rightarrow> Inl Panic
      | Inl (Error _) \<Rightarrow> fail ''failed to derive ATA: %w''
      | Inr ata \<Rightarrow>
          Inr \<lparr>ProgramID = ATAProgram prog,
               Accounts = [meta payer True True, meta ata False True, meta wallet False False,
                           meta mint False False, meta (SystemProgram prog) False False,
                           meta (TokenProgram prog) False False],
               Data = []\<rparr>)"

section \<open>The bump search\<close>

definition create_at :: "(bytes \<Rightarrow> bytes) \<Rightarrow> (bytes \<Rightarrow> bool) \<Rightarrow> bytes list \<Rightarrow> solana_key \<Rightarrow> nat \<Rightarrow> solana_key result" where
  "create_at sha256 on_curve seeds programID n =
     SolanaCreateProgramAddress sha256 on_curve (seeds @ [[word_of_nat n]]) programID"

lemma find_bump_found:
  "find_bump sha256 on_curve seeds p n = Inr (addr, bump) \<Longrightarrow>
    \<exists>b \<le> n. bump = word_of_nat b \<and> create_at sha256 on_curve seeds p b = Inr addr \<and>
      (\<forall>c. b < c \<and> c \<le> n \<longrightarrow> (\<exists>e. create_at sha256 on_curve seeds p c = Inl e))"
proof (induction n)
  case 0
  then show ?case
    by (subst (asm) find_bump.simps) (auto simp: create_at_def split: sum.splits)
next
  case (Suc n)
  show ?case
  proof (cases "create_at sha256 on_curve seeds p (Suc n)")
    case (Inl e)
    then have "find_bump sha256 on_curve seeds p n = Inr (addr, bump)"
      using Suc.prems find_bump.simps [of sha256 on_curve seeds p "Suc n"] by (simp add: create_at_def)
    from Suc.IH [OF this] Inl show ?thesis
      by (metis le_SucE le_SucI)
  next
    case (Inr a)
    then show ?thesis
      using Suc.prems find_bump.simps [of sha256 on_curve seeds p "Suc n"]
      by (intro exI [of _ "Suc n"]) (auto simp: create_at_def)
  qed
qed

lemma find_bump_failed:
  "find_bump sha256 on_curve seeds p n = Inl e \<longleftrightarrow>
    e = Error (Errorf ''could not find valid program address'') \<and>
    (\<forall>c \<le> n. \<exists>e. create_at sha256 on_curve seeds p c = Inl e)"
proof (induction n)
  case 0
  show ?case
    by (subst find_bump.simps) (auto simp: create_at_def split: sum.splits)
next
  case (Suc n)
  show ?case
    using Suc find_bump.simps [of sha256 on_curve seeds p "Suc n"]
    by (cases "create_at sha256 on_curve seeds p (Suc n)") (auto simp: create_at_def le_Suc_eq)
qed

section \<open>Properties\<close>

text \<open>
  The search ends with the address of the highest bump whose derived address is off the curve,
  all higher bumps having been refused, and it gives an error (never a panic) exactly when no bump
  between 0 and 255 gives an address.
\<close>

theorem pda_highest_bump:
  "case SolanaFindProgramAddress sha256 on_curve seeds programID of
     Inr (addr, bump) \<Rightarrow>
       SolanaCreateProgramAddress sha256 on_curve (seeds @ [[bump]]) programID = Inr addr \<and>
       \<not> on_curve (key_bytes addr) \<and>
       (\<forall>c > bump. \<exists>e. SolanaCreateProgramAddress sha256 on_curve (seeds @ [[c]]) programID = Inl e)
   | Inl e \<Rightarrow>
       e = Error (Errorf ''could not find valid program address'') \<and>
       (\<forall>c :: byte. \<exists>e. SolanaCreateProgramAddress sha256 on_curve (seeds @ [[c]]) programID = Inl e)"
proof (cases "SolanaFindProgramAddress sha256 on_curve seeds programID")
  case (Inl e)
  then have "e = Error (Errorf ''could not find valid program address'')"
    and all: "\<And>c. c \<le> 255 \<Longrightarrow> \<exists>e. create_at sha256 on_curve seeds programID c = Inl e"
    by (auto simp: SolanaFindProgramAddress_def find_bump_failed)
  moreover have "\<exists>e. SolanaCreateProgramAddress sha256 on_curve (seeds @ [[c]]) programID = Inl e" for c :: byte
    using all [of "unat c"] by (simp add: create_at_def)
  ultimately show ?thesis
    using Inl by simp
next
  case (Inr r)
  obtain addr bump where r: "r = (addr, bump)" by (cases r)
  from Inr r obtain b where b: "b \<le> 255" "bump = word_of_nat b"
    and at: "create_at sha256 on_curve seeds programID b = Inr addr"
    and above: "\<And>c. b < c \<Longrightarrow> c \<le> 255 \<Longrightarrow> \<exists>e. create_at sha256 on_curve seeds programID c = Inl e"
    using find_bump_found [of sha256 on_curve seeds programID 255 addr bump]
    by (auto simp: SolanaFindProgramAddress_def)
  have u: "unat bump = b"
    using b by (simp add: unat_of_nat)
  have "\<exists>e. SolanaCreateProgramAddress sha256 on_curve (seeds @ [[c]]) programID = Inl e" if "c > bump" for c
    using above [of "unat c"] that u by (simp add: word_less_nat_alt create_at_def)
  moreover have "\<not> on_curve (key_bytes addr)"
    using at by (auto simp: create_at_def SolanaCreateProgramAddress_def bindE_Inr_iff Let_def split: if_splits)
  ultimately show ?thesis
    using at b(2) Inr r by (simp add: create_at_def)
qed

theorem pda_highest_bump_witness:
  "SolanaFindProgramAddress (\<lambda>b. replicate 32 (last (butlast (take 3 b)))) (\<lambda>b. hd b > 253) [[1]] (SolanaKey (replicate 32 0))
    = Inr (SolanaKey (replicate 32 253), 253) \<and>
   (\<exists>e. SolanaCreateProgramAddress (\<lambda>b. replicate 32 (last (butlast (take 3 b))))
      (\<lambda>b. hd b > 253) [[1], [254]] (SolanaKey (replicate 32 0)) = Inl e)"
proof -
  have *: "SolanaFindProgramAddress (\<lambda>b. replicate 32 (last (butlast (take 3 b)))) (\<lambda>b. hd b > 253) [[1]] (SolanaKey (replicate 32 0))
    = Inr (SolanaKey (replicate 32 253), 253)"
    by code_simp
  show ?thesis
    using * pda_highest_bump [of "\<lambda>b. replicate 32 (last (butlast (take 3 b)))" "\<lambda>b. hd b > 253" "[[1]]"
        "SolanaKey (replicate 32 0)"] by simp
qed

lemma transfer_mentions:
  assumes "ms = mentions from [SolanaTransferInstruction prog from to lamports]"
  shows "mentioned ms k \<longleftrightarrow> k = from \<or> k = to \<or> k = SystemProgram prog"
    and "signs ms k \<longleftrightarrow> k = from" and "writes ms k \<longleftrightarrow> k = from \<or> k = to"
  using assms by (auto simp: mentions_def mentioned_def signs_def writes_def SolanaTransferInstruction_def)

text \<open>
  A transfer between two accounts compiles to the message the System Program expects: payer,
  recipient and program in that order, one signature, only the program read-only, and the
  little-endian amount after the instruction number 2.
\<close>

theorem SolanaTransfer_compiles:
  assumes "ranges_over iter" and "from \<noteq> to" "from \<noteq> SystemProgram prog" "to \<noteq> SystemProgram prog"
  shows "NewSolanaTx iter from bh [SolanaTransferInstruction prog from to lamports] =
    Inr \<lparr>Signatures = [[]],
         Message =
           \<lparr>Header = \<lparr>NumRequiredSignatures = 1, NumReadonlySignedAccounts = 0, NumReadonlyUnsignedAccounts = 1\<rparr>,
            AccountKeys = [from, to, SystemProgram prog], RecentBlockhash = bh,
            Instructions = [\<lparr>ProgramIDIndex = 2, AccountIndices = [0, 1], IxData = put_u32 2 @ put_u64 lamports\<rparr>]\<rparr>,
         MessageV0 = None\<rparr>"
proof -
  define ms where "ms = mentions from [SolanaTransferInstruction prog from to lamports]"
  note m = transfer_mentions [OF ms_def]
  have none: "{k. mentioned ms k \<and> k \<noteq> from \<and> signs ms k = True \<and> writes ms k = w} = {}" for w
    by (auto simp: m)
  have ft: "{k. mentioned ms k \<and> k \<noteq> from \<and> signs ms k = False \<and> writes ms k = True} = {to}"
    and ff: "{k. mentioned ms k \<and> k \<noteq> from \<and> signs ms k = False \<and> writes ms k = False} = {SystemProgram prog}"
    using assms(2-) by (auto simp: m)
  have g: "group_keys ms from True True = []" "group_keys ms from True False = []"
    "group_keys ms from False True = [to]" "group_keys ms from False False = [SystemProgram prog]"
    by (simp_all only: group_keys_def none ft ff) simp_all
  then have ks: "all_keys ms from = [from, to, SystemProgram prog]"
    by (simp add: all_keys_def)
  have "index_of (index_map (map (info_of ms) [from, to, SystemProgram prog])) from = 0"
    "index_of (index_map (map (info_of ms) [from, to, SystemProgram prog])) to = 1"
    "index_of (index_map (map (info_of ms) [from, to, SystemProgram prog])) (SystemProgram prog) = 2"
    using index_map_nth [of "map (info_of ms) [from, to, SystemProgram prog]" 0] assms(2-)
      index_map_nth [of "map (info_of ms) [from, to, SystemProgram prog]" 1]
      index_map_nth [of "map (info_of ms) [from, to, SystemProgram prog]" 2] by simp_all
  then show ?thesis
    by (simp add: NewSolanaTx_spec [OF assms(1)] ms_def [symmetric] ks compiled_message_def Let_def g
        signer_count_def compile_ix_def)
      (simp add: SolanaTransferInstruction_def)
qed

theorem SolanaTransfer_compiles_witness:
  "\<exists>tx. NewSolanaTx rev (sample_key 3) (sample_key 7)
      [SolanaTransferInstruction
        \<lparr>SystemProgram = sample_key 0, ComputeBudgetProgram = sample_key 0, TokenProgram = sample_key 0,
         ATAProgram = sample_key 0, RecentBlockhashesSysvar = sample_key 0\<rparr>
        (sample_key 3) (sample_key 2) 1000] = Inr tx \<and>
    AccountKeys (Message tx) = [sample_key 3, sample_key 2, sample_key 0]"
  by (subst SolanaTransfer_compiles [OF ranges_over_samples(2)]) (simp_all add: sample_key_def)

end
