(* ===== verification/Crypto.thy ===== *)
theory Crypto
  imports Prelude
begin

text \<open>
  What the program takes from cryptographic libraries, as one record of parameters, and the code
  of the repository that sits directly on it: the account hash of Ethereum
  (\<^verbatim>\<open>etherhash.go\<close>), the tagged hash and the key tweak of Taproot (\<^verbatim>\<open>p2tr.go\<close>)
  and the checksummed hexadecimal of EIP-55 (\<^verbatim>\<open>eip55.go\<close>). \<open>chash\<close> is
  \<open>gobottle.Hash\<close>: the hash functions it is given are named by \<open>hash_fn\<close>.
\<close>

datatype hash_fn = Sha256New | Ripemd160New | Keccak256New | EtherHashNew | MassaHashNew | CardanoHashNew

text \<open>
  The secp256k1 library: \<open>lift_even x\<close> is the point with abscissa \<open>x\<close> and even ordinate
  (\<open>DecompressY\<close>), \<open>x_of\<close> and \<open>y_odd\<close> read a point in affine coordinates.
\<close>

record 'p crypto =
  chash :: "hash_fn list \<Rightarrow> bytes \<Rightarrow> bytes"
  sha256 :: "bytes \<Rightarrow> bytes"
  keccak256 :: "bytes \<Rightarrow> bytes"
  lift_even :: "nat \<Rightarrow> 'p option"
  base_mult :: "nat \<Rightarrow> 'p"
  point_add :: "'p \<Rightarrow> 'p \<Rightarrow> 'p"
  x_of :: "'p \<Rightarrow> nat"
  y_odd :: "'p \<Rightarrow> bool"

definition field_prime :: nat where
  "field_prime = 2 ^ 256 - 2 ^ 32 - 977"

definition curve_order :: nat where
  "curve_order = 0xfffffffffffffffffffffffffffffffebaaedce6af48a03bbfd25e8cd0364141"

section \<open>The Ethereum account hash\<close>

text \<open>The hash object: nothing written yet, or the bytes given to Keccak so far.\<close>

type_synonym ether_hash = "bytes option"

definition newEtherHash :: ether_hash where
  "newEtherHash = None"

definition etherHash_Reset :: "ether_hash \<Rightarrow> ether_hash" where
  "etherHash_Reset e = None"

definition etherHash_Write :: "bytes \<Rightarrow> ether_hash \<Rightarrow> (ether_hash \<times> nat) result" where
  "etherHash_Write b e =
     (if length b = 0 then Inr (e, 0)
      else case e of
        None \<Rightarrow> bindE (slice_from b 1) (\<lambda>t. Inr (Some t, length t + 1))
      | Some w \<Rightarrow> Inr (Some (w @ b), length b))"

definition etherHash_Sum :: "'p crypto \<Rightarrow> bytes \<Rightarrow> ether_hash \<Rightarrow> bytes result" where
  "etherHash_Sum cr b e =
     (case e of
        None \<Rightarrow> Inl Panic
      | Some w \<Rightarrow> bindE (slice_from (keccak256 cr w) 12) (\<lambda>s. Inr (b @ s)))"

definition etherHash_Size :: nat where
  "etherHash_Size = 20"

fun ether_writes :: "bytes list \<Rightarrow> ether_hash \<Rightarrow> (ether_hash \<times> nat) result" where
  "ether_writes [] e = Inr (e, 0)"
| "ether_writes (b # bs) e =
     bindE (etherHash_Write b e) (\<lambda>(e, n). bindE (ether_writes bs e) (\<lambda>(e, m). Inr (e, n + m)))"

lemma ether_writes_Some: "ether_writes bs (Some w) = Inr (Some (w @ concat bs), length (concat bs))"
  by (induction bs arbitrary: w) (auto simp: etherHash_Write_def)

lemma ether_writes_None:
  "ether_writes bs None =
    (if concat bs = [] then Inr (None, 0) else Inr (Some (tl (concat bs)), length (concat bs)))"
proof (induction bs)
  case (Cons b bs)
  show ?case
  proof (cases b)
    case Nil
    with Cons show ?thesis
      by (auto simp: etherHash_Write_def)
  next
    case (Cons x t)
    then show ?thesis
      by (simp add: etherHash_Write_def ether_writes_Some)
  qed
qed simp

section \<open>Taproot\<close>

definition bip340TaggedHash :: "'p crypto \<Rightarrow> string \<Rightarrow> bytes list \<Rightarrow> bytes" where
  "bip340TaggedHash cr tag dat =
     (let tagHash = sha256 cr (str_bytes tag) in sha256 cr (tagHash @ tagHash @ concat dat))"

definition taprootLiftX :: "'p crypto \<Rightarrow> bytes \<Rightarrow> 'p result" where
  "taprootLiftX cr xOnly =
     (if length xOnly \<noteq> 32 then fail ''taproot: x-only pubkey must be 32 bytes, got %d''
      else if be_decode xOnly \<ge> field_prime then fail ''taproot: x-only pubkey x >= field prime''
      else case lift_even cr (be_decode xOnly) of
        None \<Rightarrow> fail ''taproot: x coordinate is not on the curve''
      | Some p \<Rightarrow> Inr p)"

definition taprootXOnlyFromPubKey :: "bytes \<Rightarrow> bytes result" where
  "taprootXOnlyFromPubKey pubComp =
     (if length pubComp \<noteq> 33 then fail ''taproot: expected 33-byte compressed pubkey, got %d''
      else slice_from pubComp 1)"

definition taprootTweakPubKey :: "'p crypto \<Rightarrow> bytes \<Rightarrow> (bytes \<times> nat \<times> bytes) result" where
  "taprootTweakPubKey cr internalXOnly =
     bindE (taprootLiftX cr internalXOnly) (\<lambda>P.
       let tBytes = bip340TaggedHash cr ''TapTweak'' [internalXOnly]; t = be_decode tBytes in
       if t \<ge> curve_order then fail ''taproot: tweak >= curve order''
       else
         let tweak = take 32 (tBytes @ replicate 32 0);
             Q = point_add cr P (base_mult cr t)
         in Inr (be_encode 32 (x_of cr Q), if y_odd cr Q then 1 else 0, tweak))"

definition TaprootTweak :: "'p crypto \<Rightarrow> bytes \<Rightarrow> (bytes \<times> nat) result" where
  "TaprootTweak cr internalXOnly =
     bindE (taprootTweakPubKey cr internalXOnly) (\<lambda>(out, par, tweak). Inr (out, par))"

lemma taprootTweakPubKey_length: "taprootTweakPubKey cr x = Inr (out, par, tweak) \<Longrightarrow> length out = 32"
  by (auto simp: taprootTweakPubKey_def bindE_Inr_iff Let_def split: if_splits)

section \<open>EIP-55\<close>

text \<open>\<open>a[i] -= 32\<close> on a letter: its capital.\<close>

definition eip55_char :: "bytes \<Rightarrow> nat \<Rightarrow> char \<Rightarrow> char result" where
  "eip55_char hash i c =
     bindE (idx hash (i div 2)) (\<lambda>h.
       let hashByte = (if even i then drop_bit 4 h else h AND 0xf) in
       Inr (if of_char c > (57 :: nat) \<and> hashByte > 7 then char_of (of_char c - 32 :: nat) else c))"

fun eip55_loop :: "bytes \<Rightarrow> nat \<Rightarrow> string \<Rightarrow> string result" where
  "eip55_loop hash i [] = Inr []"
| "eip55_loop hash i (c # cs) =
     bindE (eip55_char hash i c) (\<lambda>d. bindE (eip55_loop hash (i + 1) cs) (\<lambda>ds. Inr (d # ds)))"

definition eip55 :: "'p crypto \<Rightarrow> bytes \<Rightarrow> string result" where
  "eip55 cr inp =
     (let a = hex_encode inp; hash = chash cr [Keccak256New] (str_bytes a) in
      bindE (eip55_loop hash 0 a) (\<lambda>b. Inr (''0x'' @ b)))"

lemma eip55_char_value:
  assumes "n < 16" "eip55_char hash i (hex_digit n) = Inr c"
  shows "hex_value c = Some n"
proof -
  have "n \<in> {0,1,2,3,4,5,6,7,8,9,10,11,12,13,14,15}" using assms(1) by (simp, arith)
  then have "hex_value (hex_digit n) = Some n"
    "of_char (hex_digit n) > (57 :: nat) \<Longrightarrow> hex_value (char_of (of_char (hex_digit n) - 32 :: nat)) = Some n"
    by (elim insertE; simp add: hex_digit_def hex_value_def)+
  with assms(2) show ?thesis
    by (auto simp: eip55_char_def bindE_Inr_iff Let_def split: if_splits)
qed

lemma eip55_loop_decodes:
  "eip55_loop hash i (hex_encode bs) = Inr s \<Longrightarrow> hex_decode s = Inr bs"
proof (induction bs arbitrary: i s)
  case (Cons b bs)
  have d: "unat b div 16 < 16" "unat b mod 16 < 16" using unat_byte_less [of b] by linarith+
  from Cons.prems obtain c1 c2 cs where s: "s = c1 # c2 # cs"
    and c: "eip55_char hash i (hex_digit (unat b div 16)) = Inr c1"
      "eip55_char hash (i + 1) (hex_digit (unat b mod 16)) = Inr c2"
    and cs: "eip55_loop hash (i + 2) (hex_encode bs) = Inr cs"
    by (auto simp: bindE_Inr_iff)
  from Cons.IH [OF cs] eip55_char_value [OF d(1) c(1)] eip55_char_value [OF d(2) c(2)] show ?case
    by (simp add: s)
qed simp

lemma eip55_loop_total:
  "i + length s \<le> 2 * length hash \<Longrightarrow> \<exists>t. eip55_loop hash i s = Inr t"
proof (induction s arbitrary: i)
  case (Cons c s)
  then have "i div 2 < length hash" by auto
  with Cons.IH [of "i + 1"] Cons.prems show ?case
    by (auto simp: eip55_char_def Let_def)
qed simp

section \<open>Properties\<close>

text \<open>
  The account hash does not depend on how its input is cut into writes: any sequence of writes
  hashes what a single write of their concatenation hashes, without the first byte of the whole,
  and reports having taken every byte.
\<close>

theorem ether_hash_chunks:
  assumes "concat bs \<noteq> []"
  shows "ether_writes bs newEtherHash = Inr (Some (tl (concat bs)), length (concat bs)) \<and>
    ether_writes [concat bs] newEtherHash = ether_writes bs newEtherHash"
  using assms by (simp add: newEtherHash_def ether_writes_None del: ether_writes.simps)

theorem ether_hash_chunks_witness:
  "ether_writes [[], [4], [1, 2], [], [3]] newEtherHash = Inr (Some [1, 2, 3], 4)"
  using ether_hash_chunks [of "[[], [4], [1, 2], [], [3]]"] by simp

lemma eip55_hex:
  assumes "length inp \<le> length (chash cr [Keccak256New] (str_bytes (hex_encode inp)))"
  shows "\<exists>s. eip55 cr inp = Inr (''0x'' @ s) \<and> hex_decode s = Inr inp"
proof -
  let ?h = "chash cr [Keccak256New] (str_bytes (hex_encode inp))"
  obtain s where s: "eip55_loop ?h 0 (hex_encode inp) = Inr s"
    using eip55_loop_total [of 0 "hex_encode inp" ?h] assms by auto
  with eip55_loop_decodes [OF s] show ?thesis
    by (simp add: eip55_def Let_def)
qed

text \<open>
  C0: \<open>eip55\<close> only changes the case of letters: for an address no longer than the hash it is
  given, it returns \<open>0x\<close> followed by text that decodes to the same bytes.
\<close>

theorem eip55_decodes:
  assumes "length inp \<le> length (chash cr [Keccak256New] (str_bytes (hex_encode inp)))"
  shows "\<exists>s. eip55 cr inp = Inr (''0x'' @ s) \<and> hex_decode s = Inr inp"
  using assms by (rule eip55_hex)

text \<open>A stand-in for the libraries, used to show that hypotheses about them can hold.\<close>

definition toy_crypto :: "nat crypto" where
  "toy_crypto =
     \<lparr>chash = (\<lambda>fs b. take (if last fs = Sha256New \<or> last fs = Keccak256New \<or> last fs = MassaHashNew then 32
                            else if last fs = CardanoHashNew then 28 else 20)
                (b @ replicate 32 9)),
      sha256 = (\<lambda>b. take 32 (replicate 1 0 @ b @ replicate 32 9)), keccak256 = (\<lambda>b. take 32 (b @ replicate 32 9)),
      lift_even = (\<lambda>x. Some x), base_mult = (\<lambda>k. k), point_add = (\<lambda>p q. (p + q) mod curve_order),
      x_of = (\<lambda>p. min p (curve_order - p)), y_odd = (\<lambda>p. curve_order < 2 * p)\<rparr>"

theorem eip55_decodes_witness:
  "\<exists>s. eip55 toy_crypto [0xab, 0x1f] = Inr (''0x'' @ s) \<and> hex_decode s = Inr [0xab, 0x1f]"
  by (rule eip55_decodes) (simp add: toy_crypto_def)

end
