(* ===== verification/Script.thy ===== *)
theory Script
  imports Crypto Pushes
begin

text \<open>
  Output scripts of a public key (\<^verbatim>\<open>script.go\<close>, \<^verbatim>\<open>insertable.go\<close>,
  \<^verbatim>\<open>hash.go\<close>, \<^verbatim>\<open>pushbytes.go\<close>, \<^verbatim>\<open>p2tr.go\<close>,
  \<^verbatim>\<open>format.go\<close>): a format is a list of insertable pieces, some of which look another
  format up on the same \<open>Script\<close>, which caches every result. A public key is what the code
  asks of it: its PKIX encoding, and the other encodings it supports.
\<close>

record public_key =
  pkix :: "bytes result"
  ed25519 :: "bytes option"
  compressed :: "bytes option"
  uncompressed :: "bytes option"

datatype insertable =
    Bytes bytes
  | Lookup string
  | IPushBytes insertable
  | IHashInfo insertable "hash_fn list"
  | ITaprootTweak insertable

type_synonym cache = "string \<rightharpoonup> bytes"

record script =
  pubkey :: public_key
  cache :: cache

definition IHash :: "insertable \<Rightarrow> hash_fn list \<Rightarrow> insertable" where
  "IHash v hash = IHashInfo v hash"

definition IHash160 :: "insertable \<Rightarrow> insertable" where
  "IHash160 v = IHash v [Sha256New, Ripemd160New]"

section \<open>The formats\<close>

type_synonym format = "insertable list"

definition Formats :: "(string \<times> format) list" where
  "Formats =
    [(''p2pkh'', [Bytes [0x76, 0xa9], IPushBytes (IHash160 (Lookup ''pubkey:comp'')), Bytes [0x88, 0xac]]),
     (''p2pukh'', [Bytes [0x76, 0xa9], IPushBytes (IHash160 (Lookup ''pubkey:uncomp'')), Bytes [0x88, 0xac]]),
     (''p2pk'', [IPushBytes (Lookup ''pubkey:comp''), Bytes [0xac]]),
     (''p2puk'', [IPushBytes (Lookup ''pubkey:uncomp''), Bytes [0xac]]),
     (''p2wpkh'', [Bytes [0], IPushBytes (IHash160 (Lookup ''pubkey:comp''))]),
     (''p2tr'', [Bytes [0x51], IPushBytes (ITaprootTweak (Lookup ''pubkey:comp''))]),
     (''p2sh:p2pkh'', [Bytes [0xa9], IPushBytes (IHash160 (Lookup ''p2pkh'')), Bytes [0x87]]),
     (''p2sh:p2pukh'', [Bytes [0xa9], IPushBytes (IHash160 (Lookup ''p2pukh'')), Bytes [0x87]]),
     (''p2sh:p2pk'', [Bytes [0xa9], IPushBytes (IHash160 (Lookup ''p2pk'')), Bytes [0x87]]),
     (''p2sh:p2puk'', [Bytes [0xa9], IPushBytes (IHash160 (Lookup ''p2puk'')), Bytes [0x87]]),
     (''p2sh:p2wpkh'', [Bytes [0xa9], IPushBytes (IHash160 (Lookup ''p2wpkh'')), Bytes [0x87]]),
     (''p2wsh:p2pkh'', [Bytes [0], IPushBytes (IHash (Lookup ''p2pkh'') [Sha256New])]),
     (''p2wsh:p2pukh'', [Bytes [0], IPushBytes (IHash (Lookup ''p2pukh'') [Sha256New])]),
     (''p2wsh:p2pk'', [Bytes [0], IPushBytes (IHash (Lookup ''p2pk'') [Sha256New])]),
     (''p2wsh:p2puk'', [Bytes [0], IPushBytes (IHash (Lookup ''p2puk'') [Sha256New])]),
     (''p2wsh:p2wpkh'', [Bytes [0], IPushBytes (IHash (Lookup ''p2wpkh'') [Sha256New])]),
     (''eth'', [IHash (Lookup ''pubkey:uncomp'') [EtherHashNew]]),
     (''tron'', [Bytes [0x41], IHash (Lookup ''pubkey:uncomp'') [EtherHashNew]]),
     (''massa_pubkey'', [Bytes [0], Lookup ''pubkey:ed25519'']),
     (''massa'', [Bytes [0, 0], IHash (Lookup ''massa_pubkey'') [MassaHashNew]]),
     (''solana'', [Lookup ''pubkey:ed25519'']),
     (''cardano'', [Bytes [0x61], IHash (Lookup ''pubkey:ed25519'') [CardanoHashNew]])]"

definition FormatsPerNetwork :: "(string \<times> string list) list" where
  "FormatsPerNetwork =
    [(''bitcoin'', [''p2tr'', ''p2wpkh'', ''p2sh:p2wpkh'', ''p2puk'', ''p2pk'', ''p2pukh'', ''p2pkh'']),
     (''bitcoin-cash'', [''p2puk'', ''p2pk'', ''p2pukh'', ''p2pkh'']),
     (''litecoin'', [''p2wpkh'', ''p2sh:p2wpkh'', ''p2puk'', ''p2pk'', ''p2pukh'', ''p2pkh'']),
     (''dogecoin'', [''p2puk'', ''p2pk'', ''p2pukh'', ''p2pkh'']),
     (''evm'', [''eth'']), (''tron'', [''tron'']), (''massa'', [''massa'']), (''solana'', [''solana'']),
     (''cardano'', [''cardano''])]"

section \<open>Generation\<close>

definition New :: "public_key \<Rightarrow> script" where
  "New pk = \<lparr>pubkey = pk, cache = Map.empty\<rparr>"

definition export_error :: "'a result" where
  "export_error = fail ''pubkey of type %T does not support %s export''"

definition getPubKeyBytes :: "public_key \<Rightarrow> string \<Rightarrow> bytes result" where
  "getPubKeyBytes pk typ =
     (if typ = ''pubkey:pkix'' then pkix pk
      else if typ = ''pubkey:ed25519'' then (case ed25519 pk of Some b \<Rightarrow> Inr b | None \<Rightarrow> export_error)
      else if typ = ''pubkey:comp'' then (case compressed pk of Some b \<Rightarrow> Inr b | None \<Rightarrow> export_error)
      else if typ = ''pubkey:uncomp'' then (case uncompressed pk of Some b \<Rightarrow> Inr b | None \<Rightarrow> export_error)
      else fail ''unknown public key format %s'')"

definition IPushBytes_Bytes :: "bytes \<Rightarrow> bytes result" where
  "IPushBytes_Bytes v = Inr (PushBytes v)"

definition IHashInfo_Bytes :: "'p crypto \<Rightarrow> hash_fn list \<Rightarrow> bytes \<Rightarrow> bytes result" where
  "IHashInfo_Bytes cr hash v = Inr (chash cr hash v)"

definition ITaprootTweak_Bytes :: "'p crypto \<Rightarrow> bytes \<Rightarrow> bytes result" where
  "ITaprootTweak_Bytes cr buf =
     bindE (taprootXOnlyFromPubKey buf) (\<lambda>xOnly.
     bindE (taprootTweakPubKey cr xOnly) (\<lambda>(out, par, tweak). Inr out))"

text \<open>
  \<open>v, err := i.v.Bytes(s)\<close>, then the method's own step; \<open>gen\<close> is \<open>s.Generate\<close> and
  the cache is what it changes of \<open>s\<close>.
\<close>

fun insertable_bytes ::
    "'p crypto \<Rightarrow> (string \<Rightarrow> cache \<Rightarrow> bytes result \<times> cache) \<Rightarrow> insertable \<Rightarrow> cache \<Rightarrow> bytes result \<times> cache" where
  "insertable_bytes cr gen (Bytes b) c = (Inr b, c)"
| "insertable_bytes cr gen (Lookup l) c = gen l c"
| "insertable_bytes cr gen (IPushBytes v) c =
     (let (r, c) = insertable_bytes cr gen v c in (bindE r IPushBytes_Bytes, c))"
| "insertable_bytes cr gen (IHashInfo v hash) c =
     (let (r, c) = insertable_bytes cr gen v c in (bindE r (IHashInfo_Bytes cr hash), c))"
| "insertable_bytes cr gen (ITaprootTweak v) c =
     (let (r, c) = insertable_bytes cr gen v c in (bindE r (ITaprootTweak_Bytes cr), c))"

fun format_pieces ::
    "'p crypto \<Rightarrow> (string \<Rightarrow> cache \<Rightarrow> bytes result \<times> cache) \<Rightarrow> format \<Rightarrow> cache \<Rightarrow> bytes list result \<times> cache" where
  "format_pieces cr gen [] c = (Inr [], c)"
| "format_pieces cr gen (p # ps) c =
     (case insertable_bytes cr gen p c of
        (Inl e, c) \<Rightarrow> (Inl e, c)
      | (Inr v, c) \<Rightarrow>
          (case format_pieces cr gen ps c of
             (Inl e, c) \<Rightarrow> (Inl e, c)
           | (Inr vs, c) \<Rightarrow> (Inr (v # vs), c)))"

definition is_pubkey_name :: "string \<Rightarrow> bool" where
  "is_pubkey_name name \<longleftrightarrow>
     name \<in> {''pubkey:pkix'', ''pubkey:ed25519'', ''pubkey:comp'', ''pubkey:uncomp''}"

text \<open>
  \<open>Generate\<close> calls itself through \<open>Lookup\<close>; \<open>n\<close> bounds the depth of these calls, and a
  program that exceeded it would overflow its stack (\<open>Panic\<close>).
\<close>

fun generate :: "'p crypto \<Rightarrow> public_key \<Rightarrow> nat \<Rightarrow> string \<Rightarrow> cache \<Rightarrow> bytes result \<times> cache" where
  "generate cr pk 0 name c = (Inl Panic, c)"
| "generate cr pk (Suc n) name c =
     (case c name of
        Some r \<Rightarrow> (Inr r, c)
      | None \<Rightarrow>
          if is_pubkey_name name then
            (case getPubKeyBytes pk name of
               Inl e \<Rightarrow> (Inl e, c)
             | Inr res \<Rightarrow> (Inr res, c(name \<mapsto> res)))
          else
            (case map_of Formats name of
               None \<Rightarrow> (fail ''unsupported format %s'', c)
             | Some f \<Rightarrow>
                 (case format_pieces cr (generate cr pk n) f c of
                    (Inl e, c) \<Rightarrow> (Inl e, c)
                  | (Inr pieces, c) \<Rightarrow>
                      let res = concat pieces in (Inr res, c(name \<mapsto> res)))))"

definition Generate :: "'p crypto \<Rightarrow> string \<Rightarrow> script \<Rightarrow> bytes result \<times> script" where
  "Generate cr name s =
     (let (r, c) = generate cr (pubkey s) 3 name (cache s) in (r, s\<lparr>cache := c\<rparr>))"

section \<open>The same without a cache\<close>

text \<open>
  The specification: the bytes of a format as a function of the key alone. \<open>rank\<close> is the depth
  of the lookups below a name.
\<close>

fun spec_bytes :: "'p crypto \<Rightarrow> (string \<Rightarrow> bytes result) \<Rightarrow> insertable \<Rightarrow> bytes result" where
  "spec_bytes cr gen (Bytes b) = Inr b"
| "spec_bytes cr gen (Lookup l) = gen l"
| "spec_bytes cr gen (IPushBytes v) = bindE (spec_bytes cr gen v) IPushBytes_Bytes"
| "spec_bytes cr gen (IHashInfo v hash) = bindE (spec_bytes cr gen v) (IHashInfo_Bytes cr hash)"
| "spec_bytes cr gen (ITaprootTweak v) = bindE (spec_bytes cr gen v) (ITaprootTweak_Bytes cr)"

fun spec_at :: "'p crypto \<Rightarrow> public_key \<Rightarrow> nat \<Rightarrow> string \<Rightarrow> bytes result" where
  "spec_at cr pk 0 name = Inl Panic"
| "spec_at cr pk (Suc n) name =
     (if is_pubkey_name name then getPubKeyBytes pk name
      else case map_of Formats name of
        None \<Rightarrow> fail ''unsupported format %s''
      | Some f \<Rightarrow> bindE (mapE (spec_bytes cr (spec_at cr pk n)) f) (\<lambda>ps. Inr (concat ps)))"

definition script_spec :: "'p crypto \<Rightarrow> public_key \<Rightarrow> string \<Rightarrow> bytes result" where
  "script_spec cr pk name = spec_at cr pk 3 name"

fun lookups :: "insertable \<Rightarrow> string list" where
  "lookups (Bytes b) = []"
| "lookups (Lookup l) = [l]"
| "lookups (IPushBytes v) = lookups v"
| "lookups (IHashInfo v hash) = lookups v"
| "lookups (ITaprootTweak v) = lookups v"

definition rank :: "string \<Rightarrow> nat" where
  "rank name =
     (if is_pubkey_name name then 1
      else case map_of Formats name of
        None \<Rightarrow> 1
      | Some f \<Rightarrow> if list_all (\<lambda>p. list_all is_pubkey_name (lookups p)) f then 2 else 3)"

lemma Formats_ranked:
  "\<forall>(name, f) \<in> set Formats. \<forall>p \<in> set f. \<forall>l \<in> set (lookups p). rank l < rank name"
  by code_simp

lemma rank_bounds: "1 \<le> rank name" "rank name \<le> 3"
  by (auto simp: rank_def split: option.splits)

lemma lookup_rank:
  assumes "map_of Formats name = Some f" "p \<in> set f" "l \<in> set (lookups p)"
  shows "rank l < rank name"
  using Formats_ranked map_of_SomeD [OF assms(1)] assms(2,3) by blast

lemma spec_bytes_cong: "(\<And>l. l \<in> set (lookups p) \<Longrightarrow> g l = h l) \<Longrightarrow> spec_bytes cr g p = spec_bytes cr h p"
  by (induction p) simp_all

lemma mapE_cong: "(\<And>x. x \<in> set xs \<Longrightarrow> f x = g x) \<Longrightarrow> mapE f xs = mapE g xs"
  by (induction xs) simp_all

lemma spec_at_stable: "rank name \<le> n \<Longrightarrow> rank name \<le> m \<Longrightarrow> spec_at cr pk n name = spec_at cr pk m name"
proof (induction n arbitrary: m name)
  case 0
  then show ?case using rank_bounds(1) [of name] by simp
next
  case (Suc n)
  then obtain k where m: "m = Suc k"
    using rank_bounds(1) [of name] by (cases m) auto
  have "mapE (spec_bytes cr (spec_at cr pk n)) f = mapE (spec_bytes cr (spec_at cr pk k)) f"
    if "map_of Formats name = Some f" for f
  proof (intro mapE_cong spec_bytes_cong)
    fix p l assume "p \<in> set f" "l \<in> set (lookups p)"
    from lookup_rank [OF that this] Suc.prems m show "spec_at cr pk n l = spec_at cr pk k l"
      by (intro Suc.IH) simp_all
  qed
  then show ?case
    by (simp add: m split: option.split)
qed

section \<open>The cache only holds what the specification says\<close>

definition coherent :: "'p crypto \<Rightarrow> public_key \<Rightarrow> cache \<Rightarrow> bool" where
  "coherent cr pk c \<longleftrightarrow> (\<forall>name b. c name = Some b \<longrightarrow> script_spec cr pk name = Inr b)"

definition gen_ok :: "'p crypto \<Rightarrow> public_key \<Rightarrow> (string \<Rightarrow> cache \<Rightarrow> bytes result \<times> cache) \<Rightarrow> string \<Rightarrow> bool" where
  "gen_ok cr pk gen l \<longleftrightarrow>
     (\<forall>c. coherent cr pk c \<longrightarrow> fst (gen l c) = script_spec cr pk l \<and> coherent cr pk (snd (gen l c)))"

lemma insertable_bytes_spec:
  assumes "\<forall>l \<in> set (lookups p). gen_ok cr pk gen l" and "coherent cr pk c"
  shows "fst (insertable_bytes cr gen p c) = spec_bytes cr (script_spec cr pk) p \<and>
    coherent cr pk (snd (insertable_bytes cr gen p c))"
  using assms by (induction p) (auto simp: gen_ok_def split: prod.splits)

lemma format_pieces_spec:
  assumes "\<forall>p \<in> set f. \<forall>l \<in> set (lookups p). gen_ok cr pk gen l" and "coherent cr pk c"
  shows "fst (format_pieces cr gen f c) = mapE (spec_bytes cr (script_spec cr pk)) f \<and>
    coherent cr pk (snd (format_pieces cr gen f c))"
  using assms
proof (induction f arbitrary: c)
  case (Cons p f)
  obtain r c1 where 1: "insertable_bytes cr gen p c = (r, c1)"
    by (cases "insertable_bytes cr gen p c")
  have r: "r = spec_bytes cr (script_spec cr pk) p" "coherent cr pk c1"
    using insertable_bytes_spec [of p cr pk gen c] Cons.prems 1 by auto
  obtain rs c2 where 2: "format_pieces cr gen f c1 = (rs, c2)"
    by (cases "format_pieces cr gen f c1")
  have rs: "rs = mapE (spec_bytes cr (script_spec cr pk)) f" "coherent cr pk c2"
    using Cons.IH [OF _ r(2)] Cons.prems(1) 2 by auto
  show ?case
    using 1 2 r(2) rs(2) r(1) [symmetric] rs(1) [symmetric] by (cases r; cases rs) simp_all
qed simp

lemma coherent_update:
  "coherent cr pk c \<Longrightarrow> script_spec cr pk name = Inr b \<Longrightarrow> coherent cr pk (c(name \<mapsto> b))"
  by (simp add: coherent_def)

lemma script_spec_unfold:
  "script_spec cr pk name =
    (if is_pubkey_name name then getPubKeyBytes pk name
     else case map_of Formats name of
       None \<Rightarrow> fail ''unsupported format %s''
     | Some f \<Rightarrow> bindE (mapE (spec_bytes cr (script_spec cr pk)) f) (\<lambda>ps. Inr (concat ps)))"
proof -
  have "script_spec cr pk name = spec_at cr pk 4 name"
    unfolding script_spec_def using rank_bounds(2) [of name] by (intro spec_at_stable) simp_all
  also have "(4 :: nat) = Suc 3" by simp
  finally have "script_spec cr pk name = spec_at cr pk (Suc 3) name" .
  moreover have "spec_at cr pk 3 = script_spec cr pk"
    by (simp add: script_spec_def fun_eq_iff)
  ultimately show ?thesis
    by (simp only: spec_at.simps)
qed

lemma generate_spec: "rank name \<le> n \<Longrightarrow> gen_ok cr pk (generate cr pk n) name"
proof (induction n arbitrary: name)
  case 0
  then show ?case using rank_bounds(1) [of name] by simp
next
  case (Suc n)
  show ?case
    unfolding gen_ok_def
  proof (intro allI impI)
    fix c assume c: "coherent cr pk c"
    show "fst (generate cr pk (Suc n) name c) = script_spec cr pk name \<and>
      coherent cr pk (snd (generate cr pk (Suc n) name c))"
    proof (cases "c name = None \<and> \<not> is_pubkey_name name \<and> map_of Formats name \<noteq> None")
      case False
      then consider (hit) b where "c name = Some b" | (key) "c name = None" "is_pubkey_name name"
        | (unknown) "c name = None" "\<not> is_pubkey_name name" "map_of Formats name = None"
        by (cases "c name") auto
      then show ?thesis
      proof cases
        case hit
        then show ?thesis using c by (simp add: coherent_def)
      next
        case key
        then have "script_spec cr pk name = getPubKeyBytes pk name"
          by (simp add: script_spec_unfold [of cr pk name])
        then show ?thesis
          using key c coherent_update [OF c, of name] by (cases "getPubKeyBytes pk name") simp_all
      next
        case unknown
        then have "script_spec cr pk name = fail ''unsupported format %s''"
          by (simp add: script_spec_unfold [of cr pk name])
        then show ?thesis
          using unknown c by simp
      qed
    next
      case True
      then obtain f where f: "map_of Formats name = Some f"
        by auto
      have "\<forall>p \<in> set f. \<forall>l \<in> set (lookups p). gen_ok cr pk (generate cr pk n) l"
        using Suc lookup_rank [OF f] by fastforce
      note ps = format_pieces_spec [OF this c]
      obtain r c1 where 1: "format_pieces cr (generate cr pk n) f c = (r, c1)"
        by (cases "format_pieces cr (generate cr pk n) f c")
      have "script_spec cr pk name = bindE r (\<lambda>ps. Inr (concat ps))"
        using True f ps 1 by (simp add: script_spec_unfold [of cr pk name])
      moreover have "coherent cr pk c1"
        using ps 1 by simp
      ultimately show ?thesis
        using True f 1 coherent_update [of cr pk c1 name] by (cases r) (simp_all add: Let_def)
    qed
  qed
qed

lemma Generate_spec:
  assumes "coherent cr (pubkey s) (cache s)"
  shows "fst (Generate cr name s) = script_spec cr (pubkey s) name \<and>
    pubkey (snd (Generate cr name s)) = pubkey s \<and> coherent cr (pubkey s) (cache (snd (Generate cr name s)))"
  using generate_spec [OF rank_bounds(2), of cr "pubkey s" name] assms
  by (auto simp: Generate_def gen_ok_def split: prod.split)

lemma coherent_New: "coherent cr (pubkey (New pk)) (cache (New pk))"
  by (simp add: coherent_def New_def)

text \<open>The scripts a program can hold: made by \<open>New\<close>, then asked for formats.\<close>

inductive script_reachable :: "'p crypto \<Rightarrow> public_key \<Rightarrow> script \<Rightarrow> bool" for cr pk where
  fresh: "script_reachable cr pk (New pk)"
| asked: "script_reachable cr pk s \<Longrightarrow> script_reachable cr pk (snd (Generate cr name s))"

inductive_cases script_reachableE: "script_reachable cr pk s"

lemma script_reachable_inv:
  "script_reachable cr pk s \<Longrightarrow> pubkey s = pk \<and> coherent cr pk (cache s)"
proof (induction rule: script_reachable.induct)
  case fresh
  then show ?case
    using coherent_New by (simp add: New_def)
next
  case (asked s name)
  then show ?case
    using Generate_spec [of cr s name] by auto
qed

lemma Generate_reachable:
  "script_reachable cr pk s \<Longrightarrow> fst (Generate cr name s) = script_spec cr pk name"
  using script_reachable_inv Generate_spec by metis

section \<open>Properties\<close>

text \<open>
  C35: the cache never shows: whatever was asked of a \<open>Script\<close> before, in whatever order and
  with whatever errors, \<open>Generate\<close> answers as on a new one; and the calls it makes to itself
  never go deeper than three, so any larger bound on their depth gives the same answer.
\<close>

theorem script_cache_transparent:
  assumes "script_reachable cr pk s"
  shows "fst (Generate cr name s) = fst (Generate cr name (New pk)) \<and>
    (\<forall>n \<ge> 3. fst (generate cr pk n name (cache s)) = fst (Generate cr name s))"
proof (intro conjI allI impI)
  show "fst (Generate cr name s) = fst (Generate cr name (New pk))"
    using Generate_reachable [OF assms, of name] Generate_reachable [OF script_reachable.fresh [of cr pk], of name]
    by simp
  fix n :: nat assume "3 \<le> n"
  then have "gen_ok cr pk (generate cr pk n) name"
    using rank_bounds(2) [of name] by (intro generate_spec) simp
  then show "fst (generate cr pk n name (cache s)) = fst (Generate cr name s)"
    using script_reachable_inv [OF assms] Generate_reachable [OF assms] by (simp add: gen_ok_def)
qed

definition sample_pub :: public_key where
  "sample_pub = \<lparr>pkix = Inr [7], ed25519 = None, compressed = Some (2 # replicate 32 5), uncompressed = None\<rparr>"

theorem script_cache_transparent_witness:
  "fst (Generate toy_crypto ''p2sh:p2wpkh'' (snd (Generate toy_crypto ''eth'' (snd (Generate toy_crypto ''p2pkh'' (New sample_pub)))))) =
   fst (Generate toy_crypto ''p2sh:p2wpkh'' (New sample_pub))"
  by (rule script_cache_transparent [THEN conjunct1]) (intro script_reachable.intros)

lemma Formats_lookup:
  "map_of Formats ''p2pkh'' = Some [Bytes [0x76, 0xa9], IPushBytes (IHash160 (Lookup ''pubkey:comp'')), Bytes [0x88, 0xac]]"
  "map_of Formats ''p2pk'' = Some [IPushBytes (Lookup ''pubkey:comp''), Bytes [0xac]]"
  "map_of Formats ''p2wpkh'' = Some [Bytes [0], IPushBytes (IHash160 (Lookup ''pubkey:comp''))]"
  "map_of Formats ''p2tr'' = Some [Bytes [0x51], IPushBytes (ITaprootTweak (Lookup ''pubkey:comp''))]"
  "map_of Formats ''p2sh:p2wpkh'' = Some [Bytes [0xa9], IPushBytes (IHash160 (Lookup ''p2wpkh'')), Bytes [0x87]]"
  "map_of Formats ''p2wsh:p2pkh'' = Some [Bytes [0], IPushBytes (IHash (Lookup ''p2pkh'') [Sha256New])]"
  by (simp_all add: Formats_def)

lemma push_short: "length v = n \<Longrightarrow> n \<le> 75 \<Longrightarrow> PushBytes v = word_of_nat n # v"
  by (simp add: PushBytes_def)

lemma spec_comp: "compressed pk = Some k \<Longrightarrow> script_spec cr pk ''pubkey:comp'' = Inr k"
  by (simp add: script_spec_unfold [of cr pk "''pubkey:comp''"] is_pubkey_name_def getPubKeyBytes_def)

lemma spec_format:
  "\<not> is_pubkey_name name \<Longrightarrow> map_of Formats name = Some f \<Longrightarrow>
    script_spec cr pk name = bindE (mapE (spec_bytes cr (script_spec cr pk)) f) (\<lambda>ps. Inr (concat ps))"
  by (simp add: script_spec_unfold [of cr pk name])

text \<open>
  For a key with a 33-byte compressed form and hashes of the usual lengths, the standard
  formats are the standard scripts: pay to key hash, to key, to witness key hash, the witness
  program wrapped in a script hash, and the key-hash script behind a witness script hash.
\<close>

theorem standard_scripts:
  assumes "script_reachable cr pk s" and "compressed pk = Some k" "length k = 33"
    and h160: "\<And>b. length (chash cr [Sha256New, Ripemd160New] b) = 20"
    and h256: "\<And>b. length (chash cr [Sha256New] b) = 32"
  shows "let h = chash cr [Sha256New, Ripemd160New]; w = [0, 0x14] @ h k;
      p = [0x76, 0xa9, 0x14] @ h k @ [0x88, 0xac] in
    fst (Generate cr ''p2pkh'' s) = Inr p \<and>
    fst (Generate cr ''p2pk'' s) = Inr (0x21 # k @ [0xac]) \<and>
    fst (Generate cr ''p2wpkh'' s) = Inr w \<and>
    fst (Generate cr ''p2sh:p2wpkh'' s) = Inr ([0xa9, 0x14] @ h w @ [0x87]) \<and>
    fst (Generate cr ''p2wsh:p2pkh'' s) = Inr ([0, 0x20] @ chash cr [Sha256New] p)"
proof -
  note push = push_short [OF h160] push_short [OF h256] push_short [OF assms(3)]
  note spec = Generate_reachable [OF assms(1)]
  have p2pkh: "script_spec cr pk ''p2pkh'' =
      Inr ([0x76, 0xa9, 0x14] @ chash cr [Sha256New, Ripemd160New] k @ [0x88, 0xac])"
    by (subst spec_format [OF _ Formats_lookup(1)])
      (simp_all add: is_pubkey_name_def IHash160_def IHash_def spec_comp [OF assms(2)]
        IPushBytes_Bytes_def IHashInfo_Bytes_def push)
  have p2pk: "script_spec cr pk ''p2pk'' = Inr (0x21 # k @ [0xac])"
    by (subst spec_format [OF _ Formats_lookup(2)])
      (simp_all add: is_pubkey_name_def spec_comp [OF assms(2)] IPushBytes_Bytes_def push)
  have p2wpkh: "script_spec cr pk ''p2wpkh'' = Inr ([0, 0x14] @ chash cr [Sha256New, Ripemd160New] k)"
    by (subst spec_format [OF _ Formats_lookup(3)])
      (simp_all add: is_pubkey_name_def IHash160_def IHash_def spec_comp [OF assms(2)]
        IPushBytes_Bytes_def IHashInfo_Bytes_def push)
  have wrapped: "script_spec cr pk ''p2sh:p2wpkh'' =
      Inr ([0xa9, 0x14] @ chash cr [Sha256New, Ripemd160New] ([0, 0x14] @ chash cr [Sha256New, Ripemd160New] k) @ [0x87])"
    by (subst spec_format [OF _ Formats_lookup(5)])
      (simp_all add: is_pubkey_name_def IHash160_def IHash_def p2wpkh
        IPushBytes_Bytes_def IHashInfo_Bytes_def push)
  have wsh: "script_spec cr pk ''p2wsh:p2pkh'' =
      Inr ([0, 0x20] @ chash cr [Sha256New] ([0x76, 0xa9, 0x14] @ chash cr [Sha256New, Ripemd160New] k @ [0x88, 0xac]))"
    by (subst spec_format [OF _ Formats_lookup(6)])
      (simp_all add: is_pubkey_name_def IHash_def p2pkh IPushBytes_Bytes_def IHashInfo_Bytes_def push)
  show ?thesis
    unfolding Let_def using p2pkh p2pk p2wpkh wrapped wsh by (simp only: spec simp_thms)
qed

theorem standard_scripts_witness:
  "fst (Generate toy_crypto ''p2pk'' (New sample_pub)) = Inr (0x21 # (2 # replicate 32 5) @ [0xac])"
proof -
  have lens: "compressed sample_pub = Some (2 # replicate 32 5)" "length (2 # replicate 32 (5 :: byte)) = 33"
    "length (chash toy_crypto [Sha256New, Ripemd160New] b) = 20" "length (chash toy_crypto [Sha256New] b) = 32" for b
    by (simp_all add: sample_pub_def toy_crypto_def)
  from standard_scripts [OF script_reachable.fresh lens] show ?thesis
    by (simp add: Let_def)
qed

lemma no_panic_ITaprootTweak [no_panics]: "no_panic (ITaprootTweak_Bytes cr b)"
  by (auto simp: ITaprootTweak_Bytes_def taprootXOnlyFromPubKey_def taprootTweakPubKey_def taprootLiftX_def slice_from_def subslice_def Let_def
      intro!: no_panic_bindE split: option.split)

lemma no_panic_getPubKeyBytes: "no_panic (pkix pk) \<Longrightarrow> no_panic (getPubKeyBytes pk name)"
  by (auto simp: getPubKeyBytes_def export_error_def split: option.split)

lemma no_panic_spec_bytes: "(\<And>l. l \<in> set (lookups p) \<Longrightarrow> no_panic (gen l)) \<Longrightarrow> no_panic (spec_bytes cr gen p)"
  by (induction p) (auto simp: IPushBytes_Bytes_def IHashInfo_Bytes_def intro!: no_panic_bindE no_panics)

lemma no_panic_spec: "no_panic (pkix pk) \<Longrightarrow> rank name \<le> n \<Longrightarrow> no_panic (spec_at cr pk n name)"
proof (induction n arbitrary: name)
  case 0
  then show ?case using rank_bounds(1) [of name] by simp
next
  case (Suc n)
  have "no_panic (bindE (mapE (spec_bytes cr (spec_at cr pk n)) f) (\<lambda>ps. Inr (concat ps)))" if "map_of Formats name = Some f" for f
  proof (intro no_panic_bindE no_panic_mapE no_panic_spec_bytes no_panic_simps(1))
    fix p l assume "p \<in> set f" "l \<in> set (lookups p)"
    from lookup_rank [OF that this] Suc.prems show "no_panic (spec_at cr pk n l)" by (intro Suc.IH) simp_all
  qed
  then show ?case using no_panic_getPubKeyBytes [OF Suc.prems(1)] by (auto split: option.split)
qed

lemma insertable_bytes_cong: "(\<And>l. l \<in> set (lookups p) \<Longrightarrow> g l = h l) \<Longrightarrow> insertable_bytes cr g p c = insertable_bytes cr h p c"
  by (induction p) simp_all

lemma format_pieces_cong:
  "(\<And>p l. p \<in> set f \<Longrightarrow> l \<in> set (lookups p) \<Longrightarrow> g l = h l) \<Longrightarrow> format_pieces cr g f c = format_pieces cr h f c"
proof (induction f arbitrary: c)
  case (Cons p f)
  have "insertable_bytes cr g p c = insertable_bytes cr h p c"
    by (rule insertable_bytes_cong) (rule Cons.prems [of p], simp_all)
  moreover have "format_pieces cr g f d = format_pieces cr h f d" for d
    by (rule Cons.IH) (rule Cons.prems, simp_all)
  ultimately show ?case by (simp split: prod.split sum.split)
qed simp

lemma generate_stable: "rank name \<le> n \<Longrightarrow> rank name \<le> m \<Longrightarrow> generate cr pk n name c = generate cr pk m name c"
proof (induction n arbitrary: m name c)
  case 0
  then show ?case using rank_bounds(1) [of name] by simp
next
  case (Suc n)
  then obtain k where m: "m = Suc k" using rank_bounds(1) [of name] by (cases m) auto
  have "format_pieces cr (generate cr pk n) f c = format_pieces cr (generate cr pk k) f c" if "map_of Formats name = Some f" for f
  proof (intro format_pieces_cong ext)
    fix p l d assume "p \<in> set f" "l \<in> set (lookups p)"
    from lookup_rank [OF that this] Suc.prems m show "generate cr pk n l d = generate cr pk k l d" by (intro Suc.IH) simp_all
  qed
  then show ?case by (simp add: m split: option.split)
qed



end
