(* ===== verification/Info.thy ===== *)
theory Info
  imports Script
begin

text \<open>
  Classified output scripts (\<^verbatim>\<open>info.go\<close>) and the guesses of \<^verbatim>\<open>btcguess.go\<close>:
  \<open>GuessOut\<close> names the format of a script, \<open>Hash\<close> extracts what the script pays to, and
  \<open>GuessPubKeyAndHash...\<close> do the same from fixed byte patterns. A nil result is \<open>None\<close>.
\<close>

record out =
  Name :: string
  Script :: string
  Flags :: "string list"
  raw :: bytes

definition Out_Bytes :: "out \<Rightarrow> bytes" where
  "Out_Bytes o' = raw o'"

definition Out_String :: "out \<Rightarrow> string" where
  "Out_String o' = Name o' @ '':'' @ Script o'"

definition makeOut :: "string \<Rightarrow> bytes \<Rightarrow> string list \<Rightarrow> out" where
  "makeOut name script flags = \<lparr>Name = name, Script = hex_encode script, Flags = flags, raw = script\<rparr>"

abbreviation hash160 :: "'p crypto \<Rightarrow> bytes \<Rightarrow> bytes" where
  "hash160 cr \<equiv> chash cr [Sha256New, Ripemd160New]"

definition Out_Hash :: "'p crypto \<Rightarrow> out \<Rightarrow> bytes option result" where
  "Out_Hash cr o' =
     (let n = Name o'; r = raw o' in
      if n \<in> {''p2wpkh'', ''p2tr''} then bindE (slice_from r 1) (\<lambda>t. Inr (fst (ParsePushBytes t)))
      else if n \<in> {''p2pkh'', ''p2pukh''} then bindE (slice_from r 2) (\<lambda>t. Inr (fst (ParsePushBytes t)))
      else if n \<in> {''p2pk'', ''p2puk''} then
        (let pub = (case fst (ParsePushBytes r) of Some p \<Rightarrow> p | None \<Rightarrow> []) in Inr (Some (hash160 cr pub)))
      else if n = ''p2sh'' then bindE (slice_from r 1) (\<lambda>t. Inr (fst (ParsePushBytes t)))
      else if n = ''eth'' then Inr (Some r)
      else if n = ''tron'' then
        (if length r = 21 then bindE (slice_from r 1) (\<lambda>t. Inr (Some t)) else Inr None)
      else if n = ''massa'' then Inr (Some r)
      else if n = ''solana'' then Inr (Some r)
      else if n = ''cardano'' then
        (if length r \<ge> 29 then bindE (subslice r 1 29) (\<lambda>t. Inr (Some t)) else Inr None)
      else Inr None)"

definition Script_Out :: "'p crypto \<Rightarrow> string \<Rightarrow> script \<Rightarrow> out result \<times> script" where
  "Script_Out cr name s = (let (r, s) = Generate cr name s in (bindE r (\<lambda>buf. Inr (makeOut name buf [])), s))"

text \<open>The loop over candidate formats: the first one the key generates as this very script.\<close>

fun find_format :: "'p crypto \<Rightarrow> script \<Rightarrow> bytes \<Rightarrow> string list \<Rightarrow> string option" where
  "find_format cr s script [] = None"
| "find_format cr s script (e # es) =
     (case Generate cr e s of
        (Inl _, s) \<Rightarrow> find_format cr s script es
      | (Inr buf, s) \<Rightarrow> if buf = script then Some e else find_format cr s script es)"

definition guess_with :: "'p crypto \<Rightarrow> public_key option \<Rightarrow> string \<Rightarrow> string list \<Rightarrow> bytes \<Rightarrow> out" where
  "guess_with cr pubkeyhint plain names script =
     (case pubkeyhint of
        None \<Rightarrow> makeOut plain script []
      | Some pk \<Rightarrow>
          (case find_format cr (New pk) script names of
             Some e \<Rightarrow> makeOut e script []
           | None \<Rightarrow> makeOut plain script []))"

definition GuessOut :: "'p crypto \<Rightarrow> bytes \<Rightarrow> public_key option \<Rightarrow> out" where
  "GuessOut cr script pubkeyhint =
     (case script of
        [] \<Rightarrow> makeOut ''empty'' script [''invalid'']
      | b # tail \<Rightarrow>
          if b = 0 then
            (if length script = 22 then makeOut ''p2wpkh'' script []
             else if length script = 34 then makeOut ''p2wsh'' script []
             else makeOut ''invalid'' script [])
          else if b = 0x51 then
            (if length script = 34 then makeOut ''p2tr'' script [] else makeOut ''invalid'' script [])
          else if b = 0x6a then makeOut ''op_return'' script []
          else if last script = 0xac then
            (if length script = 25 \<and> take 3 script = [0x76, 0xa9, 0x14] \<and> drop 23 script = [0x88, 0xac] then
               guess_with cr pubkeyhint ''p2pkh'' [''p2pkh'', ''p2pukh''] script
             else
               case fst (ParsePushBytes script) of
                 Some v \<Rightarrow>
                   if PushBytes v @ [0xac] = script \<and> length v = 33 then makeOut ''p2pk'' script []
                   else if PushBytes v @ [0xac] = script \<and> length v = 65 then makeOut ''p2puk'' script []
                   else makeOut ''invalid'' script []
               | None \<Rightarrow> makeOut ''invalid'' script [])
          else if last script = 0x87 then
            (case fst (ParsePushBytes tail) of
               Some v \<Rightarrow>
                 if [0xa9] @ PushBytes v @ [0x87] = script then
                   guess_with cr pubkeyhint ''p2sh''
                     [''p2sh:p2pk'', ''p2sh:p2pkh'', ''p2sh:p2puk'', ''p2sh:p2pukh'', ''p2sh:p2wpkh''] script
                 else makeOut ''invalid'' script []
             | None \<Rightarrow> makeOut ''invalid'' script [])
          else makeOut ''invalid'' script [])"

text \<open>\<open>iter\<close> is the order in which Go ranges over the \<open>Formats\<close> map.\<close>

fun collect_outs :: "'p crypto \<Rightarrow> script \<Rightarrow> string list \<Rightarrow> out list" where
  "collect_outs cr s [] = []"
| "collect_outs cr s (name # names) =
     (case Script_Out cr name s of
        (Inl _, s) \<Rightarrow> collect_outs cr s names
      | (Inr o', s) \<Rightarrow> o' # collect_outs cr s names)"

definition GetOuts :: "'p crypto \<Rightarrow> (string list \<Rightarrow> string list) \<Rightarrow> public_key \<Rightarrow> out list" where
  "GetOuts cr iter pk = collect_outs cr (New pk) (iter (map fst Formats))"

section \<open>Guesses from byte patterns\<close>

definition GuessPubKeyAndHashByOutScript :: "'p crypto \<Rightarrow> bytes \<Rightarrow> bytes option \<times> bytes option" where
  "GuessPubKeyAndHashByOutScript cr s =
     (if length s = 25 \<and> s ! 0 = 0x76 \<and> s ! 1 = 0xa9 \<and> s ! 2 = 0x14 \<and> s ! 23 = 0x88 \<and> s ! 24 = 0xac then
        (None, Some (take 20 (drop 3 s)))
      else if length s = 23 \<and> s ! 0 = 0xa9 \<and> s ! 1 = 0x14 \<and> s ! 22 = 0x87 then
        (None, Some (take 20 (drop 2 s)))
      else if length s = 35 \<and> s ! 0 = 0x21 \<and> s ! 34 = 0xac then
        (let pubKey = take 33 (drop 1 s) in (Some pubKey, Some (hash160 cr pubKey)))
      else if length s = 67 \<and> s ! 0 = 0x41 \<and> s ! 66 = 0xac then
        (let pubKey = take 65 (drop 1 s) in (Some pubKey, Some (hash160 cr pubKey)))
      else if length s = 22 \<and> s ! 0 = 0 \<and> s ! 1 = 0x14 then (None, Some (take 20 (drop 2 s)))
      else if length s = 34 \<and> s ! 0 = 0 \<and> s ! 1 = 0x20 then (None, Some (take 32 (drop 2 s)))
      else if length s = 34 \<and> s ! 0 = 0x51 \<and> s ! 1 = 0x20 then (None, Some (take 32 (drop 2 s)))
      else (None, None))"

definition isPlausibleSecp256k1PubKey :: "bytes \<Rightarrow> bool" where
  "isPlausibleSecp256k1PubKey b =
     (if length b = 33 then b ! 0 = 2 \<or> b ! 0 = 3 else if length b = 65 then b ! 0 = 4 else False)"

definition GuessPubKeyAndHashByInScript :: "'p crypto \<Rightarrow> bytes \<Rightarrow> (bytes option \<times> bytes option) result" where
  "GuessPubKeyAndHashByInScript cr s =
     (case ParsePushBytes s of
        (None, pos1) \<Rightarrow> Inr (None, None)
      | (Some push1, pos1) \<Rightarrow>
          bindE (slice_from s pos1) (\<lambda>t.
            case fst (ParsePushBytes t) of
              None \<Rightarrow> Inr (None, None)
            | Some push2 \<Rightarrow>
                if isPlausibleSecp256k1PubKey push2 then Inr (Some push2, Some (hash160 cr push2))
                else Inr (None, None)))"

section \<open>How a script is recognised\<close>

lemma makeOut_simps [simp]:
  "Name (makeOut n s f) = n" "out.Script (makeOut n s f) = hex_encode s" "raw (makeOut n s f) = s"
  "Flags (makeOut n s f) = f" for n
  by (simp_all add: makeOut_def)

lemma guess_with_cases:
  "\<exists>n \<in> insert plain (set names). guess_with cr hint plain names script = makeOut n script []"
proof -
  have "find_format cr s script names = Some e \<Longrightarrow> e \<in> set names" for s e
    by (induction names arbitrary: s) (auto split: prod.splits sum.splits if_splits)
  then show ?thesis
    by (auto simp: guess_with_def split: option.splits)
qed

text \<open>The shapes of the standard scripts.\<close>

definition key_hash_script :: "bytes \<Rightarrow> bytes" where
  "key_hash_script h = [0x76, 0xa9, 0x14] @ h @ [0x88, 0xac]"

definition key_script :: "bytes \<Rightarrow> bytes" where
  "key_script k = PushBytes k @ [0xac]"

definition script_hash_script :: "bytes \<Rightarrow> bytes" where
  "script_hash_script h = [0xa9] @ PushBytes h @ [0x87]"

abbreviation key_hash_names :: "string list" where
  "key_hash_names \<equiv> [''p2pkh'', ''p2pukh'']"

abbreviation script_hash_names :: "string list" where
  "script_hash_names \<equiv> [''p2sh:p2pk'', ''p2sh:p2pkh'', ''p2sh:p2puk'', ''p2sh:p2pukh'', ''p2sh:p2wpkh'']"

lemma GuessOut_key_hash:
  "length h = 20 \<Longrightarrow> GuessOut cr (key_hash_script h) hint =
    guess_with cr hint ''p2pkh'' key_hash_names (key_hash_script h)"
  by (simp add: GuessOut_def key_hash_script_def)

lemma GuessOut_script_hash:
  "length h < 2 ^ 32 \<Longrightarrow> GuessOut cr (script_hash_script h) hint =
    guess_with cr hint ''p2sh'' script_hash_names (script_hash_script h)"
  by (simp add: GuessOut_def script_hash_script_def ParsePushBytes_PushBytes_append)

lemma GuessOut_key:
  assumes "length k = 33 \<or> length k = 65"
  shows "GuessOut cr (key_script k) hint =
    makeOut (if length k = 33 then ''p2pk'' else ''p2puk'') (key_script k) []"
proof -
  have "ParsePushBytes (key_script k) = (Some k, length (PushBytes k))"
    unfolding key_script_def by (rule ParsePushBytes_PushBytes_append) (use assms in auto)
  moreover have "key_script k = word_of_nat (length k) # k @ [0xac]"
    using assms by (auto simp: key_script_def PushBytes_def)
  moreover have "length (key_script k) \<noteq> 25"
    using assms by (auto simp: key_script_def PushBytes_def)
  ultimately show ?thesis
    using assms by (auto simp: GuessOut_def key_script_def)
qed

lemma take_drop_shape:
  "length s = 25 \<Longrightarrow> take 3 s = a \<Longrightarrow> drop 23 s = b \<Longrightarrow> s = a @ take 20 (drop 3 s) @ b"
proof -
  assume *: "length s = 25" "take 3 s = a" "drop 23 s = b"
  have "s = take 3 s @ take 20 (drop 3 s) @ drop 20 (drop 3 s)"
    by (metis append_take_drop_id)
  then show ?thesis
    using * by simp
qed

lemma GuessOut_body:
  assumes "b \<noteq> 0" "b \<noteq> 0x51" "b \<noteq> 0x6a" and script: "script = b # t"
    and "\<not> (length script = 25 \<and> take 3 script = [0x76, 0xa9, 0x14] \<and> drop 23 script = [0x88, 0xac])"
  shows "GuessOut cr script hint =
    (if last script = 0xac then
       (case fst (ParsePushBytes script) of
          Some v \<Rightarrow>
            if PushBytes v @ [0xac] = script \<and> length v = 33 then makeOut ''p2pk'' script []
            else if PushBytes v @ [0xac] = script \<and> length v = 65 then makeOut ''p2puk'' script []
            else makeOut ''invalid'' script []
        | None \<Rightarrow> makeOut ''invalid'' script [])
     else if last script = 0x87 then
       (case fst (ParsePushBytes t) of
          Some v \<Rightarrow>
            if [0xa9] @ PushBytes v @ [0x87] = script then guess_with cr hint ''p2sh'' script_hash_names script
            else makeOut ''invalid'' script []
        | None \<Rightarrow> makeOut ''invalid'' script [])
     else makeOut ''invalid'' script [])"
  using assms unfolding GuessOut_def by (simp only: list.case if_False simp_thms)

lemma GuessOut_other:
  assumes "b \<noteq> 0" "b \<noteq> 0x51" "b \<noteq> 0x6a" "script = b # t"
    and "\<not> (length script = 25 \<and> take 3 script = [0x76, 0xa9, 0x14] \<and> drop 23 script = [0x88, 0xac])"
  obtains (no) "GuessOut cr script hint = makeOut ''invalid'' script []"
  | (sig) v where "PushBytes v @ [0xac] = script" "length v = 33 \<or> length v = 65"
  | (sh) v where "[0xa9] @ PushBytes v @ [0x87] = script"
      "GuessOut cr script hint = guess_with cr hint ''p2sh'' script_hash_names script"
proof (cases "last script = 0xac")
  case last: True
  show thesis
  proof (cases "fst (ParsePushBytes script)")
    case None
    with last GuessOut_body [OF assms, of cr hint] show thesis
      by (intro no) (simp del: ParsePushBytes.simps)
  next
    case (Some v)
    show thesis
    proof (cases "PushBytes v @ [0xac] = script \<and> (length v = 33 \<or> length v = 65)")
      case True
      with sig show thesis by blast
    next
      case False
      with Some last GuessOut_body [OF assms, of cr hint] show thesis
        by (intro no) (auto simp del: ParsePushBytes.simps)
    qed
  qed
next
  case last: False
  show thesis
  proof (cases "last script = 0x87 \<and> fst (ParsePushBytes t) \<noteq> None")
    case True
    then obtain v where v: "fst (ParsePushBytes t) = Some v" by auto
    note body = GuessOut_body [OF assms, of cr hint]
    show thesis
    proof (cases "[0xa9] @ PushBytes v @ [0x87] = script")
      case c: True
      moreover have "GuessOut cr script hint = guess_with cr hint ''p2sh'' script_hash_names script"
        using body v True last c by (simp del: ParsePushBytes.simps)
      ultimately show thesis by (rule sh)
    next
      case False
      with v True last body show thesis
        by (intro no) (simp del: ParsePushBytes.simps)
    qed
  next
    case False
    with last GuessOut_body [OF assms, of cr hint] show thesis
      by (intro no) (auto simp del: ParsePushBytes.simps)
  qed
qed

text \<open>What \<open>GuessOut\<close> can answer, and for which scripts.\<close>

lemma GuessOut_cases:
  obtains (empty) "script = []" "GuessOut cr script hint = makeOut ''empty'' script [''invalid'']"
  | (invalid) "GuessOut cr script hint = makeOut ''invalid'' script []"
  | (op_return) t where "script = 0x6a # t" "GuessOut cr script hint = makeOut ''op_return'' script []"
  | (p2wpkh) t where "script = 0 # t" "length t = 21" "GuessOut cr script hint = makeOut ''p2wpkh'' script []"
  | (p2wsh) t where "script = 0 # t" "length t = 33" "GuessOut cr script hint = makeOut ''p2wsh'' script []"
  | (p2tr) t where "script = 0x51 # t" "length t = 33" "GuessOut cr script hint = makeOut ''p2tr'' script []"
  | (key_hash) h where "script = key_hash_script h" "length h = 20"
      "GuessOut cr script hint = guess_with cr hint ''p2pkh'' key_hash_names script"
  | (key) k where "script = key_script k" "length k = 33 \<or> length k = 65"
      "GuessOut cr script hint = makeOut (if length k = 33 then ''p2pk'' else ''p2puk'') script []"
  | (script_hash) h where "script = script_hash_script h"
      "GuessOut cr script hint = guess_with cr hint ''p2sh'' script_hash_names script"
proof (cases "length script = 25 \<and> take 3 script = [0x76, 0xa9, 0x14] \<and> drop 23 script = [0x88, 0xac]")
  case True
  then have "script = key_hash_script (take 20 (drop 3 script))" "length (take 20 (drop 3 script)) = 20"
    using take_drop_shape [of script "[0x76, 0xa9, 0x14]" "[0x88, 0xac]"] by (simp_all add: key_hash_script_def)
  then show thesis
    using GuessOut_key_hash [of "take 20 (drop 3 script)" cr hint] key_hash by metis
next
  case False
  show thesis
  proof (cases script)
    case Nil
    then show thesis by (intro empty) (simp_all add: GuessOut_def)
  next
    case (Cons b t)
    show thesis
    proof (cases "b = 0 \<or> b = 0x51 \<or> b = 0x6a")
      case True
      then consider "b = 0" "length t = 21" | "b = 0" "length t = 33" | "b = 0" "length t \<noteq> 21" "length t \<noteq> 33"
        | "b = 0x51" "length t = 33" | "b = 0x51" "length t \<noteq> 33" | "b = 0x6a"
        by blast
      then show thesis
      proof cases
        case 1
        with Cons show thesis by (intro p2wpkh [of t]) (simp_all add: GuessOut_def)
      next
        case 2
        with Cons show thesis by (intro p2wsh [of t]) (simp_all add: GuessOut_def)
      next
        case 3
        with Cons show thesis by (intro invalid) (simp add: GuessOut_def)
      next
        case 4
        with Cons show thesis by (intro p2tr [of t]) (simp_all add: GuessOut_def)
      next
        case 5
        with Cons show thesis by (intro invalid) (simp add: GuessOut_def)
      next
        case 6
        with Cons show thesis by (intro op_return [of t]) (simp_all add: GuessOut_def)
      qed
    next
      case b: False
      from b have b: "b \<noteq> 0" "b \<noteq> 0x51" "b \<noteq> 0x6a" by simp_all
      show thesis
      proof (cases rule: GuessOut_other [OF b Cons False, of cr hint, case_names no sig sh])
        case (sig v)
        then have s: "script = key_script v" by (simp add: key_script_def)
        from key [OF this sig(2)] GuessOut_key [OF sig(2), of cr hint] show thesis
          by (simp add: s)
      next
        case (sh v)
        from sh(1) have "script = script_hash_script v" by (simp add: script_hash_script_def)
        then show thesis using sh(2) by (rule script_hash)
      next
        case no
        then show thesis by (rule invalid)
      qed
    qed
  qed
qed

lemma raw_guess_with [simp]: "raw (guess_with cr hint plain names script) = script"
  using guess_with_cases [of plain names cr hint script] by auto

lemma raw_GuessOut [simp]: "raw (GuessOut cr script hint) = script"
  by (cases rule: GuessOut_cases [of script cr hint]) simp_all

lemma find_format_sound:
  "script_reachable cr pk s \<Longrightarrow> find_format cr s script names = Some e \<Longrightarrow>
    e \<in> set names \<and> script_spec cr pk e = Inr script"
proof (induction names arbitrary: s)
  case (Cons n ns)
  obtain r s' where g: "Generate cr n s = (r, s')" by (cases "Generate cr n s")
  have r: "r = script_spec cr pk n" "script_reachable cr pk s'"
    using Generate_reachable [OF Cons.prems(1), of n] script_reachable.asked [OF Cons.prems(1), of n] g by auto
  show ?case
  proof (cases r)
    case (Inl e)
    then show ?thesis using Cons.IH [OF r(2)] Cons.prems(2) g by simp
  next
    case (Inr b)
    then show ?thesis using Cons.IH [OF r(2)] Cons.prems(2) g r(1) by (auto split: if_splits)
  qed
qed simp

lemma find_format_complete:
  "script_reachable cr pk s \<Longrightarrow> find_format cr s script names = None \<Longrightarrow>
    e \<in> set names \<Longrightarrow> script_spec cr pk e \<noteq> Inr script"
proof (induction names arbitrary: s)
  case (Cons n ns)
  obtain r s' where g: "Generate cr n s = (r, s')" by (cases "Generate cr n s")
  have r: "r = script_spec cr pk n" "script_reachable cr pk s'"
    using Generate_reachable [OF Cons.prems(1), of n] script_reachable.asked [OF Cons.prems(1), of n] g by auto
  show ?case
  proof (cases r)
    case (Inl x)
    then show ?thesis using Cons.IH [OF r(2)] Cons.prems(2,3) g r(1) by auto
  next
    case (Inr b)
    then show ?thesis using Cons.IH [OF r(2)] Cons.prems(2,3) g r(1) by (auto split: if_splits)
  qed
qed simp

section \<open>What a script pays to\<close>

lemma slice_from_Cons: "slice_from (b # t) 1 = Inr t" "slice_from (b # c # t) 2 = Inr t"
  by simp_all

lemma PushBytes_20: "length h = 20 \<Longrightarrow> PushBytes h = 0x14 # h"
  by (simp add: PushBytes_def)

lemma parse_push_20: "length h = 20 \<Longrightarrow> ParsePushBytes (0x14 # h @ r) = (Some h, 21)"
  using ParsePushBytes_PushBytes_append [of h r] by (simp add: PushBytes_20 del: ParsePushBytes.simps)

lemma Out_Hash_key_hash:
  "length h = 20 \<Longrightarrow> n \<in> set key_hash_names \<Longrightarrow>
    Out_Hash cr (makeOut n (key_hash_script h) []) = Inr (Some h)"
  by (auto simp: Out_Hash_def Let_def key_hash_script_def parse_push_20 slice_from_Cons
      simp del: ParsePushBytes.simps)

lemma Out_Hash_key:
  "length k = 33 \<or> length k = 65 \<Longrightarrow>
    Out_Hash cr (makeOut (if length k = 33 then ''p2pk'' else ''p2puk'') (key_script k) []) = Inr (Some (hash160 cr k))"
  using ParsePushBytes_PushBytes_append [of k "[0xac]"]
  by (auto simp: Out_Hash_def Let_def key_script_def simp del: ParsePushBytes.simps)

lemma Out_Hash_script_hash:
  "length h < 2 ^ 32 \<Longrightarrow> Out_Hash cr (makeOut ''p2sh'' (script_hash_script h) []) = Inr (Some h)"
  using ParsePushBytes_PushBytes_append [of h "[0x87]"]
  by (simp add: Out_Hash_def Let_def script_hash_script_def del: ParsePushBytes.simps)

lemma Out_Hash_no_panic:
  assumes "raw o' \<noteq> []" and "Name o' \<in> set key_hash_names \<Longrightarrow> 2 \<le> length (raw o')"
  shows "no_panic (Out_Hash cr o')"
  using assms by (cases "raw o'") (auto simp: Out_Hash_def Let_def simp del: ParsePushBytes.simps)

lemma guess_with_Name:
  "Name (guess_with cr hint plain names script) \<in> insert plain (set names)"
  using guess_with_cases [of plain names cr hint script] by auto

lemma no_panic_Out_Hash_GuessOut: "no_panic (Out_Hash cr (GuessOut cr script hint))"
proof (cases rule: GuessOut_cases [of script cr hint])
  case empty
  then show ?thesis by (simp add: Out_Hash_def Let_def)
next
  case invalid
  then show ?thesis by (simp add: Out_Hash_def Let_def)
next
  case (key k)
  then show ?thesis
    by (intro Out_Hash_no_panic) (auto simp: key_script_def)
next
  case (key_hash h)
  then show ?thesis
    by (intro Out_Hash_no_panic) (simp_all add: key_hash_script_def)
next
  case (script_hash h)
  have "Name (GuessOut cr script hint) \<notin> set key_hash_names"
    using guess_with_Name [of cr hint "''p2sh''" script_hash_names script] script_hash by auto
  then show ?thesis
    using script_hash by (intro Out_Hash_no_panic) (simp_all add: script_hash_script_def)
qed (intro Out_Hash_no_panic; simp)+

text \<open>The byte patterns, as the shapes they describe.\<close>

lemma take_nths: "1 \<le> length s \<Longrightarrow> take 1 s = [s ! 0]" "2 \<le> length s \<Longrightarrow> take 2 s = [s ! 0, s ! 1]"
  "3 \<le> length s \<Longrightarrow> take 3 s = [s ! 0, s ! 1, s ! 2]"
  by (cases s; cases "tl s"; cases "tl (tl s)"; simp add: eval_nat_numeral)+

lemma drop_nths: "length s = n + 1 \<Longrightarrow> drop n s = [s ! n]" "length s = n + 2 \<Longrightarrow> drop n s = [s ! n, s ! (n + 1)]"
  using Cons_nth_drop_Suc [of n s] Cons_nth_drop_Suc [of "n + 1" s] by simp_all

lemma cut_middle: "s = take a s @ take m (drop a s) @ drop (m + a) s"
  by (metis append_take_drop_id drop_drop)

lemma nth_shape_25:
  assumes "length s = 25" "s ! 0 = 0x76" "s ! 1 = 0xa9" "s ! 2 = 0x14" "s ! 23 = 0x88" "s ! 24 = 0xac"
  shows "s = key_hash_script (take 20 (drop 3 s))"
  unfolding key_hash_script_def
  using cut_middle [of s 3 20] take_nths(3) [of s] drop_nths(2) [of s 23] assms by simp

lemma nth_shape_23:
  assumes "length s = 23" "s ! 0 = 0xa9" "s ! 1 = 0x14" "s ! 22 = 0x87"
  shows "s = script_hash_script (take 20 (drop 2 s))"
  unfolding script_hash_script_def
  using cut_middle [of s 2 20] take_nths(2) [of s] drop_nths(1) [of s 22] assms by (simp add: PushBytes_20)

lemma nth_shape_key:
  assumes "length s = n + 2" "s ! 0 = word_of_nat n" "s ! (n + 1) = 0xac" "n \<le> 75"
  shows "s = key_script (take n (drop 1 s))"
proof -
  have "PushBytes (take n (drop 1 s)) = word_of_nat n # take n (drop 1 s)"
    using assms by (simp add: PushBytes_def)
  then show ?thesis
    unfolding key_script_def
    using cut_middle [of s 1 n] take_nths(1) [of s] drop_nths(1) [of s "n + 1"] assms by simp
qed

lemma nth_shape_witness:
  assumes "length s = n + 2" "s ! 0 = b" "s ! 1 = word_of_nat n" "n \<le> 75"
  shows "s = b # PushBytes (take n (drop 2 s))"
proof -
  have "PushBytes (take n (drop 2 s)) = word_of_nat n # take n (drop 2 s)"
    using assms by (simp add: PushBytes_def)
  then show ?thesis
    using cut_middle [of s 2 n] take_nths(2) [of s] assms by simp
qed

lemma Out_Hash_witness:
  assumes "length h < 2 ^ 32" "n \<in> {''p2wpkh'', ''p2tr''}"
  shows "Out_Hash cr (makeOut n (b # PushBytes h) []) = Inr (Some h)"
  using assms ParsePushBytes_PushBytes_append [of h "[]"]
  by (auto simp: Out_Hash_def Let_def simp del: ParsePushBytes.simps)

lemma if_chain:
  assumes "snd (if c1 then (a1, b1) else if c2 then (a2, b2) else if c3 then (a3, b3) else if c4 then (a4, b4)
    else if c5 then (a5, b5) else if c6 then (a6, b6) else if c7 then (a7, b7) else (a8, None)) = Some h"
  shows "c1 \<and> b1 = Some h \<or> c2 \<and> b2 = Some h \<or> c3 \<and> b3 = Some h \<or> c4 \<and> b4 = Some h \<or>
    c5 \<and> b5 = Some h \<or> c6 \<and> b6 = Some h \<or> c7 \<and> b7 = Some h"
  using assms by (simp split: if_splits)

lemma pattern_shapes:
  assumes "snd (GuessPubKeyAndHashByOutScript cr s) = Some h"
  shows "s = key_hash_script h \<and> length h = 20 \<or> s = script_hash_script h \<and> length h = 20 \<or>
    (\<exists>k. s = key_script k \<and> (length k = 33 \<or> length k = 65) \<and> h = hash160 cr k) \<or>
    s = 0 # PushBytes h \<and> length h = 20 \<or> s = 0x51 # PushBytes h \<and> length h = 32 \<or>
    length s = 34 \<and> s ! 0 = 0"
proof -
  from if_chain [OF assms [unfolded GuessPubKeyAndHashByOutScript_def Let_def]] consider
      (kh) "length s = 25" "s ! 0 = 0x76" "s ! 1 = 0xa9" "s ! 2 = 0x14" "s ! 23 = 0x88" "s ! 24 = 0xac"
        "h = take 20 (drop 3 s)"
    | (sh) "length s = 23" "s ! 0 = 0xa9" "s ! 1 = 0x14" "s ! 22 = 0x87" "h = take 20 (drop 2 s)"
    | (k33) "length s = 35" "s ! 0 = 0x21" "s ! 34 = 0xac" "h = hash160 cr (take 33 (drop 1 s))"
    | (k65) "length s = 67" "s ! 0 = 0x41" "s ! 66 = 0xac" "h = hash160 cr (take 65 (drop 1 s))"
    | (wpkh) "length s = 22" "s ! 0 = 0" "s ! 1 = 0x14" "h = take 20 (drop 2 s)"
    | (wsh) "length s = 34" "s ! 0 = 0"
    | (tr) "length s = 34" "s ! 0 = 0x51" "s ! 1 = 0x20" "h = take 32 (drop 2 s)"
    by (elim disjE conjE) (simp_all only: option.inject)
  then show ?thesis
  proof cases
    case kh
    then show ?thesis using nth_shape_25 [of s] by simp
  next
    case sh
    then show ?thesis using nth_shape_23 [of s] by simp
  next
    case k33
    then have "s = key_script (take 33 (drop 1 s))" by (intro nth_shape_key) simp_all
    moreover have "length (take 33 (drop 1 s)) = 33" using k33 by simp
    ultimately show ?thesis using k33(4) by blast
  next
    case k65
    then have "s = key_script (take 65 (drop 1 s))" by (intro nth_shape_key) simp_all
    moreover have "length (take 65 (drop 1 s)) = 65" using k65 by simp
    ultimately show ?thesis using k65(4) by blast
  next
    case wpkh
    then have "s = 0 # PushBytes (take 20 (drop 2 s))" by (intro nth_shape_witness) simp_all
    then show ?thesis using wpkh by simp
  next
    case wsh
    then show ?thesis by simp
  next
    case tr
    then have "s = 0x51 # PushBytes (take 32 (drop 2 s))" by (intro nth_shape_witness) simp_all
    then show ?thesis using tr by simp
  qed
qed

section \<open>Properties\<close>



text \<open>
  With the key as a hint, \<open>GuessOut\<close> names a hashed script by a format under which that key
  really generates it, and it does find such a format whenever there is one.
\<close>

theorem GuessOut_finds_key:
  assumes "e \<in> set key_hash_names \<and> script = key_hash_script h \<and> length h = 20 \<or>
      e \<in> set script_hash_names \<and> script = script_hash_script h \<and> length h < 2 ^ 32"
    and "fst (Generate cr e (New pk)) = Inr script"
  shows "\<exists>e' \<in> set (key_hash_names @ script_hash_names).
    Name (GuessOut cr script (Some pk)) = e' \<and> fst (Generate cr e' (New pk)) = Inr script"
proof -
  note gen = Generate_reachable [OF script_reachable.fresh [of cr pk]]
  have found: "\<exists>e' \<in> set names. Name (guess_with cr (Some pk) plain names script) = e' \<and>
      fst (Generate cr e' (New pk)) = Inr script" if "e \<in> set names" for plain names
    using that assms(2) find_format_sound [OF script_reachable.fresh, of cr pk script names]
      find_format_complete [OF script_reachable.fresh, of cr pk script names e] gen
    by (auto simp: guess_with_def split: option.split)
  from assms(1) show ?thesis
  proof
    assume "e \<in> set key_hash_names \<and> script = key_hash_script h \<and> length h = 20"
    then show ?thesis
      using found [of key_hash_names "''p2pkh''"] GuessOut_key_hash [of h cr "Some pk"] by auto
  next
    assume "e \<in> set script_hash_names \<and> script = script_hash_script h \<and> length h < 2 ^ 32"
    then show ?thesis
      using found [of script_hash_names "''p2sh''"] GuessOut_script_hash [of h cr "Some pk"] by auto
  qed
qed

theorem GuessOut_finds_key_witness:
  "\<exists>script. fst (Generate toy_crypto ''p2sh:p2wpkh'' (New sample_pub)) = Inr script \<and>
    Name (GuessOut toy_crypto script (Some sample_pub)) \<in> set (key_hash_names @ script_hash_names)"
proof -
  let ?k = "2 # replicate 32 5 :: bytes"
  let ?h = "hash160 toy_crypto ([0, 0x14] @ hash160 toy_crypto ?k)"
  have lens: "compressed sample_pub = Some ?k" "length ?k = 33"
    "length (chash toy_crypto [Sha256New, Ripemd160New] b) = 20" "length (chash toy_crypto [Sha256New] b) = 32" for b
    by (simp_all add: sample_pub_def toy_crypto_def)
  have gen: "fst (Generate toy_crypto ''p2sh:p2wpkh'' (New sample_pub)) = Inr (script_hash_script ?h)"
    using standard_scripts [OF script_reachable.fresh lens] lens(3)
    by (simp add: Let_def script_hash_script_def PushBytes_20)
  moreover have "''p2sh:p2wpkh'' \<in> set script_hash_names \<and> script_hash_script ?h = script_hash_script ?h \<and>
      length ?h < 2 ^ 32"
    using lens(3) by simp
  ultimately show ?thesis
    using GuessOut_finds_key [of "''p2sh:p2wpkh''" "script_hash_script ?h" ?h toy_crypto sample_pub] by blast
qed

end
