(* ===== verification/Reward.thy ===== *)
theory Reward
  imports Prelude
begin

text \<open>
  Block rewards (\<^verbatim>\<open>reward.go\<close>). A \<open>big.Int\<close> is an \<open>int\<close>; heights and counts of
  blocks stay 64-bit words, with the wrap-around of Go's \<open>uint64\<close>, and \<open>int64(x)\<close> is
  \<open>sint x\<close>.
\<close>

datatype reward_model = modelHalving | modelDoge | modelDash | modelZero

record chain_info =
  model :: reward_model
  initialReward :: int
  halvingInterval :: "64 word"

definition halving_chain :: "int \<Rightarrow> 64 word \<Rightarrow> chain_info" where
  "halving_chain r n = \<lparr>model = modelHalving, initialReward = r, halvingInterval = n\<rparr>"

definition chainConfigs :: "(string \<times> chain_info) list" where
  "chainConfigs =
    [(''bitcoin'', halving_chain 5000000000 210000),
     (''namecoin'', halving_chain 5000000000 210000),
     (''bitcoin-cash'', halving_chain 5000000000 210000),
     (''bitcoin-testnet'', halving_chain 5000000000 210000),
     (''litecoin'', halving_chain 5000000000 840000),
     (''monacoin'', halving_chain 5000000000 1051200),
     (''dogecoin'', \<lparr>model = modelDoge, initialReward = 0, halvingInterval = 0\<rparr>),
     (''dash'', \<lparr>model = modelDash, initialReward = 5 * 100000000, halvingInterval = 0\<rparr>),
     (''electraproto'', \<lparr>model = modelZero, initialReward = 0, halvingInterval = 0\<rparr>)]"

section \<open>The reward of one block\<close>

definition halvingBlockReward :: "int \<Rightarrow> 64 word \<Rightarrow> 64 word \<Rightarrow> int" where
  "halvingBlockReward baseReward interval blockHeight =
     (let halvingCount = blockHeight div interval in
      if halvingCount > 32 then 0 else drop_bit (unat halvingCount) baseReward)"

definition dogeBlockReward :: "64 word \<Rightarrow> int" where
  "dogeBlockReward blockHeight =
     (if blockHeight \<ge> 600000 then 10000 * 100000000
      else
        let halvingIndex = blockHeight div 100000;
            doge = drop_bit (unat halvingIndex) 1000000
        in doge * 100000000)"

definition dashBlockReward :: "int \<Rightarrow> 64 word \<Rightarrow> int" where
  "dashBlockReward baseReward blockHeight =
     (let yearsElapsed = blockHeight div 210240;
          numerator = 13 ^ nat (sint yearsElapsed);
          denominator = 14 ^ nat (sint yearsElapsed)
      in baseReward * numerator div denominator)"

definition BlockReward :: "string \<Rightarrow> 64 word \<Rightarrow> int result" where
  "BlockReward network blockHeight =
     (case map_of chainConfigs network of
        None \<Rightarrow> fail (''unsupported network: '' @ network)
      | Some info \<Rightarrow>
          (case model info of
             modelHalving \<Rightarrow> Inr (halvingBlockReward (initialReward info) (halvingInterval info) blockHeight)
           | modelDoge \<Rightarrow> Inr (dogeBlockReward blockHeight)
           | modelDash \<Rightarrow> Inr (dashBlockReward (initialReward info) blockHeight)
           | modelZero \<Rightarrow> Inr 0))"

section \<open>The reward of all blocks up to a height\<close>

text \<open>The loop over halving intervals, with \<open>k\<close> of its 33 rounds to go.\<close>

fun halving_loop :: "nat \<Rightarrow> 64 word \<Rightarrow> 64 word \<Rightarrow> int \<Rightarrow> int \<Rightarrow> int" where
  "halving_loop 0 interval blocksNeeded reward tot = tot"
| "halving_loop (Suc k) interval blocksNeeded reward tot =
     (if blocksNeeded > 0 \<and> reward > 0 then
        let intervalSize = (if blocksNeeded < interval then blocksNeeded else interval);
            chunk = sint intervalSize * reward
        in halving_loop k interval (blocksNeeded - intervalSize) (drop_bit 1 reward) (tot + chunk)
      else tot)"

definition cumulativeHalvingRewards :: "int \<Rightarrow> 64 word \<Rightarrow> 64 word \<Rightarrow> int" where
  "cumulativeHalvingRewards baseReward interval blockHeight =
     halving_loop 33 interval (blockHeight + 1) baseReward 0"

text \<open>The six intervals of Dogecoin; the flag is the early return.\<close>

fun doge_loop :: "64 word \<Rightarrow> nat list \<Rightarrow> int \<Rightarrow> 64 word \<Rightarrow> int \<times> 64 word \<times> bool" where
  "doge_loop blockHeight [] tot blocksAccounted = (tot, blocksAccounted, False)"
| "doge_loop blockHeight (i # is) tot blocksAccounted =
     (let intervalStart = 100000 * word_of_nat i; intervalEnd = 100000 * word_of_nat (i + 1) in
      if blockHeight < intervalStart then (tot, blocksAccounted, False)
      else
        let dogeRewardShibes = drop_bit i 1000000 * 100000000;
            effectiveEnd = (if blockHeight + 1 < intervalEnd then blockHeight + 1 else intervalEnd);
            blocksInInterval = effectiveEnd - intervalStart
        in if blocksInInterval > 0 then
             let tot = tot + sint blocksInInterval * dogeRewardShibes in
             if effectiveEnd > blockHeight then (tot, effectiveEnd, True)
             else doge_loop blockHeight is tot effectiveEnd
           else doge_loop blockHeight is tot blocksAccounted)"

definition cumulativeDogeRewards :: "64 word \<Rightarrow> int" where
  "cumulativeDogeRewards blockHeight =
     (let (tot, blocksAccounted, done) = doge_loop blockHeight [0..<6] 0 0 in
      if done then tot
      else if blocksAccounted \<le> blockHeight then
        tot + sint ((blockHeight + 1) - blocksAccounted) * (10000 * 100000000)
      else tot)"

definition dashYearlyBlockReward :: "int \<Rightarrow> 64 word \<Rightarrow> int" where
  "dashYearlyBlockReward baseReward yearIndex =
     (if yearIndex = 0 then baseReward
      else baseReward * 13 ^ nat (sint yearIndex) div 14 ^ nat (sint yearIndex))"

definition cumulativeDashRewards :: "int \<Rightarrow> 64 word \<Rightarrow> int" where
  "cumulativeDashRewards baseReward blockHeight =
     (let blocksPerYear = 210240;
          yearsElapsed = blockHeight div blocksPerYear;
          remainder = (blockHeight mod blocksPerYear) + 1;
          tot = fold (\<lambda>i tot. tot + dashYearlyBlockReward baseReward (word_of_nat i) * sint blocksPerYear)
                    [0..<unat yearsElapsed] 0
      in if remainder > 0 then tot + dashYearlyBlockReward baseReward yearsElapsed * sint remainder
         else tot)"

definition CumulativeReward :: "string \<Rightarrow> 64 word \<Rightarrow> int result" where
  "CumulativeReward network blockHeight =
     (case map_of chainConfigs network of
        None \<Rightarrow> fail (''unsupported network: '' @ network)
      | Some info \<Rightarrow>
          (case model info of
             modelHalving \<Rightarrow>
               Inr (cumulativeHalvingRewards (initialReward info) (halvingInterval info) blockHeight)
           | modelDoge \<Rightarrow> Inr (cumulativeDogeRewards blockHeight)
           | modelDash \<Rightarrow> Inr (cumulativeDashRewards (initialReward info) blockHeight)
           | modelZero \<Rightarrow> Inr 0))"

section \<open>Sums over intervals\<close>

text \<open>Blocks grouped in intervals of \<open>m\<close>: the value of a block depends on its interval only.\<close>

lemma sum_first_interval:
  assumes "0 < (m :: nat)" "n \<le> m"
  shows "(\<Sum>b<n. g (b div m)) = int n * g 0"
proof -
  have "(\<Sum>b<n. g (b div m)) = (\<Sum>b<n. g 0)"
    using assms by (intro sum.cong) auto
  then show ?thesis by simp
qed

lemma sum_shift_interval:
  assumes "0 < (m :: nat)"
  shows "(\<Sum>b<m + n. g (b div m)) = int m * g 0 + (\<Sum>b<n. g (Suc (b div m)))"
proof (induction n)
  case 0
  show ?case using sum_first_interval [OF assms, of m g] by simp
next
  case (Suc n)
  have "(m + n) div m = Suc (n div m)" using assms by (simp add: le_div_geq)
  with Suc show ?case by simp
qed

lemma sum_intervals:
  assumes "0 < (m :: nat)" "r \<le> m"
  shows "(\<Sum>b<k * m + r. g (b div m)) = (\<Sum>i<k. int m * g i) + int r * g k"
proof (induction k arbitrary: g)
  case 0
  show ?case using sum_first_interval [OF assms, of g] by simp
next
  case (Suc k)
  have "(\<Sum>b<Suc k * m + r. g (b div m)) = int m * g 0 + (\<Sum>b<k * m + r. g (Suc (b div m)))"
    using sum_shift_interval [OF assms(1), of g "k * m + r"] by (simp add: add.assoc)
  also have "(\<Sum>b<k * m + r. g (Suc (b div m))) = (\<Sum>i<k. int m * g (Suc i)) + int r * g (Suc k)"
    by (rule Suc.IH)
  also have "int m * g 0 + ((\<Sum>i<k. int m * g (Suc i)) + int r * g (Suc k)) =
      (\<Sum>i<Suc k. int m * g i) + int r * g (Suc k)"
    by (subst sum.lessThan_Suc_shift) simp
  finally show ?case .
qed

lemma sint_small:
  assumes "unat (w :: 64 word) < 2 ^ 63"
  shows "sint w = int (unat w)"
proof -
  have u: "uint w = int (unat w)"
    by simp
  have "int (unat w) < int (2 ^ 63)"
    using assms by (simp only: of_nat_less_iff)
  then have "uint w < 2 ^ 63"
    by simp
  then have "signed_take_bit 63 (uint w) = uint w"
    by (intro signed_take_bit_int_eq_self order_trans [of "- (2 ^ 63)" 0 "uint w"]) simp_all
  then show ?thesis
    by (simp add: sint_uint)
qed

section \<open>Halving\<close>

definition halving_at :: "int \<Rightarrow> nat \<Rightarrow> int" where
  "halving_at r i = (if i \<le> 32 then drop_bit i r else 0)"

lemma halving_loop_sum:
  assumes "0 < iv" "unat iv < 2 ^ 63"
  shows "0 \<le> r \<Longrightarrow> halving_loop k iv need r tot =
    tot + (\<Sum>b<unat need. if b div unat iv < k then drop_bit (b div unat iv) r else 0)"
proof (induction k arbitrary: need r tot)
  case (Suc k)
  let ?m = "unat iv" and ?f = "\<lambda>k r i. if i < k then drop_bit i r else (0 :: int)"
  have m: "0 < ?m"
    using assms(1) by (simp add: word_less_nat_alt)
  have step: "?f (Suc k) r (Suc i) = ?f k (drop_bit 1 r) i" for i
    by (simp add: drop_bit_drop_bit)
  show ?case
  proof (cases "need > 0 \<and> r > 0")
    case False
    then have "unat need = 0 \<or> r = 0"
      using Suc.prems by (auto simp: word_less_nat_alt)
    with False show ?thesis by (auto simp: sum.neutral)
  next
    case True
    show ?thesis
    proof (cases "need < iv")
      case less: True
      then have "unat need \<le> ?m" by (simp add: word_less_nat_alt)
      then have "sint need = int (unat need)"
        using assms(2) by (intro sint_small) linarith
      moreover have "halving_loop k iv 0 (drop_bit 1 r) t = t" for t
        by (cases k) simp_all
      ultimately show ?thesis
        using True less sum_first_interval [OF m \<open>unat need \<le> ?m\<close>, of "?f (Suc k) r"] by simp
    next
      case ge: False
      then have le: "?m \<le> unat need" by (simp add: word_less_nat_alt not_less word_le_nat_alt)
      then have u: "unat (need - iv) = unat need - ?m"
        by (simp add: unat_sub word_le_nat_alt)
      have "sint iv = int ?m" using assms(2) by (rule sint_small)
      moreover have "unat need = ?m + unat (need - iv)" using le u by simp
      ultimately show ?thesis
        using True ge Suc.IH [of "drop_bit 1 r" "need - iv" "tot + sint iv * r"] Suc.prems
          sum_shift_interval [OF m, of "?f (Suc k) r" "unat (need - iv)"] step
        by (simp add: algebra_simps)
    qed
  qed
qed simp

lemma halvingBlockReward_at:
  "halvingBlockReward r iv h = halving_at r (unat h div unat iv)"
  by (auto simp: halvingBlockReward_def halving_at_def Let_def word_less_nat_alt unat_div)

lemma cumulativeHalving_sum:
  assumes "0 < iv" "unat iv < 2 ^ 63" "0 \<le> r" "unat h + 1 < 2 ^ 64"
  shows "cumulativeHalvingRewards r iv h = (\<Sum>b\<le>unat h. halving_at r (b div unat iv))"
proof -
  have "unat (h + 1) = unat h + 1"
    using assms(4) by (simp add: unat_word_ariths)
  moreover have "i < 33 \<longleftrightarrow> i \<le> 32" for i :: nat
    by linarith
  ultimately show ?thesis
    unfolding cumulativeHalvingRewards_def halving_loop_sum [OF assms(1-3)]
    by (simp add: halving_at_def lessThan_Suc_atMost less_Suc_eq_le flip: Suc_eq_plus1 cong: if_cong)
qed

section \<open>Dash\<close>

definition dash_at :: "int \<Rightarrow> nat \<Rightarrow> int" where
  "dash_at r i = r * 13 ^ i div 14 ^ i"

lemma unat_div_bound: "unat (h div 210240 :: 64 word) < 2 ^ 63"
proof -
  have "unat h div 210240 < 9223372036854775808"
    using unat_less_64 [of h] by linarith
  then show ?thesis
    by (simp add: unat_div)
qed

lemma dashBlockReward_at: "dashBlockReward r h = dash_at r (unat h div 210240)"
  using sint_small [OF unat_div_bound, of h]
  by (simp add: dashBlockReward_def dash_at_def Let_def unat_div)

lemma dashYearly_at: "unat y < 2 ^ 63 \<Longrightarrow> dashYearlyBlockReward r y = dash_at r (unat y)"
  by (auto simp: dashYearlyBlockReward_def dash_at_def sint_small)

lemma cumulativeDash_sum:
  "cumulativeDashRewards r h = (\<Sum>b\<le>unat h. dash_at r (b div 210240))"
proof -
  let ?years = "h div 210240" and ?rem = "h mod 210240 + 1"
  have m: "unat (h mod 210240) < 210240"
    by (simp add: unat_mod)
  then have rem: "unat ?rem = unat h mod 210240 + 1"
    by (simp add: unat_word_ariths unat_mod)
  then have "sint ?rem = int (unat h mod 210240 + 1)"
    using m by (subst sint_small) (simp_all add: unat_mod)
  moreover have "?rem > 0"
    using rem by (simp add: word_less_nat_alt)
  moreover have "fold (\<lambda>i t. t + dashYearlyBlockReward r (word_of_nat i) * sint (210240 :: 64 word)) [0..<n] 0 =
      (\<Sum>i<n. int 210240 * dash_at r i)" if "n \<le> unat ?years" for n
    using that
  proof (induction n)
    case (Suc n)
    have "n < 18446744073709551616"
      using Suc.prems unat_less_64 [of ?years] by linarith
    then have "unat (word_of_nat n :: 64 word) = n"
      by (rule unat_of_nat_64)
    then have "dashYearlyBlockReward r (word_of_nat n) = dash_at r n"
      using Suc.prems unat_div_bound [of h] by (subst dashYearly_at) simp_all
    with Suc show ?case
      using sint_small [of "210240"] by simp
  qed simp
  ultimately have "cumulativeDashRewards r h =
      (\<Sum>i<unat h div 210240. int 210240 * dash_at r i) + int (unat h mod 210240 + 1) * dash_at r (unat h div 210240)"
    using dashYearly_at [OF unat_div_bound, of r h]
    by (simp add: cumulativeDashRewards_def Let_def unat_div mult.commute)
  also have "\<dots> = (\<Sum>b<unat h div 210240 * 210240 + (unat h mod 210240 + 1). dash_at r (b div 210240))"
    using sum_intervals [of 210240 "unat h mod 210240 + 1" "dash_at r" "unat h div 210240"] by simp
  also have "unat h div 210240 * 210240 + (unat h mod 210240 + 1) = Suc (unat h)"
    using div_mult_mod_eq [of "unat h" 210240] by linarith
  finally show ?thesis
    by (simp only: lessThan_Suc_atMost)
qed

section \<open>Dogecoin\<close>

definition doge_at :: "nat \<Rightarrow> int" where
  "doge_at i = (if i < 6 then drop_bit i 1000000 * 100000000 else 10000 * 100000000)"

lemma dogeBlockReward_at: "dogeBlockReward h = doge_at (unat h div 100000)"
proof -
  have "h \<ge> 600000 \<longleftrightarrow> \<not> unat h div 100000 < 6"
    by (simp add: word_le_nat_alt) linarith
  then show ?thesis
    by (simp add: dogeBlockReward_def doge_at_def Let_def unat_div)
qed

lemma doge_sum_interval:
  assumes "n \<le> 100000"
  shows "(\<Sum>b<100000 * i + n. doge_at (b div 100000)) = (\<Sum>b<100000 * i. doge_at (b div 100000)) + int n * doge_at i"
  using sum_intervals [of 100000 n doge_at i] sum_intervals [of 100000 0 doge_at i] assms
  by (simp add: mult.commute)

lemma doge_sum_late:
  "(\<Sum>b<600000 + n. doge_at (b div 100000)) = (\<Sum>b<600000. doge_at (b div 100000)) + int n * 1000000000000"
proof (induction n)
  case (Suc n)
  have "600000 + Suc n = Suc (600000 + n)" by simp
  moreover have "doge_at ((600000 + n) div 100000) = 1000000000000" by (auto simp: doge_at_def)
  ultimately show ?case using Suc by (simp only: sum.lessThan_Suc) simp
qed simp

text \<open>The loop from interval \<open>i\<close> on: it ends early exactly when the height is inside.\<close>

lemma doge_loop_sum:
  assumes "unat h < 2 ^ 63"
  shows "i \<le> 6 \<Longrightarrow> 100000 * i \<le> unat h \<or> i = 0 \<Longrightarrow> tot = (\<Sum>b<100000 * i. doge_at (b div 100000)) \<Longrightarrow>
    doge_loop h [i..<6] tot (100000 * word_of_nat i) =
      (if unat h < 600000 then ((\<Sum>b\<le>unat h. doge_at (b div 100000)), h + 1, True)
       else ((\<Sum>b<600000. doge_at (b div 100000)), 600000, False))"
proof (induction "6 - i" arbitrary: i tot)
  case 0
  then show ?case by simp
next
  case (Suc k)
  then have i: "i < 6" by simp
  have upt: "[i..<6] = i # [Suc i..<6]"
    using i by (simp add: upt_conv_Cons)
  let ?s = "100000 * word_of_nat i :: 64 word" and ?e = "100000 * word_of_nat (Suc i) :: 64 word"
  have us: "unat ?s = 100000 * i" "unat ?e = 100000 * i + 100000"
    using i by (simp_all add: unat_word_ariths unat_of_nat)
  have uh: "unat (h + 1) = unat h + 1"
    using assms by (simp add: unat_word_ariths)
  have start: "\<not> h < ?s" if "100000 * i \<le> unat h"
    using that by (simp add: word_less_nat_alt us)
  have low: "100000 * i \<le> unat h"
    using Suc.prems(2) by auto
  have reward: "drop_bit i 1000000 * 100000000 = doge_at i"
    using i by (simp add: doge_at_def)
  show ?case
  proof (cases "unat h + 1 < 100000 * i + 100000")
    case True
    let ?n = "h + 1 - ?s"
    have n: "unat ?n = unat h + 1 - 100000 * i"
      using low by (simp add: unat_sub word_le_nat_alt us uh)
    have "unat ?n < 600000"
      using n True i by linarith
    then have "sint ?n = int (unat ?n)"
      by (intro sint_small) simp
    with n low have pos: "?n > 0" "sint ?n = int (unat h + 1 - 100000 * i)"
      by (simp_all add: word_less_nat_alt del: of_nat_diff)
    have "tot + sint ?n * doge_at i = (\<Sum>b<Suc (unat h). doge_at (b div 100000))"
      using doge_sum_interval [of "unat h + 1 - 100000 * i" i] True low Suc.prems(3) pos(2) by simp
    moreover have "h + 1 < ?e" "h < h + 1"
      using True by (simp_all add: word_less_nat_alt us uh del: of_nat_add of_nat_Suc)
    moreover have "unat h < 600000"
      using True i by linarith
    ultimately show ?thesis
      using start [OF low] pos(1) unfolding upt doge_loop.simps Let_def reward
      by (simp add: lessThan_Suc_atMost)
  next
    case False
    let ?n = "?e - ?s"
    have n: "unat ?n = 100000"
      by (simp add: unat_sub word_le_nat_alt us del: of_nat_add)
    then have pos: "?n > 0" "sint ?n = 100000"
      by (simp_all add: word_less_nat_alt sint_small)
    have tot: "tot + sint ?n * doge_at i = (\<Sum>b<100000 * Suc i. doge_at (b div 100000))"
      using doge_sum_interval [of 100000 i] Suc.prems(3) pos(2) by (simp add: add.commute)
    have noe: "\<not> h + 1 < ?e"
      using False by (simp add: word_less_nat_alt us uh del: of_nat_add of_nat_Suc)
    show ?thesis
    proof (cases "unat h + 1 = 100000 * i + 100000")
      case True
      then have "?e > h" "h + 1 = ?e"
        by (simp_all add: word_less_nat_alt us uh word_unat_eq_iff del: of_nat_add of_nat_Suc)
      moreover have "unat h < 600000" using True i by linarith
      moreover have "100000 * Suc i = Suc (unat h)" using True by simp
      then have "tot + sint ?n * doge_at i = (\<Sum>b\<le>unat h. doge_at (b div 100000))"
        using tot by (simp only: lessThan_Suc_atMost)
      ultimately show ?thesis
        using start [OF low] pos(1) noe unfolding upt doge_loop.simps Let_def reward
        by (simp del: of_nat_add of_nat_Suc)
    next
      case ne: False
      then have "100000 * Suc i \<le> unat h" using False by simp
      moreover from this have "\<not> ?e > h"
        by (simp add: word_less_nat_alt us del: of_nat_add of_nat_Suc)
      ultimately show ?thesis
        using start [OF low] pos(1) noe tot Suc.hyps(1) [of "Suc i" "tot + sint ?n * doge_at i"] Suc.hyps(2) i
        unfolding upt doge_loop.simps Let_def reward by (simp del: of_nat_add of_nat_Suc)
    qed
  qed
qed

lemma cumulativeDoge_sum:
  assumes "unat h < 2 ^ 63"
  shows "cumulativeDogeRewards h = (\<Sum>b\<le>unat h. doge_at (b div 100000))"
proof (cases "unat h < 600000")
  case True
  with doge_loop_sum [OF assms, of 0 0] show ?thesis
    by (simp add: cumulativeDogeRewards_def)
next
  case False
  have loop: "doge_loop h [0..<6] 0 0 = ((\<Sum>b<600000. doge_at (b div 100000)), 600000, False)"
    using doge_loop_sum [OF assms, of 0 0] False by simp
  have uh: "unat (h + 1) = unat h + 1"
    using assms by (simp add: unat_word_ariths)
  have n: "unat (h + 1 - 600000) = unat h + 1 - 600000"
    using False by (simp add: unat_sub word_le_nat_alt uh)
  have "sint (h + 1 - 600000) = int (unat (h + 1 - 600000))"
    using n assms by (intro sint_small) simp
  then have s: "sint (h + 1 - 600000) = int (unat h + 1 - 600000)"
    by (simp only: n)
  have "600000 \<le> h"
    using False by (simp add: word_le_nat_alt)
  then have "cumulativeDogeRewards h =
      (\<Sum>b<600000. doge_at (b div 100000)) + int (unat h + 1 - 600000) * 1000000000000"
    unfolding cumulativeDogeRewards_def loop by (simp only: prod.case Let_def s if_True if_False)
  also have "\<dots> = (\<Sum>b<600000 + (unat h + 1 - 600000). doge_at (b div 100000))"
    by (simp only: doge_sum_late)
  also have "600000 + (unat h + 1 - 600000) = Suc (unat h)"
    using False by simp
  finally show ?thesis
    by (simp only: lessThan_Suc_atMost)
qed

section \<open>Properties\<close>

text \<open>The reward of the block at height \<open>b\<close>, 0 on an unknown network.\<close>

definition block_reward :: "string \<Rightarrow> nat \<Rightarrow> int" where
  "block_reward network b = (case BlockReward network (word_of_nat b) of Inr r \<Rightarrow> r | Inl e \<Rightarrow> 0)"

lemma halving_cumulative:
  assumes "0 < iv" "unat iv < 2 ^ 63" "0 \<le> r" "unat h + 1 < 2 ^ 64"
  shows "cumulativeHalvingRewards r iv h = (\<Sum>b\<le>unat h. halvingBlockReward r iv (word_of_nat b))"
proof -
  have "unat (word_of_nat b :: 64 word) = b" if "b \<le> unat h" for b
    using that assms(4) by (intro unat_of_nat_64) simp
  then show ?thesis
    by (simp add: cumulativeHalving_sum [OF assms] halvingBlockReward_at)
qed

lemma chain_cases:
  assumes "map_of chainConfigs network = Some info"
  shows "model info = modelHalving \<and> 0 < halvingInterval info \<and> unat (halvingInterval info) < 2 ^ 63 \<and>
      0 \<le> initialReward info \<or> model info \<noteq> modelHalving"
  using map_of_SomeD [OF assms] by (auto simp: chainConfigs_def halving_chain_def)

text \<open>
  C28: on every supported network, and for every height below \<open>2^63\<close>, the cumulative reward is
  the sum of the rewards of the blocks from 0 to that height, although it is computed interval by
  interval; an unknown network is refused by both functions.
\<close>

theorem cumulative_is_sum:
  assumes "unat h < 2 ^ 63"
  shows "case BlockReward network h of
      Inr _ \<Rightarrow> CumulativeReward network h = Inr (\<Sum>b\<le>unat h. block_reward network b)
    | Inl e \<Rightarrow> CumulativeReward network h = Inl e"
proof (cases "map_of chainConfigs network")
  case None
  then show ?thesis by (simp add: BlockReward_def CumulativeReward_def)
next
  case (Some info)
  have u: "unat (word_of_nat b :: 64 word) = b" if "b \<le> unat h" for b
    using that assms by (intro unat_of_nat_64) simp
  have h: "unat h + 1 < 2 ^ 64"
    using assms by simp
  show ?thesis
  proof (cases "model info")
    case modelHalving
    then have "0 < halvingInterval info" "unat (halvingInterval info) < 2 ^ 63" "0 \<le> initialReward info"
      using chain_cases [OF Some] by auto
    from halving_cumulative [OF this h] Some modelHalving show ?thesis
      by (simp add: BlockReward_def CumulativeReward_def block_reward_def)
  next
    case modelDoge
    with Some u show ?thesis
      by (simp add: BlockReward_def CumulativeReward_def block_reward_def cumulativeDoge_sum [OF assms]
          dogeBlockReward_at)
  next
    case modelDash
    with Some u show ?thesis
      by (simp add: BlockReward_def CumulativeReward_def block_reward_def cumulativeDash_sum dashBlockReward_at)
  next
    case modelZero
    with Some show ?thesis
      by (simp add: BlockReward_def CumulativeReward_def block_reward_def)
  qed
qed

theorem cumulative_is_sum_witness:
  "CumulativeReward ''dogecoin'' 700000 = Inr (\<Sum>b\<le>700000. block_reward ''dogecoin'' b)"
  using cumulative_is_sum [of 700000 "''dogecoin''"] by (simp add: BlockReward_def chainConfigs_def)

lemma halving_sum_cap:
  assumes "0 < (m :: nat)" "0 \<le> r"
  shows "(\<Sum>b<n. halving_at r (b div m)) \<le> (\<Sum>i<33. int m * halving_at r i)"
    and "33 * m \<le> n \<Longrightarrow> (\<Sum>b<n. halving_at r (b div m)) = (\<Sum>i<33. int m * halving_at r i)"
proof -
  have full: "(\<Sum>b<33 * m. halving_at r (b div m)) = (\<Sum>i<33. int m * halving_at r i)"
    using sum_intervals [OF assms(1), of 0 "halving_at r" 33] by simp
  have zero: "halving_at r (b div m) = 0" if "33 * m \<le> b" for b
  proof -
    have "33 \<le> b div m"
      using that assms(1) by (simp add: less_eq_div_iff_mult_less_eq)
    then show ?thesis by (simp add: halving_at_def)
  qed
  have nonneg: "0 \<le> halving_at r i" for i
    using assms(2) by (simp add: halving_at_def)
  have late: "(\<Sum>b<n. halving_at r (b div m)) = (\<Sum>b<33 * m. halving_at r (b div m))" if "33 * m \<le> n"
    using that zero by (intro sum.mono_neutral_right) auto
  then show "33 * m \<le> n \<Longrightarrow> (\<Sum>b<n. halving_at r (b div m)) = (\<Sum>i<33. int m * halving_at r i)"
    using full by simp
  show "(\<Sum>b<n. halving_at r (b div m)) \<le> (\<Sum>i<33. int m * halving_at r i)"
  proof (cases "33 * m \<le> n")
    case True
    with late full show ?thesis by simp
  next
    case False
    then show ?thesis
      unfolding full [symmetric] using nonneg by (intro sum_mono2) auto
  qed
qed

text \<open>
  No more than 20,999,999.9769 bitcoins are ever minted, and exactly that many once the 33
  reward intervals are over; at the single height \<open>2^64 - 1\<close> the count of blocks wraps to zero
  and the cumulative reward is 0.
\<close>

theorem bitcoin_supply:
  "\<exists>t. CumulativeReward ''bitcoin'' h = Inr t \<and> t \<le> 2099999997690000 \<and>
    (6929999 \<le> unat h \<and> h + 1 \<noteq> 0 \<longrightarrow> t = 2099999997690000) \<and> (h + 1 = 0 \<longrightarrow> t = 0)"
proof -
  have info: "CumulativeReward ''bitcoin'' h = Inr (cumulativeHalvingRewards 5000000000 210000 h)"
    by (simp add: CumulativeReward_def chainConfigs_def halving_chain_def)
  have cap: "(\<Sum>i<33. int 210000 * halving_at 5000000000 i) = 2099999997690000"
    by (simp add: lessThan_nat_numeral halving_at_def drop_bit_eq_div)
  show ?thesis
  proof (cases "h + 1 = 0")
    case True
    then have "cumulativeHalvingRewards 5000000000 210000 h = 0"
      by (simp add: cumulativeHalvingRewards_def numeral_eq_Suc)
    with info True show ?thesis by simp
  next
    case False
    have "unat h \<noteq> 18446744073709551615"
    proof
      assume "unat h = 18446744073709551615"
      then have "unat (h + 1) = 0" by (simp add: unat_word_ariths)
      then have "h + 1 = 0" by (simp only: unat_eq_zero)
      with False show False ..
    qed
    then have "unat h + 1 < 18446744073709551616"
      using unat_less_64 [of h] by linarith
    then have "unat h + 1 < 2 ^ 64" by simp
    from cumulativeHalving_sum [OF _ _ _ this, of 210000 5000000000]
    have sum: "cumulativeHalvingRewards 5000000000 210000 h = (\<Sum>b<Suc (unat h). halving_at 5000000000 (b div 210000))"
      by (simp add: lessThan_Suc_atMost word_less_nat_alt)
    show ?thesis
      unfolding info sum using halving_sum_cap [of 210000 5000000000 "Suc (unat h)"] cap False by auto
  qed
qed

theorem bitcoin_supply_witness:
  "CumulativeReward ''bitcoin'' 6929999 = Inr 2099999997690000"
  using bitcoin_supply [of 6929999] by auto

end
