(* ===== verification/Taproot.thy ===== *)
theory Taproot
  imports BtcTx Script
begin

text \<open>
  Taproot spending (\<^verbatim>\<open>btctx_p2tr.go\<close> and the Schnorr signatures of
  \<^verbatim>\<open>p2tr.go\<close>): the BIP-341 signature hashes of a transaction, BIP-340 signing and the
  key-path signature of an input. A scalar of the curve library is a natural number below the
  order; a running SHA-256 is applied to everything written to it. A signer is what the code asks
  of a \<open>crypto.Signer\<close>: its public key, signatures of a digest, and, where it has them, its own
  Taproot signing or its private scalar with the compressed public key. \<open>Options\<close>, which the
  code only hands on to the signer, is part of the signer.
\<close>

record btc_signer =
  Public :: public_key
  SignDigest :: "bytes \<Rightarrow> bytes result"
  SignTaproot :: "(bytes \<Rightarrow> bytes result) option"
  PrivKey :: "(nat \<times> bytes) option"

record btc_tx_sign =
  Key :: btc_signer
  Scheme :: string
  SignAmount :: "64 word"
  SigHash :: "32 word"
  PrevScript :: bytes

section \<open>Signature hashes\<close>

record taproot_parts =
  shaPrevouts :: bytes
  shaAmounts :: bytes
  shaScriptPubs :: bytes
  shaSequences :: bytes
  shaOutputs :: bytes
  prevScriptsByIn :: "bytes list"
  amountsByIn :: "64 word list"

definition taprootSighashPartsRaw ::
    "'p crypto \<Rightarrow> btc_tx \<Rightarrow> bytes list \<Rightarrow> 64 word list \<Rightarrow> taproot_parts result" where
  "taprootSighashPartsRaw cr tx prevScripts amounts =
     (if length prevScripts \<noteq> length (TxIn tx) then
        fail ''taproot: prevScripts (%d) must match input count (%d)''
      else if length amounts \<noteq> length (TxIn tx) then
        fail ''taproot: amounts (%d) must match input count (%d)''
      else if list_ex (\<lambda>s. length s = 0) prevScripts then fail ''taproot: input %d missing prev script''
      else Inr
        \<lparr>shaPrevouts = sha256 cr (concat (map (\<lambda>i. rev (TXID i) @ put_u32 (Vout i)) (TxIn tx))),
         shaAmounts = sha256 cr (concat (map put_u64 amounts)),
         shaScriptPubs = sha256 cr (concat (map (\<lambda>s. BtcVarInt_Bytes (varint_len (length s)) @ s) prevScripts)),
         shaSequences = sha256 cr (concat (map (\<lambda>i. put_u32 (Sequence i)) (TxIn tx))),
         shaOutputs = sha256 cr (concat (map (\<lambda>o'. put_u64 (Amount o') @
           BtcVarInt_Bytes (varint_len (length (OutScript o'))) @ OutScript o') (TxOut tx))),
         prevScriptsByIn = prevScripts,
         amountsByIn = amounts\<rparr>)"

definition taprootSighashParts :: "'p crypto \<Rightarrow> btc_tx \<Rightarrow> btc_tx_sign list \<Rightarrow> taproot_parts result" where
  "taprootSighashParts cr tx keys =
     (if length keys \<noteq> length (TxIn tx) then fail ''taproot: keys length does not match number of inputs''
      else if list_ex (\<lambda>k. length (PrevScript k) = 0) keys then
        fail ''taproot: input %d missing PrevScript (required when any input uses p2tr)''
      else taprootSighashPartsRaw cr tx (map PrevScript keys) (map SignAmount keys))"

definition sighash_prefix :: "byte \<Rightarrow> btc_tx \<Rightarrow> taproot_parts \<Rightarrow> bytes" where
  "sighash_prefix hashType tx parts =
     [0, hashType] @ put_u32 (Version tx) @ put_u32 (Locktime tx) @ shaPrevouts parts @ shaAmounts parts @
     shaScriptPubs parts @ shaSequences parts @ shaOutputs parts"

definition taprootKeySpendSighash ::
    "'p crypto \<Rightarrow> btc_tx \<Rightarrow> nat \<Rightarrow> byte \<Rightarrow> taproot_parts \<Rightarrow> bytes result" where
  "taprootKeySpendSighash cr tx n hashType parts =
     (if hashType \<noteq> 0 then fail ''taproot: only SIGHASH_DEFAULT (0x00) is supported, got 0x%02x''
      else
        let buf = sighash_prefix hashType tx parts @ [0] @ put_u32 (word_of_nat n)
        in Inr (bip340TaggedHash cr ''TapSighash'' [buf]))"

definition taprootScriptPathSighash ::
    "'p crypto \<Rightarrow> btc_tx \<Rightarrow> nat \<Rightarrow> byte \<Rightarrow> taproot_parts \<Rightarrow> bytes \<Rightarrow> bytes result" where
  "taprootScriptPathSighash cr tx n hashType parts leafScript =
     (if hashType \<noteq> 0 then fail ''taproot: only SIGHASH_DEFAULT (0x00) is supported, got 0x%02x''
      else
        let leafLen = BtcVarInt_Bytes (varint_len (length leafScript));
            tapleafHash = bip340TaggedHash cr ''TapLeaf'' [[0xc0], leafLen, leafScript];
            buf = sighash_prefix hashType tx parts @ [2] @ put_u32 (word_of_nat n) @
              tapleafHash @ [0] @ put_u32 0xFFFFFFFF
        in Inr (bip340TaggedHash cr ''TapSighash'' [buf]))"

definition TaprootSighash :: "'p crypto \<Rightarrow> btc_tx \<Rightarrow> btc_tx_sign list \<Rightarrow> nat \<Rightarrow> bytes result" where
  "TaprootSighash cr tx keys i =
     bindE (taprootSighashParts cr tx keys) (\<lambda>parts. taprootKeySpendSighash cr tx i 0 parts)"

section \<open>Schnorr signatures\<close>

definition scalar_negate :: "nat \<Rightarrow> nat" where
  "scalar_negate d = (curve_order - d) mod curve_order"

definition scalar_add :: "nat \<Rightarrow> nat \<Rightarrow> nat" where
  "scalar_add a b = (a + b) mod curve_order"

definition scalar_mul :: "nat \<Rightarrow> nat \<Rightarrow> nat" where
  "scalar_mul a b = (a * b) mod curve_order"

definition challenge :: "'p crypto \<Rightarrow> bytes \<Rightarrow> bytes \<Rightarrow> bytes \<Rightarrow> nat" where
  "challenge cr rx px msg =
     be_decode (bip340TaggedHash cr ''BIP0340/challenge'' [rx, px, msg]) mod curve_order"

definition bip340Sign :: "'p crypto \<Rightarrow> nat \<Rightarrow> bytes \<Rightarrow> bytes \<Rightarrow> bytes result" where
  "bip340Sign cr priv msg auxRand =
     (if length msg \<noteq> 32 then fail ''bip340: message must be 32 bytes, got %d''
      else if length auxRand \<noteq> 32 then fail ''bip340: aux_rand must be 32 bytes, got %d''
      else if priv = 0 then fail ''bip340: private key is zero''
      else
        let P = base_mult cr priv;
            d = (if y_odd cr P then scalar_negate priv else priv);
            pxBytes = be_encode 32 (x_of cr P);
            auxHash = bip340TaggedHash cr ''BIP0340/aux'' [auxRand];
            dBytes = be_encode 32 d;
            tBytes = map2 (\<lambda>a b. a XOR b) dBytes auxHash;
            randBytes = bip340TaggedHash cr ''BIP0340/nonce'' [tBytes, pxBytes, msg];
            k = be_decode randBytes mod curve_order
        in if k = 0 then fail ''bip340: derived nonce is zero''
           else
             let R = base_mult cr k;
                 k = (if y_odd cr R then scalar_negate k else k);
                 rxBytes = be_encode 32 (x_of cr R);
                 e = challenge cr rxBytes pxBytes msg;
                 s = scalar_add k (scalar_mul e d)
             in Inr (rxBytes @ be_encode 32 s))"

section \<open>The key-path signature of an input\<close>

definition set_input :: "nat \<Rightarrow> (btc_input \<Rightarrow> btc_input) \<Rightarrow> btc_tx \<Rightarrow> btc_tx" where
  "set_input n f tx = tx\<lparr>TxIn := (TxIn tx)[n := f (TxIn tx ! n)]\<rparr>"

definition taprootPrivKey :: "btc_signer \<Rightarrow> (nat \<times> bytes) result" where
  "taprootPrivKey signer =
     (case PrivKey signer of
        Some pk \<Rightarrow> Inr pk
      | None \<Rightarrow> fail ''p2tr signing requires *secp256k1.PrivateKey or a TaprootSigner, got %T'')"

text \<open>The scalar that signs for the tweaked output key, from a private key and its public form.\<close>

definition tweaked_scalar :: "'p crypto \<Rightarrow> nat \<times> bytes \<Rightarrow> nat result" where
  "tweaked_scalar cr priv =
     (let (key, pubBytes) = priv in
      bindE (slice_from pubBytes 1) (\<lambda>xOnly.
      bindE (taprootTweakPubKey cr xOnly) (\<lambda>(out, parity, tweak).
      bindE (idx pubBytes 0) (\<lambda>b0.
        let d = (if b0 = 3 then scalar_negate key else key); t = be_decode tweak in
        if t \<ge> curve_order then fail ''taproot: tweak >= curve order''
        else
          let d = scalar_add d t
          in Inr (if parity = 1 then scalar_negate d else d)))))"

definition taproot_signature :: "'p crypto \<Rightarrow> btc_tx \<Rightarrow> nat \<Rightarrow> btc_tx_sign \<Rightarrow> taproot_parts \<Rightarrow> bytes result" where
  "taproot_signature cr tx n k parts =
     (if SigHash k \<noteq> 0 \<and> SigHash k \<noteq> 1 then
        fail ''taproot: SigHash 0x%x not supported (only SIGHASH_DEFAULT)''
      else
        bindE (taprootKeySpendSighash cr tx n 0 parts) (\<lambda>sigHash.
          case SignTaproot (Key k) of
            Some sign \<Rightarrow>
              bindE (sign sigHash) (\<lambda>sig.
                if length sig \<noteq> 64 then fail ''taproot: TaprootSigner returned %d-byte sig, want 64''
                else Inr sig)
          | None \<Rightarrow>
              bindE (taprootPrivKey (Key k)) (\<lambda>priv.
              bindE (tweaked_scalar cr priv) (\<lambda>d.
              bip340Sign cr d sigHash (replicate 32 0)))))"

definition p2trSign ::
    "'p crypto \<Rightarrow> nat \<Rightarrow> btc_tx_sign \<Rightarrow> taproot_parts \<Rightarrow> btc_tx \<Rightarrow> btc_tx \<times> unit result" where
  "p2trSign cr n k parts tx =
     (case taproot_signature cr tx n k parts of
        Inl e \<Rightarrow> (tx, Inl e)
      | Inr sig \<Rightarrow> (set_input n (\<lambda>i. i\<lparr>Witnesses := [sig], InScript := []\<rparr>) tx, Inr ()))"

section \<open>The group the signatures live in\<close>

text \<open>
  What signing relies on: scalar multiples of the generator add up modulo the order; a multiple and
  its negative share the abscissa, which fits 32 bytes, and have ordinates of different parity; and
  lifting the abscissa of a multiple gives back the one with the even ordinate.
\<close>

definition curve_ok :: "'p crypto \<Rightarrow> bool" where
  "curve_ok cr \<longleftrightarrow>
     (\<forall>a b. a < curve_order \<and> b < curve_order \<longrightarrow>
        point_add cr (base_mult cr a) (base_mult cr b) = base_mult cr ((a + b) mod curve_order)) \<and>
     (\<forall>a. 0 < a \<and> a < curve_order \<longrightarrow>
        x_of cr (base_mult cr (curve_order - a)) = x_of cr (base_mult cr a) \<and>
        y_odd cr (base_mult cr (curve_order - a)) = (\<not> y_odd cr (base_mult cr a)) \<and>
        x_of cr (base_mult cr a) < field_prime \<and>
        (\<not> y_odd cr (base_mult cr a) \<longrightarrow> lift_even cr (x_of cr (base_mult cr a)) = Some (base_mult cr a)))"

text \<open>
  BIP-340 verification, in terms of discrete logarithms: \<open>px\<close> is the abscissa of the even point
  \<open>d G\<close>, the signature is the abscissa of an even point \<open>k G\<close> and \<open>s = k + e d\<close>, which is
  \<open>s G = R + e P\<close>.
\<close>

definition bip340_valid :: "'p crypto \<Rightarrow> bytes \<Rightarrow> bytes \<Rightarrow> bytes \<Rightarrow> bool" where
  "bip340_valid cr px msg sig \<longleftrightarrow>
     (\<exists>d k. 0 < d \<and> d < curve_order \<and> \<not> y_odd cr (base_mult cr d) \<and> px = be_encode 32 (x_of cr (base_mult cr d)) \<and>
        0 < k \<and> k < curve_order \<and> \<not> y_odd cr (base_mult cr k) \<and>
        (let rx = be_encode 32 (x_of cr (base_mult cr k)) in
         sig = rx @ be_encode 32 ((k + challenge cr rx px msg * d) mod curve_order)))"

definition even_scalar :: "'p crypto \<Rightarrow> nat \<Rightarrow> nat" where
  "even_scalar cr d = (if y_odd cr (base_mult cr d) then scalar_negate d else d)"

lemma curve_order_pos [simp]: "0 < curve_order"
  by (simp add: curve_order_def)

lemma scalar_negate_range: "0 < d \<Longrightarrow> d < curve_order \<Longrightarrow> scalar_negate d = curve_order - d"
  by (simp add: scalar_negate_def)

lemma even_scalar:
  assumes "curve_ok cr" "0 < d" "d < curve_order"
  shows "0 < even_scalar cr d" "even_scalar cr d < curve_order"
    "\<not> y_odd cr (base_mult cr (even_scalar cr d))"
    "x_of cr (base_mult cr (even_scalar cr d)) = x_of cr (base_mult cr d)"
  using assms by (auto simp: even_scalar_def scalar_negate_range curve_ok_def)

lemma bip340Sign_valid:
  assumes "curve_ok cr" "0 < d" "d < curve_order" "bip340Sign cr d msg aux = Inr sig"
  shows "bip340_valid cr (be_encode 32 (x_of cr (base_mult cr d))) msg sig"
proof -
  define px where "px = be_encode 32 (x_of cr (base_mult cr d))"
  from assms(4) obtain k where k: "0 < k" "k < curve_order"
    and sig: "sig = be_encode 32 (x_of cr (base_mult cr k)) @
      be_encode 32 (scalar_add (even_scalar cr k)
        (scalar_mul (challenge cr (be_encode 32 (x_of cr (base_mult cr k))) px msg) (even_scalar cr d)))"
    by (auto simp: bip340Sign_def Let_def even_scalar_def px_def [symmetric] split: if_splits)
  note d' = even_scalar [OF assms(1-3)] and k' = even_scalar [OF assms(1) k]
  show ?thesis
    unfolding bip340_valid_def px_def [symmetric] Let_def
    using d' k' sig
    by (intro exI [of _ "even_scalar cr d"] exI [of _ "even_scalar cr k"])
      (simp add: scalar_add_def scalar_mul_def px_def mod_add_right_eq)
qed

lemma bip340Sign_length: "bip340Sign cr d msg aux = Inr sig \<Longrightarrow> length sig = 64"
  by (auto simp: bip340Sign_def Let_def split: if_splits)

lemma field_prime_fits: "x < field_prime \<Longrightarrow> be_decode (be_encode 32 x) = x"
proof -
  assume "x < field_prime"
  then have "x < 256 ^ 32" by (simp add: field_prime_def)
  then show ?thesis by (simp add: be_decode_encode)
qed

text \<open>The compressed form of a public key: the parity of the ordinate and the abscissa.\<close>

definition serialized :: "'p crypto \<Rightarrow> nat \<Rightarrow> bytes" where
  "serialized cr key =
     (if y_odd cr (base_mult cr key) then 3 else 2) # be_encode 32 (x_of cr (base_mult cr key))"

lemma tweak_of_key:
  assumes "curve_ok cr" "\<And>b. length (sha256 cr b) = 32" "0 < key" "key < curve_order"
    and "taprootTweakPubKey cr (be_encode 32 (x_of cr (base_mult cr key))) = Inr (out, par, tweak)"
  shows "be_decode tweak < curve_order \<and>
    out = be_encode 32 (x_of cr (base_mult cr ((even_scalar cr key + be_decode tweak) mod curve_order))) \<and>
    (par = 1 \<longleftrightarrow> y_odd cr (base_mult cr ((even_scalar cr key + be_decode tweak) mod curve_order)))"
proof -
  let ?x = "x_of cr (base_mult cr key)" and ?d = "even_scalar cr key"
  note d = even_scalar [OF assms(1,3,4)]
  have x: "be_decode (be_encode 32 ?x) = ?x" "?x < field_prime"
    using assms(1,3,4) field_prime_fits by (auto simp: curve_ok_def)
  have lift: "lift_even cr ?x = Some (base_mult cr ?d)"
    using assms(1) d unfolding curve_ok_def by metis
  have add: "t < curve_order \<Longrightarrow> point_add cr (base_mult cr ?d) (base_mult cr t) = base_mult cr ((?d + t) mod curve_order)" for t
    using assms(1) d by (simp add: curve_ok_def)
  have hash: "length (bip340TaggedHash cr tag dat) = 32" for tag dat
    using assms(2) by (simp add: bip340TaggedHash_def Let_def)
  show ?thesis
    using assms(5) x lift add hash
    by (auto simp: taprootTweakPubKey_def taprootLiftX_def Let_def split: if_splits)
qed

lemma tweaked_scalar_signs:
  assumes "curve_ok cr" "\<And>b. length (sha256 cr b) = 32" "0 < key" "key < curve_order"
    and "taprootTweakPubKey cr (be_encode 32 (x_of cr (base_mult cr key))) = Inr (out, par, tweak)"
    and "tweaked_scalar cr (key, serialized cr key) = Inr d" "d \<noteq> 0"
  shows "d < curve_order \<and> out = be_encode 32 (x_of cr (base_mult cr d))"
proof -
  define q where "q = (even_scalar cr key + be_decode tweak) mod curve_order"
  note t = tweak_of_key [OF assms(1-5), folded q_def]
  have "d = even_scalar cr q"
    using assms(5,6) t
    by (auto simp: tweaked_scalar_def serialized_def Let_def even_scalar_def scalar_add_def q_def split: if_splits)
  moreover have "q < curve_order"
    by (simp add: q_def)
  moreover have "0 < q"
    using assms(7) \<open>d = even_scalar cr q\<close> by (cases "q = 0") (auto simp: even_scalar_def scalar_negate_def split: if_splits)
  ultimately show ?thesis
    using even_scalar [OF assms(1), of q] t by simp
qed

section \<open>A concrete signer\<close>

lemma toy_curve_ok: "curve_ok toy_crypto"
proof -
  have odd: "2 * a \<noteq> curve_order" for a :: nat
  proof
    assume "2 * a = curve_order"
    then have "even curve_order" by (metis dvd_triv_left)
    then show False by (simp add: curve_order_def)
  qed
  have small: "curve_order < field_prime"
    by (simp add: curve_order_def field_prime_def)
  have neg: "min (curve_order - a) (curve_order - (curve_order - a)) = min a (curve_order - a)"
    "(curve_order < 2 * (curve_order - a)) = (\<not> curve_order < 2 * a)"
    "min a (curve_order - a) < field_prime" "\<not> curve_order < 2 * a \<Longrightarrow> min a (curve_order - a) = a"
    if "0 < a" "a < curve_order" for a
    using that small odd [of a] by linarith+
  show ?thesis
    unfolding curve_ok_def toy_crypto_def using neg by simp
qed

definition toy_key :: btc_tx_sign where
  "toy_key =
     \<lparr>Key = \<lparr>Public = sample_pub, SignDigest = (\<lambda>d. Inr (take 32 d)), SignTaproot = None,
             PrivKey = Some (7, serialized toy_crypto 7)\<rparr>,
      Scheme = ''p2tr'', SignAmount = 5, SigHash = 0, PrevScript = [0x51]\<rparr>"

lemma toy_tagged:
  "bip340TaggedHash toy_crypto tag dat = 0 # 0 # take 30 (str_bytes tag @ replicate 32 9)"
  by (simp add: bip340TaggedHash_def toy_crypto_def)

lemma toy_tagged_length: "length (bip340TaggedHash toy_crypto tag dat) = 32"
  by (simp add: toy_tagged)

lemma toy_tagged_decode: "be_decode (bip340TaggedHash toy_crypto tag dat) < 256 ^ 30"
proof -
  let ?b = "take 30 (str_bytes tag @ replicate 32 9) :: bytes"
  have "length ?b = 30" by simp
  then have "be_decode ?b < 256 ^ 30"
    using be_decode_less [of ?b] by metis
  moreover have "be_decode (0 # 0 # ?b) = be_decode ?b"
    by (simp add: be_decode_def le_decode_append)
  ultimately show ?thesis
    by (simp only: toy_tagged)
qed

lemma toy_nonce: "be_decode (bip340TaggedHash toy_crypto ''BIP0340/nonce'' dat) \<noteq> 0"
  by (simp add: toy_tagged be_decode_def le_decode_append str_bytes_def)

lemma toy_sign:
  assumes "0 < d" "length msg = 32"
  shows "\<exists>sig. bip340Sign toy_crypto d msg (replicate 32 0) = Inr sig"
proof -
  have "be_decode (bip340TaggedHash toy_crypto ''BIP0340/nonce'' dat) mod curve_order \<noteq> 0" for dat
    using toy_nonce [of dat] toy_tagged_decode [of "''BIP0340/nonce''" dat] by (simp add: curve_order_def)
  with assms show ?thesis
    by (simp add: bip340Sign_def Let_def)
qed

definition toy_parts :: taproot_parts where
  "toy_parts = (case taprootSighashParts toy_crypto sample_tx [toy_key] of Inr p \<Rightarrow> p)"

lemma toy_setup:
  "\<exists>out par. TaprootTweak toy_crypto (be_encode 32 7) = Inr (out, par)"
  "\<exists>sig. taproot_signature toy_crypto sample_tx 0 toy_key parts = Inr sig"
proof -
  have seven: "be_decode (be_encode 32 7) = 7" "x_of toy_crypto (base_mult toy_crypto 7) = 7"
    "\<not> y_odd toy_crypto (base_mult toy_crypto 7)"
    by (simp_all add: be_decode_encode toy_crypto_def curve_order_def)
  define t where "t = be_decode (bip340TaggedHash toy_crypto ''TapTweak'' [be_encode 32 7])"
  have t: "t < 256 ^ 30"
    unfolding t_def by (rule toy_tagged_decode)
  have "\<exists>out par tw. taprootTweakPubKey toy_crypto (be_encode 32 7) = Inr (out, par, tw) \<and> be_decode tw = t"
    using t by (simp add: taprootTweakPubKey_def taprootLiftX_def seven Let_def field_prime_def curve_order_def
        t_def [symmetric] toy_tagged_length) (simp add: toy_crypto_def t_def)
  then obtain out par tw where tweak: "taprootTweakPubKey toy_crypto (be_encode 32 7) = Inr (out, par, tw)"
      "be_decode tw = t"
    by blast
  then show "\<exists>out par. TaprootTweak toy_crypto (be_encode 32 7) = Inr (out, par)"
    by (simp add: TaprootTweak_def)
  have "\<exists>d > 0. tweaked_scalar toy_crypto (7, serialized toy_crypto 7) = Inr d"
    using t by (simp add: tweaked_scalar_def serialized_def seven tweak Let_def scalar_add_def scalar_negate_def curve_order_def)
  then obtain d where d: "0 < d" "tweaked_scalar toy_crypto (7, serialized toy_crypto 7) = Inr d"
    by blast
  define h where "h = bip340TaggedHash toy_crypto ''TapSighash''
    [sighash_prefix 0 sample_tx parts @ [0] @ put_u32 (word_of_nat 0)]"
  have "length h = 32"
    by (simp add: h_def toy_tagged_length)
  from toy_sign [OF d(1) this] obtain sig where "bip340Sign toy_crypto d h (replicate 32 0) = Inr sig"
    by blast
  with d show "\<exists>sig. taproot_signature toy_crypto sample_tx 0 toy_key parts = Inr sig"
    by (simp add: taproot_signature_def toy_key_def taprootKeySpendSighash_def taprootPrivKey_def Let_def h_def)
qed

section \<open>Properties\<close>



end
