(* ===== verification/BtcSign.thy ===== *)
theory BtcSign
  imports Taproot
begin

text \<open>
  Signing a Bitcoin transaction (\<^verbatim>\<open>btctx.go\<close>: \<open>Sign\<close> and what it calls). The state of
  the loop over the keys is the transaction being signed, the work copy the legacy digests are
  taken from, the cached BIP-143 prefix and suffix, the cached Taproot parts and the keys, whose
  \<open>SigHash\<close> the loop fills in. Every operation changes at most the script and the witnesses of
  one input, as its last step: its \<open>_fill\<close> function computes that change or the error. The
  inputs, outputs and keys of the slices are not nil.
\<close>

definition gen_key :: "'p crypto \<Rightarrow> btc_tx_sign \<Rightarrow> string \<Rightarrow> bytes result" where
  "gen_key cr k name = fst (Generate cr name (New (Public (Key k))))"

text \<open>A signature of a digest, with the signature hash type appended.\<close>

definition key_sign :: "btc_tx_sign \<Rightarrow> bytes \<Rightarrow> bytes result" where
  "key_sign k signHash =
     bindE (SignDigest (Key k) signHash) (\<lambda>sign. Inr (sign @ [ucast (SigHash k AND 0xff)]))"

definition BtcTx_Hash :: "'p crypto \<Rightarrow> btc_tx \<Rightarrow> bytes result" where
  "BtcTx_Hash cr tx = Inr (rev (chash cr [Sha256New, Sha256New] (exportBytes False tx)))"

definition preimageBytes :: "btc_input \<Rightarrow> bytes \<times> bytes" where
  "preimageBytes i = (rev (TXID i) @ put_u32 (Vout i), put_u32 (Sequence i))"

definition preimage :: "'p crypto \<Rightarrow> btc_tx \<Rightarrow> bytes \<times> bytes" where
  "preimage cr tx =
     (let vers = put_u32 (Version tx);
          inputsA = sha256 cr (concat (map (fst \<circ> preimageBytes) (TxIn tx)));
          inputsB = sha256 cr (concat (map (snd \<circ> preimageBytes) (TxIn tx)));
          prefix = vers @ chash cr [Sha256New] inputsA @ chash cr [Sha256New] inputsB;
          outputs = sha256 cr (concat (map BtcTxOutput_Bytes (TxOut tx)));
          suffix = chash cr [Sha256New] outputs @ put_u32 (Locktime tx)
      in (prefix, suffix))"

definition or_preimage :: "'p crypto \<Rightarrow> btc_tx \<Rightarrow> (bytes \<times> bytes) option \<Rightarrow> bytes \<times> bytes" where
  "or_preimage cr tx ps = (case ps of None \<Rightarrow> preimage cr tx | Some p \<Rightarrow> p)"

section \<open>Segregated witness\<close>

definition witness_hash ::
    "'p crypto \<Rightarrow> nat \<Rightarrow> btc_tx_sign \<Rightarrow> (bytes \<times> bytes) option \<Rightarrow> btc_tx \<Rightarrow> bytes \<Rightarrow> bytes" where
  "witness_hash cr n k ps tx scriptCode =
     (let (pfx, sfx) = or_preimage cr tx ps;
          (inp, inputSeq) = preimageBytes (TxIn tx ! n);
          amount = put_u64 (SignAmount k);
          signString = pfx @ inp @ PushBytes scriptCode @ amount @ inputSeq @ sfx;
          signString = signString @ put_u32 (SigHash k)
      in chash cr [Sha256New, Sha256New] signString)"

definition p2wpkh_fill ::
    "'p crypto \<Rightarrow> nat \<Rightarrow> btc_tx_sign \<Rightarrow> (bytes \<times> bytes) option \<Rightarrow> btc_tx \<Rightarrow> (btc_input \<Rightarrow> btc_input) result" where
  "p2wpkh_fill cr n k ps tx =
     bindE (gen_key cr k (if Scheme k = ''p2pukh'' then ''pubkey:uncomp'' else ''pubkey:comp'')) (\<lambda>pubKey.
       let pkHash = chash cr [Sha256New, Ripemd160New] pubKey;
           scriptCode = ([0x76, 0xa9] @ PushBytes pkHash) @ [0x88, 0xac];
           signHash = witness_hash cr n k ps tx scriptCode
       in bindE (key_sign k signHash) (\<lambda>sign.
            if Scheme k = ''p2pkh'' \<or> Scheme k = ''p2pukh'' then
              Inr (\<lambda>i. i\<lparr>InScript := PushBytes sign @ PushBytes pubKey\<rparr>)
            else if Scheme k = ''p2wpkh'' then
              Inr (\<lambda>i. i\<lparr>InScript := [], Witnesses := [sign, pubKey]\<rparr>)
            else if Scheme k = ''p2sh:p2wpkh'' then
              Inr (\<lambda>i. i\<lparr>InScript := PushBytes (0 # PushBytes pkHash), Witnesses := [sign, pubKey]\<rparr>)
            else Inr (\<lambda>i. i)))"

text \<open>The candidates are tried in turn; one that cannot be generated is skipped.\<close>

fun detect_loop :: "'p crypto \<Rightarrow> bytes option \<Rightarrow> script \<Rightarrow> string list \<Rightarrow> (string \<times> bytes) result" where
  "detect_loop cr targetHash s [] =
     (if targetHash \<noteq> None
      then fail ''p2wsh: none of the standard script types match the input scriptPubKey''
      else fail ''p2wsh: unable to generate any witness script from the provided key'')"
| "detect_loop cr targetHash s (inner # cs) =
     (case Generate cr inner s of
        (Inl e, s) \<Rightarrow> if e = Panic then Inl Panic else detect_loop cr targetHash s cs
      | (Inr ws, s) \<Rightarrow>
          (case targetHash of
             Some h \<Rightarrow> if sha256 cr ws = h then Inr (inner, ws) else detect_loop cr targetHash s cs
           | None \<Rightarrow> Inr (inner, ws)))"

definition detectP2WSHInner :: "'p crypto \<Rightarrow> btc_tx \<Rightarrow> nat \<Rightarrow> public_key \<Rightarrow> (string \<times> bytes) result" where
  "detectP2WSHInner cr tx n pub =
     (let candidates = [''p2pkh'', ''p2pk'', ''p2pukh'', ''p2puk''];
          sc = InScript (TxIn tx ! n);
          targetHash = (if length sc = 34 \<and> sc ! 0 = 0 \<and> sc ! 1 = 0x20 then Some (drop 2 sc) else None)
      in detect_loop cr targetHash (New pub) candidates)"

definition p2wsh_fill ::
    "'p crypto \<Rightarrow> nat \<Rightarrow> btc_tx_sign \<Rightarrow> (bytes \<times> bytes) option \<Rightarrow> btc_tx \<Rightarrow> (btc_input \<Rightarrow> btc_input) result" where
  "p2wsh_fill cr n k ps tx =
     bindE (if Scheme k = ''p2wsh'' then detectP2WSHInner cr tx n (Public (Key k))
            else let innerScheme = drop 6 (Scheme k)
                 in bindE (gen_key cr k innerScheme) (\<lambda>ws. Inr (innerScheme, ws))) (\<lambda>(innerScheme, witnessScript).
       let signHash = witness_hash cr n k ps tx witnessScript in
       bindE (key_sign k signHash) (\<lambda>sign.
         if innerScheme = ''p2pk'' \<or> innerScheme = ''p2puk'' then
           Inr (\<lambda>i. i\<lparr>InScript := [], Witnesses := [sign, witnessScript]\<rparr>)
         else if innerScheme = ''p2pkh'' then
           bindE (gen_key cr k ''pubkey:comp'') (\<lambda>pubKey.
             Inr (\<lambda>i. i\<lparr>InScript := [], Witnesses := [sign, pubKey, witnessScript]\<rparr>))
         else if innerScheme = ''p2pukh'' then
           bindE (gen_key cr k ''pubkey:uncomp'') (\<lambda>pubKey.
             Inr (\<lambda>i. i\<lparr>InScript := [], Witnesses := [sign, pubKey, witnessScript]\<rparr>))
         else fail ''p2wsh: unsupported inner scheme %q''))"

definition apply_fill :: "nat \<Rightarrow> (btc_input \<Rightarrow> btc_input) result \<Rightarrow> btc_tx \<Rightarrow> btc_tx \<times> unit result" where
  "apply_fill n r tx = (case r of Inl e \<Rightarrow> (tx, Inl e) | Inr f \<Rightarrow> (set_input n f tx, Inr ()))"

definition p2wpkhSign ::
    "'p crypto \<Rightarrow> nat \<Rightarrow> btc_tx_sign \<Rightarrow> (bytes \<times> bytes) option \<Rightarrow> btc_tx \<Rightarrow> btc_tx \<times> unit result" where
  "p2wpkhSign cr n k ps tx = apply_fill n (p2wpkh_fill cr n k ps tx) tx"

definition p2wshSign ::
    "'p crypto \<Rightarrow> nat \<Rightarrow> btc_tx_sign \<Rightarrow> (bytes \<times> bytes) option \<Rightarrow> btc_tx \<Rightarrow> btc_tx \<times> unit result" where
  "p2wshSign cr n k ps tx = apply_fill n (p2wsh_fill cr n k ps tx) tx"

section \<open>Legacy signatures\<close>

text \<open>The work copy without scripts but for the one being signed, and the digest of it.\<close>

definition legacy_work :: "nat \<Rightarrow> bytes \<Rightarrow> btc_tx \<Rightarrow> btc_tx" where
  "legacy_work n prev wtx = set_input n (\<lambda>i. i\<lparr>InScript := prev\<rparr>) (ClearInputs wtx)"

definition legacy_hash :: "'p crypto \<Rightarrow> btc_tx_sign \<Rightarrow> btc_tx \<Rightarrow> bytes" where
  "legacy_hash cr k wtx =
     (let buf = exportBytes False wtx @ put_u32 (SigHash k) in chash cr [Sha256New, Sha256New] buf)"

definition legacy_fill :: "'p crypto \<Rightarrow> btc_tx_sign \<Rightarrow> btc_tx \<Rightarrow> (btc_input \<Rightarrow> btc_input) result" where
  "legacy_fill cr k wtx =
     bindE (key_sign k (legacy_hash cr k wtx)) (\<lambda>sign.
       if Scheme k = ''p2pk'' then Inr (\<lambda>i. i\<lparr>InScript := PushBytes sign\<rparr>)
       else
         bindE (if Scheme k = ''p2pkh'' then gen_key cr k ''pubkey:comp'' else gen_key cr k ''pubkey:uncomp'')
           (\<lambda>pubkey. Inr (\<lambda>i. i\<lparr>InScript := PushBytes sign @ PushBytes pubkey\<rparr>)))"

section \<open>The loop\<close>

record sign_state =
  signing :: btc_tx
  work :: btc_tx
  prefixes :: "(bytes \<times> bytes) option"
  taproots :: "taproot_parts option"
  sign_keys :: "btc_tx_sign list"

definition sign_legacy :: "'p crypto \<Rightarrow> nat \<Rightarrow> btc_tx_sign \<Rightarrow> sign_state \<Rightarrow> sign_state \<times> unit result" where
  "sign_legacy cr n k st =
     (case gen_key cr k (Scheme k) of
        Inl e \<Rightarrow> (st\<lparr>work := legacy_work n [] (work st)\<rparr>, Inl e)
      | Inr prev \<Rightarrow>
          let w = legacy_work n prev (work st); (tx, r) = apply_fill n (legacy_fill cr k w) (signing st)
          in (st\<lparr>work := w, signing := tx\<rparr>, r))"

definition with_preimage :: "'p crypto \<Rightarrow> sign_state \<Rightarrow> sign_state" where
  "with_preimage cr st = st\<lparr>prefixes := Some (or_preimage cr (signing st) (prefixes st))\<rparr>"

definition sign_witness ::
    "(btc_tx \<Rightarrow> btc_tx \<times> unit result) \<Rightarrow> sign_state \<Rightarrow> sign_state \<times> unit result" where
  "sign_witness f st = (let (tx, r) = f (signing st) in (st\<lparr>signing := tx\<rparr>, r))"

definition cached_parts :: "'p crypto \<Rightarrow> sign_state \<Rightarrow> taproot_parts result" where
  "cached_parts cr st =
     (case taproots st of None \<Rightarrow> taprootSighashParts cr (signing st) (sign_keys st) | Some p \<Rightarrow> Inr p)"

definition sighash_refused :: "btc_tx_sign \<Rightarrow> bool" where
  "sighash_refused k \<longleftrightarrow> SigHash k AND 0x1f \<noteq> 1 \<or> SigHash k AND 0x80 = 0x80"

definition default_sighash :: "btc_tx_sign \<Rightarrow> btc_tx_sign" where
  "default_sighash k = (if Scheme k \<noteq> ''p2tr'' \<and> SigHash k = 0 then k\<lparr>SigHash := 1\<rparr> else k)"

definition sign_input :: "'p crypto \<Rightarrow> nat \<Rightarrow> sign_state \<Rightarrow> sign_state \<times> unit result" where
  "sign_input cr n st =
     (let k = default_sighash (sign_keys st ! n);
          st = st\<lparr>sign_keys := (sign_keys st)[n := k]\<rparr>
      in if Scheme k \<noteq> ''p2tr'' \<and> sighash_refused k then
           (st, fail ''unsupported SIGHASH flag 0x%x: only SIGHASH_ALL (optionally with fork-id 0x40) is implemented'')
         else if Scheme k = ''p2pk'' then sign_legacy cr n k st
         else if Scheme k \<in> {''p2pkh'', ''p2pukh''} then
           if SigHash k AND 0x40 = 0x40 then
             let st = with_preimage cr st in sign_witness (p2wpkhSign cr n k (prefixes st)) st
           else sign_legacy cr n k st
         else if Scheme k \<in> {''p2wpkh'', ''p2sh:p2wpkh''} then
           let st = with_preimage cr st in sign_witness (p2wpkhSign cr n k (prefixes st)) st
         else if Scheme k \<in> {''p2wsh'', ''p2wsh:p2pk'', ''p2wsh:p2puk'', ''p2wsh:p2pkh'', ''p2wsh:p2pukh''} then
           let st = with_preimage cr st in sign_witness (p2wshSign cr n k (prefixes st)) st
         else if Scheme k = ''p2tr'' then
           (case cached_parts cr st of
              Inl e \<Rightarrow> (st, Inl e)
            | Inr parts \<Rightarrow> sign_witness (p2trSign cr n k parts) (st\<lparr>taproots := Some parts\<rparr>))
         else (st, fail ''unsupported sign scheme: %s''))"

fun sign_loop :: "'p crypto \<Rightarrow> nat list \<Rightarrow> sign_state \<Rightarrow> sign_state \<times> unit result" where
  "sign_loop cr [] st = (st, Inr ())"
| "sign_loop cr (n # ns) st =
     (case sign_input cr n st of
        (st, Inl e) \<Rightarrow> (st, Inl e)
      | (st, Inr u) \<Rightarrow> sign_loop cr ns st)"

text \<open>The transaction and the keys as \<open>Sign\<close> leaves them, and its error.\<close>

definition Sign :: "'p crypto \<Rightarrow> btc_tx_sign list \<Rightarrow> btc_tx \<Rightarrow> btc_tx \<times> btc_tx_sign list \<times> unit result" where
  "Sign cr keys tx =
     (if length (TxIn tx) = 0 \<or> length (TxIn tx) \<noteq> length keys then
        (tx, keys, fail ''Sign requires as many keys as there are inputs'')
      else
        let (st, r) = sign_loop cr [0..<length keys]
              \<lparr>signing = tx, work = BtcTx_Dup tx, prefixes = None, taproots = None, sign_keys = keys\<rparr>
        in (signing st, sign_keys st, r))"

section \<open>What is signed\<close>

text \<open>Two transactions that differ at most in the scripts and witnesses of their inputs.\<close>

definition core :: "btc_input \<Rightarrow> bytes \<times> 32 word \<times> 32 word" where
  "core i = (TXID i, Vout i, Sequence i)"

definition same_skeleton :: "btc_tx \<Rightarrow> btc_tx \<Rightarrow> bool" where
  "same_skeleton tx tx' \<longleftrightarrow>
     Version tx' = Version tx \<and> TxOut tx' = TxOut tx \<and> Locktime tx' = Locktime tx \<and>
     map core (TxIn tx') = map core (TxIn tx)"

definition only_scripts :: "(btc_input \<Rightarrow> btc_input) \<Rightarrow> bool" where
  "only_scripts f \<longleftrightarrow> (\<forall>i. core (f i) = core i)"

definition outpoint :: "btc_input \<Rightarrow> bytes" where
  "outpoint i = rev (TXID i) @ put_u32 (Vout i)"

definition sha256d :: "'p crypto \<Rightarrow> bytes \<Rightarrow> bytes" where
  "sha256d cr b = sha256 cr (sha256 cr b)"

text \<open>The digest of BIP-143, field by field.\<close>

definition bip143_digest :: "'p crypto \<Rightarrow> btc_tx \<Rightarrow> nat \<Rightarrow> bytes \<Rightarrow> 64 word \<Rightarrow> 32 word \<Rightarrow> bytes" where
  "bip143_digest cr tx n scriptCode amount hashType =
     sha256d cr (
       put_u32 (Version tx) @
       sha256d cr (concat (map outpoint (TxIn tx))) @
       sha256d cr (concat (map (put_u32 \<circ> Sequence) (TxIn tx))) @
       outpoint (TxIn tx ! n) @
       var_buf scriptCode @
       put_u64 amount @
       put_u32 (Sequence (TxIn tx ! n)) @
       sha256d cr (concat (map (\<lambda>out. put_u64 (Amount out) @ var_buf (OutScript out)) (TxOut tx))) @
       put_u32 (Locktime tx) @
       put_u32 hashType)"

text \<open>
  The original digest under \<open>SIGHASH_ALL\<close>: the transaction with the script of the spent output in
  the input being signed, empty scripts in the others and no witnesses.
\<close>

definition legacy_digest :: "'p crypto \<Rightarrow> btc_tx \<Rightarrow> nat \<Rightarrow> bytes \<Rightarrow> 32 word \<Rightarrow> bytes" where
  "legacy_digest cr tx n prev hashType =
     sha256d cr (
       put_u32 (Version tx) @
       BtcVarInt_Bytes (varint_len (length (TxIn tx))) @
       concat (map (\<lambda>m. outpoint (TxIn tx ! m) @ var_buf (if m = n then prev else []) @
                        put_u32 (Sequence (TxIn tx ! m))) [0..<length (TxIn tx)]) @
       BtcVarInt_Bytes (varint_len (length (TxOut tx))) @
       concat (map (\<lambda>out. put_u64 (Amount out) @ var_buf (OutScript out)) (TxOut tx)) @
       put_u32 (Locktime tx) @
       put_u32 hashType)"

text \<open>What the hashing libraries compute, and the lengths of keys and hashes.\<close>

definition hash_ok :: "'p crypto \<Rightarrow> bool" where
  "hash_ok cr \<longleftrightarrow>
     (\<forall>b. chash cr [Sha256New, Sha256New] b = sha256d cr b \<and> chash cr [Sha256New] b = sha256 cr b \<and>
          length (chash cr [Sha256New, Ripemd160New] b) = 20)"

definition key_lengths :: "public_key \<Rightarrow> bool" where
  "key_lengths pk \<longleftrightarrow>
     (\<forall>c. compressed pk = Some c \<longrightarrow> length c = 33) \<and> (\<forall>u. uncompressed pk = Some u \<longrightarrow> length u = 65)"

lemma same_skeleton_refl [simp]: "same_skeleton tx tx"
  by (simp add: same_skeleton_def)

lemma same_skeleton_trans: "same_skeleton a b \<Longrightarrow> same_skeleton b c \<Longrightarrow> same_skeleton a c"
  by (simp add: same_skeleton_def)

lemma same_skeleton_sym: "same_skeleton a b \<Longrightarrow> same_skeleton b a"
  by (simp add: same_skeleton_def)

lemma same_skeleton_length: "same_skeleton tx tx' \<Longrightarrow> length (TxIn tx') = length (TxIn tx)"
  unfolding same_skeleton_def using map_eq_imp_length_eq by blast

lemma same_skeleton_map:
  assumes "same_skeleton tx tx'" and "f = g \<circ> core"
  shows "map f (TxIn tx') = map f (TxIn tx)"
  unfolding assms(2) map_map [symmetric] using assms(1) by (simp only: same_skeleton_def)

lemma set_input_skeleton:
  assumes "only_scripts f"
  shows "same_skeleton tx (set_input n f tx)"
proof (cases "n < length (TxIn tx)")
  case True
  then have "(map core (TxIn tx))[n := core (TxIn tx ! n)] = map core (TxIn tx)"
    by (simp add: list_update_same_conv)
  with assms show ?thesis
    by (simp add: same_skeleton_def set_input_def only_scripts_def map_update)
qed (simp add: same_skeleton_def set_input_def list_update_beyond)

lemma ClearInputs_skeleton:
  "same_skeleton tx tx' \<Longrightarrow> ClearInputs tx' = ClearInputs tx"
  "same_skeleton tx (ClearInputs tx)"
proof -
  let ?clear = "\<lambda>i. i\<lparr>InScript := [], Witnesses := []\<rparr>"
  assume sk: "same_skeleton tx tx'"
  have "map ?clear (TxIn tx') = map ?clear (TxIn tx)"
    by (rule same_skeleton_map [OF sk, of _ "\<lambda>(t, v, q). \<lparr>TXID = t, Vout = v, InScript = [], Sequence = q, Witnesses = []\<rparr>"])
      (simp add: fun_eq_iff core_def)
  with sk show "ClearInputs tx' = ClearInputs tx"
    by (simp add: ClearInputs_def same_skeleton_def)
qed (simp add: ClearInputs_def same_skeleton_def comp_def core_def)

lemma only_scripts_simps [simp]:
  "only_scripts (\<lambda>i. i)"
  "only_scripts (InScript_update g)"
  "only_scripts (\<lambda>i. InScript_update g (Witnesses_update h i))"
  "only_scripts (\<lambda>i. Witnesses_update h (InScript_update g i))"
  by (simp_all add: only_scripts_def core_def)

lemma legacy_work_skeleton:
  assumes "same_skeleton tx w"
  shows "legacy_work n prev w = legacy_work n prev tx" "same_skeleton tx (legacy_work n prev w)"
proof -
  show "legacy_work n prev w = legacy_work n prev tx"
    by (simp add: legacy_work_def ClearInputs_skeleton(1) [OF assms])
  show "same_skeleton tx (legacy_work n prev w)"
    unfolding legacy_work_def
    by (rule same_skeleton_trans [OF _ set_input_skeleton])
      (simp_all add: ClearInputs_skeleton(1) [OF assms] ClearInputs_skeleton(2))
qed

lemma Dup_skeleton: "same_skeleton tx (BtcTx_Dup tx)"
  by (simp add: same_skeleton_def BtcTx_Dup_def input_Dup_def output_Dup_def [abs_def] comp_def core_def)

lemma preimage_skeleton:
  assumes "same_skeleton tx tx'"
  shows "preimage cr tx' = preimage cr tx"
  using assms same_skeleton_map [OF assms, of "fst \<circ> preimageBytes" "\<lambda>(t, v, q). rev t @ put_u32 v"]
    same_skeleton_map [OF assms, of "snd \<circ> preimageBytes" "\<lambda>(t, v, q). put_u32 q"]
  by (simp add: preimage_def preimageBytes_def same_skeleton_def comp_def core_def)

lemma parts_skeleton:
  assumes "same_skeleton tx tx'"
  shows "taprootSighashParts cr tx' keys = taprootSighashParts cr tx keys"
    "taproot_signature cr tx' n k parts = taproot_signature cr tx n k parts"
  using assms same_skeleton_map [OF assms, of "\<lambda>i. rev (TXID i) @ put_u32 (Vout i)" "\<lambda>(t, v, q). rev t @ put_u32 v"]
    same_skeleton_map [OF assms, of "\<lambda>i. put_u32 (Sequence i)" "\<lambda>(t, v, q). put_u32 q"] same_skeleton_length [OF assms]
  by (simp_all add: taprootSighashParts_def taprootSighashPartsRaw_def same_skeleton_def taproot_signature_def
      taprootKeySpendSighash_def sighash_prefix_def comp_def core_def)

lemma var_buf_short:
  assumes "length b \<le> 75"
  shows "var_buf b = PushBytes b"
proof -
  have "(ucast (word_of_nat (length b) :: 64 word) :: byte) = word_of_nat (length b)"
    using assms by (simp add: word_unat_eq_iff unsigned_ucast_eq unat_of_nat take_bit_eq_mod)
  with assms show ?thesis
    by (simp add: var_buf_def PushBytes_def BtcVarInt_Bytes_def varint_len_def word_le_nat_alt unat_of_nat)
qed

lemma concat_outputs: "concat (map BtcTxOutput_Bytes xs) = concat (map (\<lambda>out. put_u64 (Amount out) @ var_buf (OutScript out)) xs)"
  by (simp add: BtcTxOutput_Bytes_alt [abs_def])

text \<open>The two digests as the code computes them are the specified ones.\<close>

lemma legacy_hash_spec:
  assumes "hash_ok cr" "n < length (TxIn tx)"
  shows "legacy_hash cr k (legacy_work n prev tx) = legacy_digest cr tx n prev (SigHash k)"
proof -
  let ?w = "\<lambda>m. (TxIn tx ! m)\<lparr>InScript := if m = n then prev else [], Witnesses := []\<rparr>"
  have "TxIn (legacy_work n prev tx) = map ?w [0..<length (TxIn tx)]"
    using assms(2) by (intro nth_equalityI) (auto simp: legacy_work_def set_input_def ClearInputs_def nth_list_update)
  then have "concat (map BtcTxInput_Bytes (TxIn (legacy_work n prev tx))) =
      concat (map (\<lambda>m. outpoint (TxIn tx ! m) @ var_buf (if m = n then prev else []) @ put_u32 (Sequence (TxIn tx ! m)))
        [0..<length (TxIn tx)])" "length (TxIn (legacy_work n prev tx)) = length (TxIn tx)"
    by (simp_all add: comp_def BtcTxInput_Bytes_alt outpoint_def)
  moreover have "TxOut (legacy_work n prev tx) = TxOut tx" "Version (legacy_work n prev tx) = Version tx"
      "Locktime (legacy_work n prev tx) = Locktime tx"
    by (simp_all add: legacy_work_def set_input_def ClearInputs_def)
  ultimately show ?thesis
    using assms(1) by (simp add: legacy_hash_def legacy_digest_def exportBytes_def hash_ok_def concat_outputs)
qed

lemma core_nth: "same_skeleton tx tx' \<Longrightarrow> n < length (TxIn tx) \<Longrightarrow> core (TxIn tx' ! n) = core (TxIn tx ! n)"
  using same_skeleton_length [of tx tx'] nth_map [of n "TxIn tx" core] nth_map [of n "TxIn tx'" core]
  by (simp add: same_skeleton_def)

lemma witness_hash_spec:
  assumes "hash_ok cr" "same_skeleton tx tx'" "n < length (TxIn tx)" "length sc \<le> 75"
    and "ps = None \<or> ps = Some (preimage cr tx)"
  shows "witness_hash cr n k ps tx' sc = bip143_digest cr tx n sc (SignAmount k) (SigHash k)"
proof -
  have "or_preimage cr tx' ps = preimage cr tx"
    using assms(5) preimage_skeleton [OF assms(2)] by (auto simp: or_preimage_def)
  moreover have "preimageBytes (TxIn tx' ! n) = (outpoint (TxIn tx ! n), put_u32 (Sequence (TxIn tx ! n)))"
    using core_nth [OF assms(2,3)] by (simp add: core_def preimageBytes_def outpoint_def)
  moreover have "fst \<circ> preimageBytes = outpoint" "snd \<circ> preimageBytes = put_u32 \<circ> Sequence"
    by (simp_all add: fun_eq_iff preimageBytes_def outpoint_def)
  ultimately show ?thesis
    using assms(1,4)
    by (simp add: witness_hash_def preimage_def hash_ok_def sha256d_def bip143_digest_def var_buf_short concat_outputs)
qed

section \<open>Scripts and their lengths\<close>

lemma gen_key_spec: "gen_key cr k name = script_spec cr (Public (Key k)) name"
  unfolding gen_key_def by (rule Generate_reachable) (rule script_reachable.intros)

lemma key_formats:
  "map_of Formats ''p2pk'' = Some [IPushBytes (Lookup ''pubkey:comp''), Bytes [0xac]]"
  "map_of Formats ''p2puk'' = Some [IPushBytes (Lookup ''pubkey:uncomp''), Bytes [0xac]]"
  "map_of Formats ''p2pkh'' = Some [Bytes [0x76, 0xa9], IPushBytes (IHash160 (Lookup ''pubkey:comp'')), Bytes [0x88, 0xac]]"
  "map_of Formats ''p2pukh'' = Some [Bytes [0x76, 0xa9], IPushBytes (IHash160 (Lookup ''pubkey:uncomp'')), Bytes [0x88, 0xac]]"
  by (simp_all add: Formats_def)

lemma key_names:
  "script_spec cr pk ''pubkey:comp'' = (case compressed pk of None \<Rightarrow> export_error | Some c \<Rightarrow> Inr c)"
  "script_spec cr pk ''pubkey:uncomp'' = (case uncompressed pk of None \<Rightarrow> export_error | Some c \<Rightarrow> Inr c)"
  by (simp_all add: script_spec_unfold [of cr pk "''pubkey:comp''"] script_spec_unfold [of cr pk "''pubkey:uncomp''"]
      is_pubkey_name_def getPubKeyBytes_def)

definition p2pkh_script :: "bytes \<Rightarrow> bytes" where
  "p2pkh_script h = [0x76, 0xa9] @ PushBytes h @ [0x88, 0xac]"

lemma key_scripts:
  "script_spec cr pk ''p2pk'' = bindE (script_spec cr pk ''pubkey:comp'') (\<lambda>c. Inr (PushBytes c @ [0xac]))"
  "script_spec cr pk ''p2puk'' = bindE (script_spec cr pk ''pubkey:uncomp'') (\<lambda>c. Inr (PushBytes c @ [0xac]))"
  "script_spec cr pk ''p2pkh'' =
    bindE (script_spec cr pk ''pubkey:comp'') (\<lambda>c. Inr (p2pkh_script (chash cr [Sha256New, Ripemd160New] c)))"
  "script_spec cr pk ''p2pukh'' =
    bindE (script_spec cr pk ''pubkey:uncomp'') (\<lambda>c. Inr (p2pkh_script (chash cr [Sha256New, Ripemd160New] c)))"
  by (simp_all add: spec_format [OF _ key_formats(1)] spec_format [OF _ key_formats(2)] spec_format [OF _ key_formats(3)]
      spec_format [OF _ key_formats(4)] is_pubkey_name_def IHash160_def IHash_def IPushBytes_Bytes_def IHashInfo_Bytes_def
      key_names p2pkh_script_def export_error_def split: option.splits)

lemma key_scripts_short:
  assumes "hash_ok cr" "key_lengths pk" "name \<in> {''p2pk'', ''p2puk'', ''p2pkh'', ''p2pukh''}"
    and "script_spec cr pk name = Inr ws"
  shows "length ws \<le> 75"
  using assms
  by (auto simp: key_scripts key_names export_error_def hash_ok_def key_lengths_def p2pkh_script_def length_PushBytes
      split: option.splits)

lemma key_scripts_no_panic:
  "name \<in> {''p2pk'', ''p2puk'', ''p2pkh'', ''p2pukh''} \<Longrightarrow> script_spec cr pk name \<noteq> Inl Panic"
  by (auto simp: key_scripts key_names export_error_def split: option.splits)

lemma detect_loop_finds:
  "script_reachable cr pk s \<Longrightarrow> detect_loop cr target s cs = Inr (inner, ws) \<Longrightarrow>
    inner \<in> set cs \<and> script_spec cr pk inner = Inr ws \<and> (\<forall>h. target = Some h \<longrightarrow> sha256 cr ws = h)"
proof (induction cs arbitrary: s)
  case (Cons c cs)
  obtain r s' where g: "Generate cr c s = (r, s')" by fastforce
  have s': "script_reachable cr pk s'" "r = script_spec cr pk c"
    using Cons.prems(1) g Generate_reachable [of cr pk s c] script_reachable.intros(2) [of cr pk s c] by simp_all
  with Cons.prems(2) Cons.IH [OF s'(1)] g show ?case
    by (auto split: sum.splits if_splits option.splits)
qed (auto split: if_splits)

lemma detect_loop_complete:
  "script_reachable cr pk s \<Longrightarrow> \<forall>c \<in> set cs. script_spec cr pk c \<noteq> Inl Panic \<Longrightarrow>
    \<exists>c \<in> set cs. \<exists>ws. script_spec cr pk c = Inr ws \<and> (\<forall>h. target = Some h \<longrightarrow> sha256 cr ws = h) \<Longrightarrow>
    \<exists>r. detect_loop cr target s cs = Inr r"
proof (induction cs arbitrary: s)
  case (Cons c cs)
  obtain r s' where g: "Generate cr c s = (r, s')" by fastforce
  have s': "script_reachable cr pk s'" "r = script_spec cr pk c"
    using Cons.prems(1) g Generate_reachable [of cr pk s c] script_reachable.intros(2) [of cr pk s c] by simp_all
  with Cons.prems(2,3) Cons.IH [OF s'(1)] g show ?case
    by (auto split: sum.splits if_splits option.splits)
qed simp

section \<open>The specification of signing\<close>

text \<open>The script a \<open>p2wsh\<close> input is unlocked with.\<close>

definition witness_script :: "'p crypto \<Rightarrow> btc_tx \<Rightarrow> nat \<Rightarrow> btc_tx_sign \<Rightarrow> (string \<times> bytes) result" where
  "witness_script cr tx n k =
     (if Scheme k = ''p2wsh'' then detectP2WSHInner cr tx n (Public (Key k))
      else bindE (script_spec cr (Public (Key k)) (drop 6 (Scheme k))) (\<lambda>ws. Inr (drop 6 (Scheme k), ws)))"

text \<open>
  Input \<open>n\<close> as signing should leave it, computed from the transaction and the keys as they were
  given, with the digests of the specifications and the scripts of \<open>script_spec\<close>: it involves no
  cache, no work copy and none of the other inputs' signatures.
\<close>

definition signed_input :: "'p crypto \<Rightarrow> btc_tx \<Rightarrow> btc_tx_sign list \<Rightarrow> nat \<Rightarrow> btc_input result" where
  "signed_input cr tx keys n =
     (let k = default_sighash (keys ! n); scheme = Scheme k; i = TxIn tx ! n;
          spec = script_spec cr (Public (Key k));
          h160 = chash cr [Sha256New, Ripemd160New];
          pubkey = spec (if scheme = ''p2pukh'' then ''pubkey:uncomp'' else ''pubkey:comp'');
          legacy = (\<lambda>prev. key_sign k (legacy_digest cr tx n prev (SigHash k)));
          segwit = (\<lambda>sc. key_sign k (bip143_digest cr tx n sc (SignAmount k) (SigHash k)))
      in if scheme \<noteq> ''p2tr'' \<and> sighash_refused k then
           fail ''unsupported SIGHASH flag 0x%x: only SIGHASH_ALL (optionally with fork-id 0x40) is implemented''
         else if scheme = ''p2pk'' then
           bindE (spec scheme) (\<lambda>prev. bindE (legacy prev) (\<lambda>sig. Inr (i\<lparr>InScript := PushBytes sig\<rparr>)))
         else if scheme \<in> {''p2pkh'', ''p2pukh''} then
           if SigHash k AND 0x40 = 0x40 then
             bindE pubkey (\<lambda>pub. bindE (segwit (p2pkh_script (h160 pub))) (\<lambda>sig.
               Inr (i\<lparr>InScript := PushBytes sig @ PushBytes pub\<rparr>)))
           else
             bindE (spec scheme) (\<lambda>prev. bindE (legacy prev) (\<lambda>sig. bindE pubkey (\<lambda>pub.
               Inr (i\<lparr>InScript := PushBytes sig @ PushBytes pub\<rparr>))))
         else if scheme \<in> {''p2wpkh'', ''p2sh:p2wpkh''} then
           bindE pubkey (\<lambda>pub. bindE (segwit (p2pkh_script (h160 pub))) (\<lambda>sig.
             Inr (i\<lparr>InScript := if scheme = ''p2wpkh'' then [] else PushBytes (0 # PushBytes (h160 pub)),
                    Witnesses := [sig, pub]\<rparr>)))
         else if scheme \<in> {''p2wsh'', ''p2wsh:p2pk'', ''p2wsh:p2puk'', ''p2wsh:p2pkh'', ''p2wsh:p2pukh''} then
           bindE (witness_script cr tx n k) (\<lambda>(inner, ws). bindE (segwit ws) (\<lambda>sig.
             bindE (if inner \<in> {''p2pk'', ''p2puk''} then Inr []
                    else bindE (spec (if inner = ''p2pkh'' then ''pubkey:comp'' else ''pubkey:uncomp'')) (\<lambda>pub. Inr [pub]))
               (\<lambda>pubs. Inr (i\<lparr>InScript := [], Witnesses := [sig] @ pubs @ [ws]\<rparr>))))
         else if scheme = ''p2tr'' then
           bindE (taprootSighashParts cr tx keys) (\<lambda>parts. bindE (taproot_signature cr tx n k parts) (\<lambda>sig.
             Inr (i\<lparr>Witnesses := [sig], InScript := []\<rparr>)))
         else fail ''unsupported sign scheme: %s'')"

text \<open>What the loop maintains before it signs input \<open>n\<close>.\<close>

definition sign_inv :: "'p crypto \<Rightarrow> btc_tx \<Rightarrow> btc_tx_sign list \<Rightarrow> nat \<Rightarrow> sign_state \<Rightarrow> bool" where
  "sign_inv cr tx keys n st \<longleftrightarrow>
     same_skeleton tx (signing st) \<and> same_skeleton tx (work st) \<and>
     (prefixes st = None \<or> prefixes st = Some (preimage cr tx)) \<and>
     (taproots st = None \<or> (\<exists>p. taproots st = Some p \<and> taprootSighashParts cr tx keys = Inr p)) \<and>
     drop n (TxIn (signing st)) = drop n (TxIn tx) \<and>
     sign_keys st = map default_sighash (take n keys) @ drop n keys"

lemma default_sighash_simps [simp]:
  "PrevScript (default_sighash k) = PrevScript k" "SignAmount (default_sighash k) = SignAmount k"
  "Scheme (default_sighash k) = Scheme k" "Key (default_sighash k) = Key k"
  by (simp_all add: default_sighash_def)

lemma parts_of_keys:
  assumes "map PrevScript keys' = map PrevScript keys" "map SignAmount keys' = map SignAmount keys"
  shows "taprootSighashParts cr tx keys' = taprootSighashParts cr tx keys"
proof -
  have len: "length keys' = length keys"
    using assms(1) map_eq_imp_length_eq by blast
  have ex: "list_ex (\<lambda>k. length (PrevScript k) = 0) ks = list_ex (\<lambda>s. length s = 0) (map PrevScript ks)" for ks
    by (induction ks) simp_all
  show ?thesis
    unfolding taprootSighashParts_def ex assms len ..
qed

lemma p2wpkh_fill_spec:
  assumes "hash_ok cr" "same_skeleton tx tx'" "n < length (TxIn tx)" "ps = None \<or> ps = Some (preimage cr tx)"
  shows "p2wpkh_fill cr n k ps tx' =
    bindE (script_spec cr (Public (Key k)) (if Scheme k = ''p2pukh'' then ''pubkey:uncomp'' else ''pubkey:comp'')) (\<lambda>pubKey.
      bindE (key_sign k (bip143_digest cr tx n (p2pkh_script (chash cr [Sha256New, Ripemd160New] pubKey)) (SignAmount k) (SigHash k)))
        (\<lambda>sign.
          if Scheme k = ''p2pkh'' \<or> Scheme k = ''p2pukh'' then
            Inr (\<lambda>i. i\<lparr>InScript := PushBytes sign @ PushBytes pubKey\<rparr>)
          else if Scheme k = ''p2wpkh'' then Inr (\<lambda>i. i\<lparr>InScript := [], Witnesses := [sign, pubKey]\<rparr>)
          else if Scheme k = ''p2sh:p2wpkh'' then
            Inr (\<lambda>i. i\<lparr>InScript := PushBytes (0 # PushBytes (chash cr [Sha256New, Ripemd160New] pubKey)),
                       Witnesses := [sign, pubKey]\<rparr>)
          else Inr (\<lambda>i. i)))"
proof -
  have "length (p2pkh_script (chash cr [Sha256New, Ripemd160New] b)) \<le> 75" for b
    using assms(1) by (simp add: hash_ok_def p2pkh_script_def length_PushBytes)
  from witness_hash_spec [OF assms(1-3) this assms(4)] show ?thesis
    by (simp add: p2wpkh_fill_def gen_key_spec Let_def p2pkh_script_def)
qed

lemma witness_script_short:
  assumes "hash_ok cr" "key_lengths (Public (Key k))"
    and "Scheme k \<in> {''p2wsh'', ''p2wsh:p2pk'', ''p2wsh:p2puk'', ''p2wsh:p2pkh'', ''p2wsh:p2pukh''}"
    and "witness_script cr tx n k = Inr (inner, ws)"
  shows "length ws \<le> 75 \<and> inner \<in> {''p2pk'', ''p2puk'', ''p2pkh'', ''p2pukh''}"
proof -
  have "inner \<in> {''p2pk'', ''p2puk'', ''p2pkh'', ''p2pukh''} \<and> script_spec cr (Public (Key k)) inner = Inr ws"
  proof (cases "Scheme k = ''p2wsh''")
    case True
    with assms(4) have "detectP2WSHInner cr tx n (Public (Key k)) = Inr (inner, ws)"
      by (simp add: witness_script_def)
    from detect_loop_finds [OF script_reachable.fresh this [unfolded detectP2WSHInner_def Let_def]] show ?thesis
      by auto
  next
    case False
    with assms(3,4) show ?thesis
      by (auto simp: witness_script_def bindE_Inr_iff)
  qed
  with key_scripts_short [OF assms(1,2)] show ?thesis
    by blast
qed

lemma bindE_assoc: "bindE (bindE m f) g = bindE m (\<lambda>x. bindE (f x) g)"
  by (cases m) simp_all

lemma p2wsh_fill_spec:
  assumes "hash_ok cr" "key_lengths (Public (Key k))" "same_skeleton tx tx'" "n < length (TxIn tx)"
    and "ps = None \<or> ps = Some (preimage cr tx)" "TxIn tx' ! n = TxIn tx ! n"
    and "Scheme k \<in> {''p2wsh'', ''p2wsh:p2pk'', ''p2wsh:p2puk'', ''p2wsh:p2pkh'', ''p2wsh:p2pukh''}"
  shows "p2wsh_fill cr n k ps tx' =
    bindE (witness_script cr tx n k) (\<lambda>(inner, ws).
      bindE (key_sign k (bip143_digest cr tx n ws (SignAmount k) (SigHash k))) (\<lambda>sig.
      bindE (if inner \<in> {''p2pk'', ''p2puk''} then Inr []
             else bindE (script_spec cr (Public (Key k)) (if inner = ''p2pkh'' then ''pubkey:comp'' else ''pubkey:uncomp''))
               (\<lambda>pub. Inr [pub]))
        (\<lambda>pubs. Inr (\<lambda>i. i\<lparr>InScript := [], Witnesses := [sig] @ pubs @ [ws]\<rparr>))))"
proof -
  have ws: "(if Scheme k = ''p2wsh'' then detectP2WSHInner cr tx' n (Public (Key k))
      else let innerScheme = drop 6 (Scheme k) in bindE (gen_key cr k innerScheme) (\<lambda>ws. Inr (innerScheme, ws))) =
      witness_script cr tx n k"
    using assms(6) by (simp add: witness_script_def gen_key_spec detectP2WSHInner_def Let_def)
  show ?thesis
  proof (cases "witness_script cr tx n k")
    case (Inl e)
    then show ?thesis
      unfolding p2wsh_fill_def ws by simp
  next
    case (Inr p)
    obtain inner w where p: "p = (inner, w)" by fastforce
    from witness_script_short [OF assms(1,2,7) Inr [unfolded p]]
    have short: "length w \<le> 75" "inner \<in> {''p2pk'', ''p2puk'', ''p2pkh'', ''p2pukh''}" by simp_all
    show ?thesis
      unfolding p2wsh_fill_def ws Inr p
      using short(2) witness_hash_spec [OF assms(1,3,4) short(1) assms(5)]
      by (auto simp: gen_key_spec Let_def bindE_assoc)
  qed
qed

lemma legacy_fill_spec:
  assumes "hash_ok cr" "n < length (TxIn tx)" "Scheme k \<in> {''p2pk'', ''p2pkh'', ''p2pukh''}"
  shows "legacy_fill cr k (legacy_work n prev tx) =
    bindE (key_sign k (legacy_digest cr tx n prev (SigHash k))) (\<lambda>sig.
      if Scheme k = ''p2pk'' then Inr (\<lambda>i. i\<lparr>InScript := PushBytes sig\<rparr>)
      else bindE (script_spec cr (Public (Key k)) (if Scheme k = ''p2pukh'' then ''pubkey:uncomp'' else ''pubkey:comp''))
        (\<lambda>pub. Inr (\<lambda>i. i\<lparr>InScript := PushBytes sig @ PushBytes pub\<rparr>)))"
  using assms by (auto simp: legacy_fill_def legacy_hash_spec gen_key_spec intro!: bindE_cong)

text \<open>
  One turn of the loop: what the input becomes is what \<open>signed_input\<close> says, an error included, and
  the invariant holds for the next input.
\<close>

definition turn_ok :: "'p crypto \<Rightarrow> btc_tx \<Rightarrow> btc_tx_sign list \<Rightarrow> nat \<Rightarrow> sign_state \<Rightarrow> sign_state \<times> unit result \<Rightarrow> bool" where
  "turn_ok cr tx keys n st out \<longleftrightarrow>
     (case signed_input cr tx keys n of
        Inl e \<Rightarrow> snd out = Inl e \<and> signing (fst out) = signing st
      | Inr i \<Rightarrow> snd out = Inr () \<and> sign_inv cr tx keys (n + 1) (fst out) \<and>
          TxIn (signing (fst out)) = (TxIn (signing st))[n := i])"

lemma apply_fill_turn:
  assumes "sign_inv cr tx keys n st" "n < length (TxIn tx)" "length keys = length (TxIn tx)"
    and r: "signed_input cr tx keys n = bindE r (\<lambda>f. Inr (f (TxIn tx ! n)))" "\<And>f. r = Inr f \<Longrightarrow> only_scripts f"
    and st': "same_skeleton tx (work st')" "prefixes st' = None \<or> prefixes st' = Some (preimage cr tx)"
      "taproots st' = None \<or> (\<exists>p. taproots st' = Some p \<and> taprootSighashParts cr tx keys = Inr p)"
      "sign_keys st' = (sign_keys st)[n := default_sighash (keys ! n)]"
  shows "turn_ok cr tx keys n st
    (st'\<lparr>signing := fst (apply_fill n r (signing st))\<rparr>, snd (apply_fill n r (signing st)))"
proof (cases r)
  case (Inl e)
  with r show ?thesis by (simp add: turn_ok_def apply_fill_def)
next
  case (Inr f)
  note inv = assms(1) [unfolded sign_inv_def]
  have len: "length (TxIn (signing st)) = length (TxIn tx)"
    using inv same_skeleton_length by blast
  have nth: "TxIn (signing st) ! n = TxIn tx ! n"
    using inv len assms(2) by (metis hd_drop_conv_nth)
  have "same_skeleton tx (set_input n f (signing st))"
    using inv set_input_skeleton [OF r(2) [OF Inr]] same_skeleton_trans by blast
  moreover have "drop (n + 1) (TxIn (signing st)) = drop (n + 1) (TxIn tx)"
    using inv by (metis add.commute drop_drop)
  moreover have "(map default_sighash (take n keys) @ drop n keys)[n := default_sighash (keys ! n)] =
      map default_sighash (take (n + 1) keys) @ drop (n + 1) keys"
    using assms(2,3) by (intro nth_equalityI) (auto simp: nth_append nth_list_update min_def not_less less_Suc_eq)
  ultimately show ?thesis
    using Inr r(1) st' inv nth by (simp add: turn_ok_def apply_fill_def sign_inv_def set_input_def)
qed

lemma bind_fill: "bindE (bindE m (\<lambda>x. Inr (h x))) f = bindE m (\<lambda>x. f (h x))"
  by (cases m) simp_all

lemma fills_only_scripts:
  "legacy_fill cr k w = Inr f \<Longrightarrow> only_scripts f"
  "p2wpkh_fill cr n k ps tx = Inr f \<Longrightarrow> only_scripts f"
  "p2wsh_fill cr n k ps tx = Inr f \<Longrightarrow> only_scripts f"
  by (auto simp: legacy_fill_def p2wpkh_fill_def p2wsh_fill_def bindE_Inr_iff Let_def split: if_splits)

lemma sign_legacy_turn:
  assumes "hash_ok cr" and inv: "sign_inv cr tx keys n st" "n < length (TxIn tx)" "length keys = length (TxIn tx)"
    and k: "k = default_sighash (keys ! n)" "Scheme k \<in> {''p2pk'', ''p2pkh'', ''p2pukh''}"
    and refused: "\<not> sighash_refused k" "Scheme k \<noteq> ''p2pk'' \<longrightarrow> SigHash k AND 0x40 \<noteq> 0x40"
  shows "turn_ok cr tx keys n st (sign_legacy cr n k (st\<lparr>sign_keys := (sign_keys st)[n := k]\<rparr>))"
proof -
  let ?st = "st\<lparr>sign_keys := (sign_keys st)[n := k]\<rparr>"
  have spec: "signed_input cr tx keys n = bindE (script_spec cr (Public (Key k)) (Scheme k)) (\<lambda>prev.
      bindE (legacy_fill cr k (legacy_work n prev tx)) (\<lambda>f. Inr (f (TxIn tx ! n))))"
    using k(2) refused
    by (auto simp: signed_input_def k(1) [symmetric] Let_def legacy_fill_spec [OF assms(1) inv(2)] bindE_assoc)
  show ?thesis
  proof (cases "script_spec cr (Public (Key k)) (Scheme k)")
    case (Inl e)
    with spec show ?thesis
      by (simp add: turn_ok_def sign_legacy_def gen_key_spec)
  next
    case (Inr prev)
    have w: "legacy_work n prev (work st) = legacy_work n prev tx" "same_skeleton tx (legacy_work n prev tx)"
      using legacy_work_skeleton(1) [of tx "work st"] legacy_work_skeleton(2) [of tx tx] inv(1)
      by (simp_all add: sign_inv_def)
    have "turn_ok cr tx keys n st
        (?st\<lparr>work := legacy_work n prev tx, signing := fst (apply_fill n (legacy_fill cr k (legacy_work n prev tx)) (signing st))\<rparr>,
         snd (apply_fill n (legacy_fill cr k (legacy_work n prev tx)) (signing st)))"
      by (rule apply_fill_turn [OF inv]) (use inv(1) Inr spec w(2) k(1) fills_only_scripts(1) in \<open>auto simp: sign_inv_def\<close>)
    with w(1) Inr show ?thesis
      by (simp add: sign_legacy_def gen_key_spec Let_def case_prod_beta)
  qed
qed

lemma sign_witness_turn:
  assumes inv: "sign_inv cr tx keys n st" "n < length (TxIn tx)" "length keys = length (TxIn tx)"
    and "signed_input cr tx keys n = bindE r (\<lambda>f. Inr (f (TxIn tx ! n)))" "\<And>f. r = Inr f \<Longrightarrow> only_scripts f"
    and "work st' = work st" "signing st' = signing st" "prefixes st' = None \<or> prefixes st' = Some (preimage cr tx)"
    and "taproots st' = None \<or> (\<exists>p. taproots st' = Some p \<and> taprootSighashParts cr tx keys = Inr p)"
    and "sign_keys st' = (sign_keys st)[n := default_sighash (keys ! n)]"
    and "g (signing st) = apply_fill n r (signing st)"
  shows "turn_ok cr tx keys n st (sign_witness g st')"
  using apply_fill_turn [OF inv assms(4,5), of st'] assms inv(1)
  by (simp add: sign_witness_def case_prod_beta sign_inv_def)

lemma with_preimage_inv:
  assumes "sign_inv cr tx keys n st"
  shows "prefixes (with_preimage cr (st\<lparr>sign_keys := ks\<rparr>)) = Some (preimage cr tx)"
  using assms preimage_skeleton [of tx "signing st" cr] by (auto simp: sign_inv_def with_preimage_def or_preimage_def)

lemma inv_nth:
  assumes "sign_inv cr tx keys n st" "n < length (TxIn tx)" "length keys = length (TxIn tx)"
  shows "TxIn (signing st) ! n = TxIn tx ! n" "sign_keys st ! n = keys ! n"
proof -
  have "length (TxIn (signing st)) = length (TxIn tx)"
    using assms(1) same_skeleton_length unfolding sign_inv_def by blast
  then show "TxIn (signing st) ! n = TxIn tx ! n"
    using assms(1,2) unfolding sign_inv_def by (metis hd_drop_conv_nth)
  show "sign_keys st ! n = keys ! n"
    using assms by (simp add: sign_inv_def nth_append min_def)
qed

lemma sign_input_turn:
  assumes "hash_ok cr" "\<forall>k \<in> set keys. key_lengths (Public (Key k))"
    and inv: "sign_inv cr tx keys n st" "n < length (TxIn tx)" "length keys = length (TxIn tx)"
  shows "turn_ok cr tx keys n st (sign_input cr n st)"
proof -
  define k where "k = default_sighash (keys ! n)"
  define ks where "ks = (sign_keys st)[n := k]"
  let ?st = "with_preimage cr (st\<lparr>sign_keys := ks\<rparr>)"
  have key: "key_lengths (Public (Key k))"
    using assms(2) inv(2,3) by (simp add: k_def)
  note nth = inv_nth [OF inv]
  have skel: "same_skeleton tx (signing st)"
    using inv(1) by (simp add: sign_inv_def)
  have pre: "prefixes ?st = Some (preimage cr tx)" "work ?st = work st" "signing ?st = signing st"
    "taproots ?st = taproots st" "sign_keys ?st = ks"
    using with_preimage_inv [OF inv(1)] by (simp_all add: with_preimage_def)
  have tap: "taproots st = None \<or> (\<exists>p. taproots st = Some p \<and> taprootSighashParts cr tx keys = Inr p)"
    using inv(1) by (simp add: sign_inv_def)
  note facts = signed_input_def k_def [symmetric] Let_def sign_input_def nth(2) ks_def [symmetric]
  show ?thesis
  proof (cases "Scheme k \<noteq> ''p2tr'' \<and> sighash_refused k")
    case True
    then show ?thesis
      by (simp add: facts turn_ok_def)
  next
    case ok: False
    consider (legacy) "Scheme k \<in> {''p2pk'', ''p2pkh'', ''p2pukh''}" "Scheme k \<noteq> ''p2pk'' \<longrightarrow> SigHash k AND 0x40 \<noteq> 0x40"
      | (wpkh) "Scheme k \<in> {''p2wpkh'', ''p2sh:p2wpkh''} \<or> Scheme k \<in> {''p2pkh'', ''p2pukh''} \<and> SigHash k AND 0x40 = 0x40"
      | (wsh) "Scheme k \<in> {''p2wsh'', ''p2wsh:p2pk'', ''p2wsh:p2puk'', ''p2wsh:p2pkh'', ''p2wsh:p2pukh''}"
      | (tr) "Scheme k = ''p2tr''"
      | (other) "Scheme k \<notin> {''p2pk'', ''p2pkh'', ''p2pukh'', ''p2wpkh'', ''p2sh:p2wpkh'', ''p2wsh'', ''p2wsh:p2pk'',
          ''p2wsh:p2puk'', ''p2wsh:p2pkh'', ''p2wsh:p2pukh'', ''p2tr''}"
      by blast
    then show ?thesis
    proof cases
      case legacy
      have "turn_ok cr tx keys n st (sign_legacy cr n k (st\<lparr>sign_keys := ks\<rparr>))"
        unfolding ks_def by (rule sign_legacy_turn [OF assms(1) inv k_def]) (use legacy ok in auto)
      with legacy ok show ?thesis
        by (auto simp: sign_input_def nth(2) k_def [symmetric] ks_def [symmetric] Let_def)
    next
      case wpkh
      have "turn_ok cr tx keys n st (sign_witness (p2wpkhSign cr n k (Some (preimage cr tx))) ?st)"
      proof (rule sign_witness_turn [OF inv])
        show "signed_input cr tx keys n =
            bindE (p2wpkh_fill cr n k (Some (preimage cr tx)) (signing st)) (\<lambda>f. Inr (f (TxIn tx ! n)))"
          using wpkh ok by (auto simp: signed_input_def k_def [symmetric] Let_def bindE_assoc
              p2wpkh_fill_spec [OF assms(1) skel inv(2)])
      qed (use pre tap in \<open>auto simp: p2wpkhSign_def ks_def k_def dest: fills_only_scripts\<close>)
      with wpkh ok show ?thesis
        by (auto simp: sign_input_def nth(2) k_def [symmetric] ks_def [symmetric] Let_def pre(1))
    next
      case wsh
      have "turn_ok cr tx keys n st (sign_witness (p2wshSign cr n k (Some (preimage cr tx))) ?st)"
      proof (rule sign_witness_turn [OF inv])
        show "signed_input cr tx keys n =
            bindE (p2wsh_fill cr n k (Some (preimage cr tx)) (signing st)) (\<lambda>f. Inr (f (TxIn tx ! n)))"
          unfolding p2wsh_fill_spec [OF assms(1) key skel inv(2) disjI2 [OF refl] nth(1) wsh]
          using wsh ok by (auto simp: signed_input_def k_def [symmetric] Let_def bindE_assoc split: prod.splits intro!: bindE_cong)
      qed (use pre tap in \<open>auto simp: p2wshSign_def ks_def k_def dest: fills_only_scripts\<close>)
      with wsh ok show ?thesis
        by (auto simp: sign_input_def nth(2) k_def [symmetric] ks_def [symmetric] Let_def pre(1))
    next
      case other
      with ok show ?thesis
        by (simp add: facts turn_ok_def)
    next
      case tr
      have maps: "map PrevScript ks = map PrevScript keys" "map SignAmount ks = map SignAmount keys"
        using inv by (auto simp: ks_def k_def sign_inv_def map_update take_map drop_map nth_append list_update_append
            intro!: nth_equalityI simp: nth_list_update)
      have parts: "cached_parts cr (st\<lparr>sign_keys := ks\<rparr>) = taprootSighashParts cr tx keys"
        using tap parts_of_keys [OF maps, of cr "signing st"] parts_skeleton(1) [OF skel] by (auto simp: cached_parts_def)
      show ?thesis
      proof (cases "taprootSighashParts cr tx keys")
        case (Inl e)
        with tr parts show ?thesis
          by (simp add: facts turn_ok_def)
      next
        case (Inr p)
        let ?r = "bindE (taproot_signature cr tx n k p) (\<lambda>sig. Inr (\<lambda>i. i\<lparr>Witnesses := [sig], InScript := []\<rparr>))"
        have "turn_ok cr tx keys n st (sign_witness (p2trSign cr n k p) (st\<lparr>sign_keys := ks, taproots := Some p\<rparr>))"
        proof (rule sign_witness_turn [OF inv, of ?r])
          show "signed_input cr tx keys n = bindE ?r (\<lambda>f. Inr (f (TxIn tx ! n)))"
            using tr Inr by (simp add: signed_input_def k_def [symmetric] Let_def bindE_assoc)
          show "p2trSign cr n k p (signing st) = apply_fill n ?r (signing st)"
            by (simp add: p2trSign_def apply_fill_def parts_skeleton(2) [OF skel] split: sum.splits)
        qed (use inv(1) Inr in \<open>auto simp: sign_inv_def ks_def k_def bindE_Inr_iff\<close>)
        with tr parts Inr show ?thesis
          by (simp add: sign_input_def nth(2) k_def [symmetric] ks_def [symmetric] Let_def)
      qed
    qed
  qed
qed

text \<open>The inputs signed from input \<open>n\<close> on, up to the first that fails, and the outcome.\<close>

definition signed_from :: "'p crypto \<Rightarrow> btc_tx \<Rightarrow> btc_tx_sign list \<Rightarrow> nat \<Rightarrow> btc_input list" where
  "signed_from cr tx keys n = map projr (takeWhile (\<lambda>r. \<not> isl r) (map (signed_input cr tx keys) [n..<length keys]))"

definition sign_outcome :: "'p crypto \<Rightarrow> btc_tx \<Rightarrow> btc_tx_sign list \<Rightarrow> nat \<Rightarrow> unit result" where
  "sign_outcome cr tx keys n =
     (case find isl (map (signed_input cr tx keys) [n..<length keys]) of
        None \<Rightarrow> Inr ()
      | Some r \<Rightarrow> Inl (projl r))"

lemma signed_from_step:
  assumes "n < length keys"
  shows "signed_input cr tx keys n = Inl e \<Longrightarrow> signed_from cr tx keys n = [] \<and> sign_outcome cr tx keys n = Inl e"
    "signed_input cr tx keys n = Inr i \<Longrightarrow> signed_from cr tx keys n = i # signed_from cr tx keys (n + 1) \<and>
      sign_outcome cr tx keys n = sign_outcome cr tx keys (n + 1)"
  using assms by (simp_all add: signed_from_def sign_outcome_def upt_conv_Cons)

lemma sign_loop_spec:
  assumes "hash_ok cr" "\<forall>k \<in> set keys. key_lengths (Public (Key k))" "length keys = length (TxIn tx)"
  shows "sign_inv cr tx keys n st \<Longrightarrow> n \<le> length keys \<Longrightarrow>
    snd (sign_loop cr [n..<length keys] st) = sign_outcome cr tx keys n \<and>
    same_skeleton tx (signing (fst (sign_loop cr [n..<length keys] st))) \<and>
    TxIn (signing (fst (sign_loop cr [n..<length keys] st))) =
      take n (TxIn (signing st)) @ signed_from cr tx keys n @ drop (n + length (signed_from cr tx keys n)) (TxIn tx)"
proof (induction "length keys - n" arbitrary: n st)
  case 0
  then have n: "n = length keys" by simp
  have "length (TxIn (signing st)) = length keys"
    using 0(2) same_skeleton_length [of tx "signing st"] assms(3) by (simp add: sign_inv_def)
  with n 0(2) assms(3) show ?case
    by (simp add: sign_outcome_def signed_from_def sign_inv_def)
next
  case (Suc m)
  then have n: "n < length keys" "n < length (TxIn tx)" using assms(3) by simp_all
  have len: "length (TxIn (signing st)) = length keys"
    using Suc.prems(1) same_skeleton_length [of tx "signing st"] assms(3) by (simp add: sign_inv_def)
  have inv: "same_skeleton tx (signing st)" "drop n (TxIn (signing st)) = drop n (TxIn tx)"
    using Suc.prems(1) by (simp_all add: sign_inv_def)
  obtain st' r where step: "sign_input cr n st = (st', r)" by fastforce
  note turn = sign_input_turn [OF assms(1,2) Suc.prems(1) n(2) assms(3), unfolded step turn_ok_def]
  show ?case
  proof (cases "signed_input cr tx keys n")
    case (Inl e)
    have "TxIn (signing st) = take n (TxIn (signing st)) @ drop n (TxIn tx)"
      using inv(2) by (metis append_take_drop_id)
    with Inl turn signed_from_step(1) [OF n(1) Inl] inv(1) step n(1) show ?thesis
      by (simp add: upt_conv_Cons)
  next
    case (Inr i)
    from Inr turn have t: "r = Inr ()" "sign_inv cr tx keys (n + 1) st'" "TxIn (signing st') = (TxIn (signing st))[n := i]"
      by simp_all
    have "sign_loop cr [n..<length keys] st = sign_loop cr [n + 1..<length keys] st'"
      using n(1) step t(1) by (simp add: upt_conv_Cons)
    moreover have "take (n + 1) (TxIn (signing st')) = take n (TxIn (signing st)) @ [i]"
      using n len t(3) by (simp add: take_Suc_conv_app_nth)
    ultimately show ?thesis
      using Suc.hyps(1) [OF _ t(2)] Suc.hyps(2) n(1) signed_from_step(2) [OF n(1) Inr] by simp
  qed
qed

lemma signed_from_success:
  assumes "sign_outcome cr tx keys 0 = Inr ()"
  shows "length (signed_from cr tx keys 0) = length keys \<and>
    (\<forall>n < length keys. signed_input cr tx keys n = Inr (signed_from cr tx keys 0 ! n))"
proof -
  have ok: "\<not> isl (signed_input cr tx keys n)" if "n < length keys" for n
    using assms that by (auto simp: sign_outcome_def find_None_iff split: option.splits)
  then have "takeWhile (\<lambda>r. \<not> isl r) (map (signed_input cr tx keys) [0..<length keys]) = map (signed_input cr tx keys) [0..<length keys]"
    by (simp add: takeWhile_eq_all_conv)
  then show ?thesis
    unfolding signed_from_def using ok by (simp only:) simp
qed

lemma Sign_spec:
  assumes "hash_ok cr" "\<forall>k \<in> set keys. key_lengths (Public (Key k))"
    and "length keys = length (TxIn tx)" "TxIn tx \<noteq> []" and "Sign cr keys tx = (tx', keys', r)"
  shows "tx' = tx\<lparr>TxIn := signed_from cr tx keys 0 @ drop (length (signed_from cr tx keys 0)) (TxIn tx)\<rparr> \<and>
    r = sign_outcome cr tx keys 0"
proof -
  let ?st = "\<lparr>signing = tx, work = BtcTx_Dup tx, prefixes = None, taproots = None, sign_keys = keys\<rparr>"
  have "sign_inv cr tx keys 0 ?st"
    by (simp add: sign_inv_def Dup_skeleton)
  from sign_loop_spec [OF assms(1-3) this] assms(3-5) show ?thesis
    by (auto simp: Sign_def case_prod_beta same_skeleton_def)
qed

lemma Sign_inputs:
  assumes "hash_ok cr" "\<forall>k \<in> set keys. key_lengths (Public (Key k))" "length keys = length (TxIn tx)" "TxIn tx \<noteq> []"
    and "Sign cr keys tx = (tx', keys', Inr ())"
  shows "same_skeleton tx tx'" and "n < length keys \<Longrightarrow> signed_input cr tx keys n = Inr (TxIn tx' ! n)"
proof -
  let ?st = "\<lparr>signing = tx, work = BtcTx_Dup tx, prefixes = None, taproots = None, sign_keys = keys\<rparr>"
  have "sign_inv cr tx keys 0 ?st"
    by (simp add: sign_inv_def Dup_skeleton)
  from sign_loop_spec [OF assms(1-3) this] assms(3-5) show "same_skeleton tx tx'"
    by (auto simp: Sign_def case_prod_beta)
  assume n: "n < length keys"
  from Sign_spec [OF assms] have "TxIn tx' = signed_from cr tx keys 0 @ drop (length (signed_from cr tx keys 0)) (TxIn tx)"
    and "sign_outcome cr tx keys 0 = Inr ()" by simp_all
  with n signed_from_success [of cr tx keys] show "signed_input cr tx keys n = Inr (TxIn tx' ! n)"
    by (simp add: nth_append)
qed

end
