(* ===== verification/BtcPrefill.thy ===== *)
theory BtcPrefill
  imports BtcSign
begin

text \<open>
  Prefilled inputs (\<^verbatim>\<open>btctx.go\<close>: \<open>Prefill\<close>), whose sizes stand for those of the signed
  ones, and the properties of signing.
\<close>

section \<open>Prefilled inputs\<close>

definition prefillEmptySig :: bytes where "prefillEmptySig = replicate 72 0"
definition prefillEmptyCompKey :: bytes where "prefillEmptyCompKey = replicate 33 0"
definition prefillEmptyUncompKey :: bytes where "prefillEmptyUncompKey = replicate 65 0"

text \<open>The input after the call and the error, if the scheme is not supported.\<close>

definition Prefill :: "string \<Rightarrow> btc_input \<Rightarrow> btc_input \<times> unit result" where
  "Prefill scheme i =
     (let sig = prefillEmptySig; comp = prefillEmptyCompKey; uncomp = prefillEmptyUncompKey;
          wit = (\<lambda>ws. (i\<lparr>InScript := [], Witnesses := ws\<rparr>, Inr ()))
      in if scheme = ''p2pk'' then (i\<lparr>InScript := PushBytes sig\<rparr>, Inr ())
         else if scheme = ''p2pkh'' then (i\<lparr>InScript := PushBytes sig @ PushBytes comp\<rparr>, Inr ())
         else if scheme = ''p2pukh'' then (i\<lparr>InScript := PushBytes sig @ PushBytes uncomp\<rparr>, Inr ())
         else if scheme = ''p2wpkh'' then wit [sig, comp]
         else if scheme = ''p2wsh:p2pk'' then wit [sig, replicate 35 0]
         else if scheme = ''p2wsh:p2puk'' then wit [sig, replicate 67 0]
         else if scheme = ''p2wsh'' \<or> scheme = ''p2wsh:p2pkh'' then wit [sig, comp, replicate 25 0]
         else if scheme = ''p2wsh:p2pukh'' then wit [sig, uncomp, replicate 25 0]
         else if scheme = ''p2tr'' then wit [replicate 64 0]
         else (i, fail ''unsupported sign scheme: %s''))"

lemma varint_len_mono: "a \<le> b \<Longrightarrow> b < 0xfd \<Longrightarrow> BtcVarInt_Len (varint_len a) \<le> BtcVarInt_Len (varint_len b)"
  by (simp add: BtcVarInt_Len_def varint_len_def word_le_nat_alt unat_of_nat_64)

lemma item_size_mono:
  "a \<le> b \<Longrightarrow> b < 0xfd \<Longrightarrow> BtcVarInt_Len (varint_len a) + a \<le> BtcVarInt_Len (varint_len b) + b"
  using varint_len_mono [of a b] by simp

lemma key_sign_length:
  assumes "\<And>d sig. SignDigest (Key k) d = Inr sig \<Longrightarrow> length sig \<le> 71" "key_sign k d = Inr sig"
  shows "length sig \<le> 72"
  using assms by (fastforce simp: key_sign_def bindE_Inr_iff)

lemma taproot_signature_length: "taproot_signature cr tx n k parts = Inr sig \<Longrightarrow> length sig = 64"
  by (auto simp: taproot_signature_def bindE_Inr_iff bip340Sign_length split: if_splits option.splits)

lemma key_names_length:
  "key_lengths pk \<Longrightarrow> script_spec cr pk ''pubkey:comp'' = Inr c \<Longrightarrow> length c = 33"
  "key_lengths pk \<Longrightarrow> script_spec cr pk ''pubkey:uncomp'' = Inr c \<Longrightarrow> length c = 65"
  by (auto simp: key_names key_lengths_def export_error_def split: option.splits)

lemma key_scripts_length:
  assumes "hash_ok cr" "key_lengths pk"
  shows "script_spec cr pk ''p2pk'' = Inr ws \<Longrightarrow> length ws = 35" "script_spec cr pk ''p2puk'' = Inr ws \<Longrightarrow> length ws = 67"
    "script_spec cr pk ''p2pkh'' = Inr ws \<Longrightarrow> length ws = 25" "script_spec cr pk ''p2pukh'' = Inr ws \<Longrightarrow> length ws = 25"
  using assms(1) by (auto simp: key_scripts bindE_Inr_iff length_PushBytes p2pkh_script_def hash_ok_def
      dest!: key_names_length [OF assms(2)])

lemmas prefill_defs = prefillEmptySig_def prefillEmptyCompKey_def prefillEmptyUncompKey_def

text \<open>A signed input takes no more room than the prefilled one.\<close>

definition fits :: "btc_input \<Rightarrow> btc_input \<Rightarrow> bool" where
  "fits i p \<longleftrightarrow>
     input_computeSize i \<le> input_computeSize p \<and> input_computeWitnessSize i \<le> input_computeWitnessSize p \<and>
     (Witnesses i = [] \<longleftrightarrow> Witnesses p = [])"

lemma fits_script:
  "length a \<le> length b \<Longrightarrow> length b < 0xfd \<Longrightarrow> fits (i\<lparr>InScript := a\<rparr>) (i\<lparr>InScript := b\<rparr>)"
  using item_size_mono [of "length a" "length b"] by (simp add: fits_def input_computeSize_def input_computeWitnessSize_def)

lemma fits_witness:
  assumes "list_all2 (\<lambda>a b. length a \<le> length b \<and> length b < 0xfd) as bs" "as \<noteq> []"
  shows "fits (i\<lparr>InScript := s, Witnesses := as\<rparr>) (i\<lparr>InScript := s, Witnesses := bs\<rparr>)"
proof -
  have "length as = length bs" "sum_list (map (\<lambda>b. BtcVarInt_Len (varint_len (length b)) + length b) as) \<le>
      sum_list (map (\<lambda>b. BtcVarInt_Len (varint_len (length b)) + length b) bs)"
    using assms(1) by (induction rule: list_all2_induct) (auto dest: item_size_mono intro: add_mono)
  with assms(2) show ?thesis
    by (auto simp: fits_def input_computeSize_def input_computeWitnessSize_def fold_add)
qed

lemma signed_input_fits:
  assumes "hash_ok cr" "key_lengths (Public (Key (keys ! n)))"
    and sig: "\<And>d sig. SignDigest (Key (keys ! n)) d = Inr sig \<Longrightarrow> length sig \<le> 71"
    and "signed_input cr tx keys n = Inr i" "Scheme (keys ! n) \<noteq> ''p2wsh''"
    and "Prefill (Scheme (keys ! n)) (TxIn tx ! n) = (p, Inr ())"
  shows "fits i p"
proof -
  define k where "k = default_sighash (keys ! n)"
  have len: "key_sign k d = Inr s \<Longrightarrow> length s \<le> 72" for d s
    using sig by (intro key_sign_length [of k d s]) (simp_all add: k_def)
  have pk: "key_lengths (Public (Key k))" "Scheme (keys ! n) = Scheme k"
    using assms(2) by (simp_all add: k_def)
  note names = key_names_length [OF pk(1)] key_scripts_length [OF assms(1) pk(1)]
  have swap: "j\<lparr>Witnesses := ws, InScript := b\<rparr> = j\<lparr>InScript := b, Witnesses := ws\<rparr>" for j :: btc_input and ws b
    by simp
  show ?thesis
    using assms(4,5,6) unfolding pk(2)
    by (auto simp: swap signed_input_def k_def [symmetric] Let_def Prefill_def bindE_Inr_iff witness_script_def prefill_defs
        length_PushBytes dest!: names len taproot_signature_length
        split: if_splits intro!: fits_script fits_witness)
qed

lemma ComputeSize_mono:
  assumes "TxOut tx' = TxOut tx" "list_all2 fits (TxIn tx') (TxIn tx)"
  shows "ComputeSize tx' \<le> ComputeSize tx"
proof -
  have len: "length (TxIn tx') = length (TxIn tx)"
    using assms(2) by (rule list_all2_lengthD)
  have sums: "sum_list (map input_computeSize (TxIn tx')) \<le> sum_list (map input_computeSize (TxIn tx))"
    "sum_list (map input_computeWitnessSize (TxIn tx')) \<le> sum_list (map input_computeWitnessSize (TxIn tx))"
    "HasWitness tx' = HasWitness tx"
    using assms(2) unfolding HasWitness_def by (induction rule: list_all2_induct) (auto simp: fits_def intro: add_mono)
  have round: "a \<le> b \<Longrightarrow> a div 4 + (if a mod 4 = 0 then 0 else 1) \<le> b div 4 + (if b mod 4 = 0 then 0 else 1)" for a b :: nat
    by (simp split: if_splits) presburger
  define base where "base t = 8 + BtcVarInt_Len (varint_len (length (TxIn t))) + BtcVarInt_Len (varint_len (length (TxOut t))) +
    sum_list (map output_computeSize (TxOut t))" for t :: btc_tx
  define wit where "wit t = sum_list (map input_computeWitnessSize (TxIn t)) + 2" for t :: btc_tx
  have size: "ComputeSize t = base t + sum_list (map input_computeSize (TxIn t)) +
      (if HasWitness t then wit t div 4 + (if wit t mod 4 = 0 then 0 else 1) else 0)" for t :: btc_tx
    by (simp add: ComputeSize_def Let_def base_def wit_def fold_add fold_add2 case_prod_beta)
  have "base tx' = base tx" "wit tx' \<le> wit tx"
    using assms(1) len sums by (simp_all add: base_def wit_def)
  with sums round [of "wit tx'" "wit tx"] show ?thesis
    unfolding size by simp
qed

section \<open>A concrete signing\<close>

definition sign_crypto :: "nat crypto" where
  "sign_crypto = toy_crypto\<lparr>sha256 := \<lambda>b. take 32 (b @ replicate 32 9)\<rparr>"

definition segwit_key :: btc_tx_sign where
  "segwit_key =
     \<lparr>Key = \<lparr>Public = sample_pub, SignDigest = (\<lambda>d. Inr (take 32 d)), SignTaproot = None, PrivKey = None\<rparr>,
      Scheme = ''p2wpkh'', SignAmount = 5, SigHash = 0, PrevScript = []\<rparr>"

lemma segwit_key_facts:
  "hash_ok sign_crypto" "key_lengths (Public (Key segwit_key))" "Scheme segwit_key = ''p2wpkh''"
  "SignDigest (Key segwit_key) d = Inr sig \<Longrightarrow> length sig \<le> 71" "length (TxIn sample_tx) = 1"
  by (auto simp: hash_ok_def sha256d_def sign_crypto_def toy_crypto_def key_lengths_def segwit_key_def sample_pub_def
      sample_tx_def)

lemma segwit_key_signs:
  "signed_input sign_crypto sample_tx [segwit_key] 0 =
    Inr ((TxIn sample_tx ! 0)\<lparr>InScript := [],
      Witnesses := [take 32 (bip143_digest sign_crypto sample_tx 0
          (p2pkh_script (chash sign_crypto [Sha256New, Ripemd160New] (2 # replicate 32 5))) 5 1) @ [1], 2 # replicate 32 5]\<rparr>)"
  by (simp add: signed_input_def segwit_key_def default_sighash_def sighash_refused_def key_names sample_pub_def key_sign_def)

lemma segwit_outcome: "sign_outcome sign_crypto sample_tx [segwit_key] 0 = Inr ()"
  by (simp add: sign_outcome_def segwit_key_signs)

section \<open>Properties\<close>



text \<open>
  Prefilling reserves enough. When every key makes DER signatures of at most 71 bytes and no
  scheme is the self-detecting \<open>p2wsh\<close>, a transaction signed by \<open>Sign\<close> is no larger, by
  \<open>ComputeSize\<close>, than the one whose inputs were prefilled for the same schemes.
\<close>

theorem prefill_bounds_size:
  assumes "hash_ok cr" "\<forall>k \<in> set keys. key_lengths (Public (Key k)) \<and> Scheme k \<noteq> ''p2wsh''"
    and "\<forall>k \<in> set keys. \<forall>d sig. SignDigest (Key k) d = Inr sig \<longrightarrow> length sig \<le> 71"
    and "length keys = length (TxIn tx)" "TxIn tx \<noteq> []" and "Sign cr keys tx = (tx', keys', Inr ())"
    and "length ps = length keys"
    and "\<forall>n < length keys. Prefill (Scheme (keys ! n)) (TxIn tx ! n) = (ps ! n, Inr ())"
  shows "ComputeSize tx' \<le> ComputeSize (tx\<lparr>TxIn := ps\<rparr>)"
proof -
  have "\<forall>k \<in> set keys. key_lengths (Public (Key k))"
    using assms(2) by blast
  from Sign_spec [OF assms(1) this assms(4-6)]
  have tx': "tx' = tx\<lparr>TxIn := signed_from cr tx keys 0 @ drop (length (signed_from cr tx keys 0)) (TxIn tx)\<rparr>"
    and out: "sign_outcome cr tx keys 0 = Inr ()" by simp_all
  note all = signed_from_success [OF out]
  have "fits (signed_from cr tx keys 0 ! n) (ps ! n)" if n: "n < length keys" for n
  proof (rule signed_input_fits [OF assms(1)])
    show "signed_input cr tx keys n = Inr (signed_from cr tx keys 0 ! n)" using all n by blast
    show "Prefill (Scheme (keys ! n)) (TxIn tx ! n) = (ps ! n, Inr ())" using assms(8) n by blast
  qed (use assms(2,3) nth_mem [OF n] in blast)+
  then have "list_all2 fits (signed_from cr tx keys 0) ps"
    using all assms(7) by (intro list_all2_all_nthI) simp_all
  then show ?thesis
    using all assms(4) by (intro ComputeSize_mono) (simp_all add: tx')
qed

theorem prefill_bounds_size_witness:
  "\<exists>p. Prefill ''p2wpkh'' (TxIn sample_tx ! 0) = (p, Inr ()) \<and>
    ComputeSize (fst (Sign sign_crypto [segwit_key] sample_tx)) \<le> ComputeSize (sample_tx\<lparr>TxIn := [p]\<rparr>)"
proof -
  obtain tx' keys' r where S: "Sign sign_crypto [segwit_key] sample_tx = (tx', keys', r)"
    using prod_cases3 by blast
  have ne: "TxIn sample_tx \<noteq> []" by (simp add: sample_tx_def)
  have "r = Inr ()"
    using Sign_spec [OF segwit_key_facts(1) _ _ ne S] segwit_key_facts(2,5) segwit_outcome by simp
  moreover obtain p where p: "Prefill ''p2wpkh'' (TxIn sample_tx ! 0) = (p, Inr ())"
    by (simp add: Prefill_def Let_def)
  ultimately have "ComputeSize tx' \<le> ComputeSize (sample_tx\<lparr>TxIn := [p]\<rparr>)"
    using prefill_bounds_size [OF segwit_key_facts(1), of "[segwit_key]" sample_tx tx' keys' "[p]"] S ne segwit_key_facts
    by simp
  with p S show ?thesis by simp
qed

text \<open>
  C0: \<open>detectP2WSHInner\<close> answers with one of the four single-key scripts of the public key. When
  the input holds a \<open>p2wsh\<close> program, the script it answers with hashes to that program, and it
  answers whenever one of the four does.
\<close>

theorem detectP2WSHInner_correct:
  fixes cr tx n pub
  defines "inners \<equiv> {''p2pkh'', ''p2pk'', ''p2pukh'', ''p2puk''}" and "sc \<equiv> InScript (TxIn tx ! n)"
  shows "(\<forall>inner ws. detectP2WSHInner cr tx n pub = Inr (inner, ws) \<longrightarrow>
      inner \<in> inners \<and> script_spec cr pub inner = Inr ws \<and>
      (\<forall>h. length h = 32 \<and> sc = [0, 0x20] @ h \<longrightarrow> sha256 cr ws = h)) \<and>
    (\<forall>h inner ws. inner \<in> inners \<and> script_spec cr pub inner = Inr ws \<and> sha256 cr ws = h \<and> length h = 32 \<and>
      sc = [0, 0x20] @ h \<longrightarrow> (\<exists>r. detectP2WSHInner cr tx n pub = Inr r))"
proof -
  define target where "target = (if length sc = 34 \<and> sc ! 0 = 0 \<and> sc ! 1 = 0x20 then Some (drop 2 sc) else None)"
  have d: "detectP2WSHInner cr tx n pub = detect_loop cr target (New pub) [''p2pkh'', ''p2pk'', ''p2pukh'', ''p2puk'']"
    by (simp only: detectP2WSHInner_def target_def sc_def Let_def)
  have t: "length h = 32 \<Longrightarrow> sc = [0, 0x20] @ h \<Longrightarrow> target = Some h" for h
    by (simp add: target_def)
  have np: "\<forall>c \<in> set [''p2pkh'', ''p2pk'', ''p2pukh'', ''p2puk'']. script_spec cr pub c \<noteq> Inl Panic"
    using key_scripts_no_panic [of _ cr pub] by simp
  show ?thesis
  proof (intro conjI allI impI)
    fix inner ws assume "detectP2WSHInner cr tx n pub = Inr (inner, ws)"
    note f = detect_loop_finds [OF script_reachable.fresh this [unfolded d]]
    show "inner \<in> inners" "script_spec cr pub inner = Inr ws" using f by (auto simp: inners_def)
    show "sha256 cr ws = h" if "length h = 32 \<and> sc = [0, 0x20] @ h" for h
      using f t that by blast
  next
    fix h inner ws
    assume "inner \<in> inners \<and> script_spec cr pub inner = Inr ws \<and> sha256 cr ws = h \<and> length h = 32 \<and> sc = [0, 0x20] @ h"
    then show "\<exists>r. detectP2WSHInner cr tx n pub = Inr r"
      unfolding d using t [of h] by (intro detect_loop_complete [OF script_reachable.fresh np]) (auto simp: inners_def)
  qed
qed

theorem detectP2WSHInner_correct_witness:
  "\<exists>r. detectP2WSHInner sign_crypto
     (sample_tx\<lparr>TxIn := [(TxIn sample_tx ! 0)\<lparr>InScript := 0 # 0x20 # sha256 sign_crypto (0x21 # 2 # replicate 32 5 @ [0xac])\<rparr>]\<rparr>)
     0 sample_pub = Inr r"
proof -
  have "script_spec sign_crypto sample_pub ''p2pk'' = Inr (0x21 # 2 # replicate 32 5 @ [0xac])"
    by (simp add: key_scripts key_names sample_pub_def PushBytes_def)
  moreover have "length (sha256 sign_crypto b) = 32" for b
    by (simp add: sign_crypto_def)
  ultimately show ?thesis
    by (intro detectP2WSHInner_correct [THEN conjunct2, rule_format, where inner = "''p2pk''"]) auto
qed

text \<open>
  A flag with bits above the byte that the signature carries is accepted: the digest then commits to
  a flag no verifier can read back.
\<close>

lemma sighash_flag_lossy:
  "\<not> sighash_refused (segwit_key\<lparr>SigHash := 0x101\<rparr>)" "ucast (0x101 AND 0xff :: 32 word) = (1 :: byte)"
  by (simp_all add: sighash_refused_def segwit_key_def)

end
