(* ===== verification/BtcParse.thy ===== *)
theory BtcParse
  imports BtcPrefill
begin

text \<open>
  Reading signatures back out of transaction inputs (\<^verbatim>\<open>btctxparse.go\<close> and
  \<open>TaprootInputSighash\<close> of \<^verbatim>\<open>btctx_p2tr.go\<close>): the recognised spend patterns, DER
  signatures, multisig redeem scripts, and the digest a parsed signature is over. A nil slice of
  signatures is the empty list; the fields the code compares with nil are options. The elliptic
  curve library parses public keys and verifies signatures by the two functions that
  \<open>ResolveMultisigPubKey\<close> takes.
\<close>

record btc_input_sig =
  SigScheme :: string
  SigR :: bytes
  SigS :: bytes
  SigHashFlag :: "32 word"
  SigPubKey :: bytes
  RedeemScript :: "bytes option"
  Pubkeys :: "bytes list"
  LeafScript :: "bytes option"
  ControlBlock :: bytes

section \<open>ECDSA signatures\<close>

definition normalize32 :: "bytes \<Rightarrow> bytes result" where
  "normalize32 b =
     (let b = dropWhile (\<lambda>x. x = 0) b in
      if length b > 32 then fail ''value longer than 32 bytes (%d)''
      else Inr (replicate (32 - length b) 0 @ b))"

definition wrap_error :: "string \<Rightarrow> 'a result \<Rightarrow> 'a result" where
  "wrap_error msg r = (case r of Inl (Error e) \<Rightarrow> fail msg | _ \<Rightarrow> r)"

definition parseEcdsaSig :: "bytes \<Rightarrow> bytes \<Rightarrow> string \<Rightarrow> btc_input_sig result" where
  "parseEcdsaSig sigWithFlag pubKey scheme =
     (if length sigWithFlag < 9 then fail ''signature too short: %d bytes''
      else
        bindE (idx sigWithFlag (length sigWithFlag - 1)) (\<lambda>flag.
        bindE (slice_to sigWithFlag (length sigWithFlag - 1)) (\<lambda>der.
        if length der < 8 \<or> der ! 0 \<noteq> 0x30 then fail ''not a DER signature''
        else bindE (idx der 1) (\<lambda>d1.
        if unat d1 \<noteq> length der - 2 then fail ''DER length mismatch''
        else bindE (idx der 2) (\<lambda>d2.
        if d2 \<noteq> 2 then fail ''expected INTEGER for r''
        else bindE (idx der 3) (\<lambda>d3.
        let rLen = unat d3 in
        if 4 + rLen + 2 > length der then fail ''DER r overrun''
        else bindE (subslice der 4 (4 + rLen)) (\<lambda>r.
        bindE (idx der (4 + rLen)) (\<lambda>ds.
        if ds \<noteq> 2 then fail ''expected INTEGER for s''
        else bindE (idx der (4 + rLen + 1)) (\<lambda>dl.
        let sLen = unat dl in
        if 4 + rLen + 2 + sLen \<noteq> length der then fail ''DER s overrun''
        else bindE (subslice der (4 + rLen + 2) (4 + rLen + 2 + sLen)) (\<lambda>s.
        bindE (wrap_error ''invalid r: %w'' (normalize32 r)) (\<lambda>rN.
        bindE (wrap_error ''invalid s: %w'' (normalize32 s)) (\<lambda>sN.
        Inr \<lparr>SigScheme = scheme, SigR = rN, SigS = sN, SigHashFlag = ucast flag, SigPubKey = pubKey,
             RedeemScript = None, Pubkeys = [], LeafScript = None, ControlBlock = []\<rparr>))))))))))))"

section \<open>Taproot\<close>

definition isControlBlock :: "bytes \<Rightarrow> bool" where
  "isControlBlock b =
     (if length b < 33 \<or> (length b - 33) mod 32 \<noteq> 0 then False else b ! 0 AND 0xfe = 0xc0)"

definition parseTaprootSig :: "bytes \<Rightarrow> string \<Rightarrow> btc_input_sig option" where
  "parseTaprootSig sig scheme =
     (if length sig \<noteq> 64 \<and> length sig \<noteq> 65 then None
      else
        let flag = (if length sig = 65 then ucast (sig ! 64) else 0);
            rs = (if length sig = 65 then take 64 sig else sig)
        in Some \<lparr>SigScheme = scheme, SigR = take 32 rs, SigS = drop 32 rs, SigHashFlag = flag, SigPubKey = [],
                 RedeemScript = None, Pubkeys = [], LeafScript = None, ControlBlock = []\<rparr>)"

definition parseP2TRScriptPath :: "bytes list \<Rightarrow> btc_input_sig list result" where
  "parseP2TRScriptPath witness =
     (if length witness < 3 then Inr []
      else
        bindE (idx witness (length witness - 1)) (\<lambda>cb.
        bindE (idx witness (length witness - 2)) (\<lambda>leaf.
        bindE (slice_to witness (length witness - 2)) (\<lambda>stack.
        if length leaf \<noteq> 34 \<or> leaf ! 0 \<noteq> 0x20 \<or> leaf ! 33 \<noteq> 0xac then Inr []
        else if length stack \<noteq> 1 then Inr []
        else bindE (idx stack 0) (\<lambda>s0.
          case parseTaprootSig s0 ''p2tr-scriptpath'' of
            None \<Rightarrow> Inr []
          | Some parsed \<Rightarrow>
              bindE (subslice leaf 1 33) (\<lambda>pk.
              Inr [parsed\<lparr>SigPubKey := pk, LeafScript := Some leaf, ControlBlock := cb\<rparr>]))))))"

section \<open>Multisig\<close>

text \<open>The pushes of a script; \<open>None\<close> where the code gives up.\<close>

function sig_pushes :: "bytes \<Rightarrow> bytes list option" where
  "sig_pushes cur =
     (if length cur = 0 then Some []
      else
        let (d, n) = ParsePushBytes cur in
        if n = 0 then None
        else map_option (\<lambda>ps. (case d of None \<Rightarrow> [] | Some b \<Rightarrow> b) # ps) (sig_pushes (drop n cur)))"
  by pat_completeness auto
termination by (relation "measure length") auto

function key_pushes :: "bytes \<Rightarrow> bytes list option" where
  "key_pushes cur =
     (if length cur = 0 then Some []
      else
        case ParsePushBytes cur of
          (None, off) \<Rightarrow> None
        | (Some d, off) \<Rightarrow> if off = 0 then None else map_option (\<lambda>ps. d # ps) (key_pushes (drop off cur)))"
  by pat_completeness auto
termination by (relation "measure length") auto

declare sig_pushes.simps [simp del] key_pushes.simps [simp del]

definition parseMultisigPubkeys :: "bytes \<Rightarrow> bytes list option" where
  "parseMultisigPubkeys rs =
     (if length rs < 4 \<or> rs ! (length rs - 1) \<noteq> 0xae then None
      else if rs ! 0 < 0x51 \<or> rs ! 0 > 0x60 then None
      else
        let nOp = rs ! (length rs - 2) in
        if nOp < 0x51 \<or> nOp > 0x60 then None
        else
          let n = unat nOp - 0x50 in
          case key_pushes (take (length rs - 3) (drop 1 rs)) of
            None \<Rightarrow> None
          | Some pubkeys \<Rightarrow> if length pubkeys \<noteq> n then None else Some pubkeys)"

fun multisig_sigs :: "bytes \<Rightarrow> bytes list \<Rightarrow> bytes list \<Rightarrow> btc_input_sig list result" where
  "multisig_sigs redeem pubkeys [] = Inr []"
| "multisig_sigs redeem pubkeys (s # ss) =
     (if length s = 0 then multisig_sigs redeem pubkeys ss
      else
        bindE (parseEcdsaSig s [] ''p2sh-multisig'') (\<lambda>parsed.
        bindE (multisig_sigs redeem pubkeys ss) (\<lambda>rest.
        Inr (parsed\<lparr>RedeemScript := Some redeem, Pubkeys := pubkeys\<rparr> # rest))))"

text \<open>An error in a signature gives nil, as every other mismatch does.\<close>

definition parseP2SHMultisig :: "bytes \<Rightarrow> btc_input_sig list result" where
  "parseP2SHMultisig scriptSig =
     (if length scriptSig < 2 \<or> scriptSig ! 0 \<noteq> 0 then Inr []
      else
        bindE (slice_from scriptSig 1) (\<lambda>cur.
        case sig_pushes cur of
          None \<Rightarrow> Inr []
        | Some pushes \<Rightarrow>
            if length pushes < 2 then Inr []
            else
              bindE (idx pushes (length pushes - 1)) (\<lambda>redeem.
              bindE (slice_to pushes (length pushes - 1)) (\<lambda>sigPushes.
              case parseMultisigPubkeys redeem of
                None \<Rightarrow> Inr []
              | Some pubkeys \<Rightarrow>
                  (case multisig_sigs redeem pubkeys sigPushes of
                     Inl (Error e) \<Rightarrow> Inr []
                   | r \<Rightarrow> r)))))"

section \<open>The patterns\<close>

definition extractWitnessOnly :: "bytes list \<Rightarrow> btc_input_sig list result" where
  "extractWitnessOnly witness =
     bindE (idx witness (length witness - 1)) (\<lambda>cb.
     if length witness \<ge> 2 \<and> length cb > 0 \<and> cb ! 0 = 0x50 then Inr []
     else if length witness = 1 then
       bindE (idx witness 0) (\<lambda>w.
         case parseTaprootSig w ''p2tr-keypath'' of Some s \<Rightarrow> Inr [s] | None \<Rightarrow> Inr [])
     else if isControlBlock cb then parseP2TRScriptPath witness
     else if length witness = 2 then
       bindE (idx witness 1) (\<lambda>pub.
         if length pub > 0 \<and> (pub ! 0 = 2 \<or> pub ! 0 = 3 \<or> pub ! 0 = 4 \<or> pub ! 0 = 6 \<or> pub ! 0 = 7) then
           bindE (idx witness 0) (\<lambda>w. bindE (parseEcdsaSig w pub ''p2wpkh'') (\<lambda>s. Inr [s]))
         else Inr [])
     else Inr [])"

definition extract_p2pkh :: "bytes \<Rightarrow> btc_input_sig list result" where
  "extract_p2pkh scriptSig =
     (case ParsePushBytes scriptSig of
        (None, n) \<Rightarrow> Inr []
      | (Some sigB, n) \<Rightarrow>
          bindE (slice_from scriptSig n) (\<lambda>rest.
          case ParsePushBytes rest of
            (None, m) \<Rightarrow> Inr []
          | (Some pubB, m) \<Rightarrow>
              if n + m \<noteq> length scriptSig then Inr []
              else bindE (parseEcdsaSig sigB pubB ''p2pkh'') (\<lambda>s. Inr [s])))"

definition extractScriptSigOnly :: "bytes \<Rightarrow> btc_input_sig list result" where
  "extractScriptSigOnly scriptSig =
     bindE (idx scriptSig 0) (\<lambda>b0.
     if b0 = 0 then
       bindE (parseP2SHMultisig scriptSig) (\<lambda>out. if out \<noteq> [] then Inr out else extract_p2pkh scriptSig)
     else extract_p2pkh scriptSig)"

definition ExtractBtcInputSig :: "bytes \<Rightarrow> bytes list \<Rightarrow> btc_input_sig list result" where
  "ExtractBtcInputSig scriptSig witness =
     (if length scriptSig = 0 \<and> length witness > 0 then extractWitnessOnly witness
      else if length witness = 0 \<and> length scriptSig > 0 then extractScriptSigOnly scriptSig
      else Inr [])"

section \<open>The digest of a signature\<close>

definition legacySighash :: "'p crypto \<Rightarrow> btc_tx \<Rightarrow> nat \<Rightarrow> bytes \<Rightarrow> 32 word \<Rightarrow> bytes" where
  "legacySighash cr tx n scriptCode sigHashFlag =
     (let wtx = ClearInputs (BtcTx_Dup tx);
          wtx = set_input n (\<lambda>i. i\<lparr>InScript := scriptCode\<rparr>) wtx;
          buf = exportBytes False wtx @ put_u32 sigHashFlag
      in chash cr [Sha256New, Sha256New] buf)"

definition InputSighash :: "'p crypto \<Rightarrow> btc_tx \<Rightarrow> int \<Rightarrow> btc_input_sig \<Rightarrow> bytes \<Rightarrow> 64 word \<Rightarrow> bytes result" where
  "InputSighash cr tx i sig prevScript amount =
     (if i < 0 \<or> i \<ge> int (length (TxIn tx)) then fail ''input index %d out of range (have %d inputs)''
      else
        let n = nat i in
        if SigHashFlag sig \<noteq> 1 then fail ''unsupported sighash flag 0x%x (only SIGHASH_ALL=1 supported)''
        else if SigScheme sig = ''p2pkh'' then Inr (legacySighash cr tx n prevScript (SigHashFlag sig))
        else if SigScheme sig = ''p2sh-multisig'' then
          (case RedeemScript sig of
             None \<Rightarrow> fail ''p2sh-multisig requires RedeemScript''
           | Some rs \<Rightarrow> Inr (legacySighash cr tx n rs (SigHashFlag sig)))
        else if SigScheme sig = ''p2wpkh'' then
          let (pfx, sfx) = preimage cr tx;
              pkHash = chash cr [Sha256New, Ripemd160New] (SigPubKey sig);
              scriptCode = ([0x76, 0xa9] @ PushBytes pkHash) @ [0x88, 0xac];
              amountBytes = put_u64 amount;
              (inp, inputSeq) = preimageBytes (TxIn tx ! n);
              signString = pfx @ inp @ PushBytes scriptCode @ amountBytes @ inputSeq @ sfx;
              signString = signString @ put_u32 (SigHashFlag sig)
          in Inr (chash cr [Sha256New, Sha256New] signString)
        else fail ''unsupported scheme: %s'')"

definition TaprootInputSighash ::
    "'p crypto \<Rightarrow> btc_tx \<Rightarrow> int \<Rightarrow> btc_input_sig \<Rightarrow> bytes list \<Rightarrow> 64 word list \<Rightarrow> bytes result" where
  "TaprootInputSighash cr tx i sig prevScripts amounts =
     (if i < 0 \<or> i \<ge> int (length (TxIn tx)) then fail ''input index %d out of range (have %d inputs)''
      else if SigHashFlag sig \<noteq> 0 then fail ''taproot: only SIGHASH_DEFAULT (0) supported, got 0x%x''
      else
        bindE (taprootSighashPartsRaw cr tx prevScripts amounts) (\<lambda>parts.
        if SigScheme sig = ''p2tr-keypath'' then taprootKeySpendSighash cr tx (nat i) 0 parts
        else if SigScheme sig = ''p2tr-scriptpath'' then
          (case LeafScript sig of
             None \<Rightarrow> fail ''p2tr-scriptpath requires LeafScript''
           | Some leaf \<Rightarrow> taprootScriptPathSighash cr tx (nat i) 0 parts leaf)
        else fail ''not a taproot scheme: %s''))"

text \<open>
  \<open>parsePubKey\<close> and \<open>verify r s\<close> are the library's; the result also carries the signature, whose
  public key the call may set.
\<close>

fun resolve_loop ::
    "(bytes \<Rightarrow> 'k option) \<Rightarrow> (bytes \<Rightarrow> 'k \<Rightarrow> bool) \<Rightarrow> bytes \<Rightarrow> bytes list \<Rightarrow> bytes option" where
  "resolve_loop parsePubKey verify digest [] = None"
| "resolve_loop parsePubKey verify digest (pk # pks) =
     (case parsePubKey pk of
        None \<Rightarrow> resolve_loop parsePubKey verify digest pks
      | Some pub \<Rightarrow> if verify digest pub then Some pk else resolve_loop parsePubKey verify digest pks)"

definition ResolveMultisigPubKey ::
    "(bytes \<Rightarrow> 'k option) \<Rightarrow> (nat \<Rightarrow> nat \<Rightarrow> bytes \<Rightarrow> 'k \<Rightarrow> bool) \<Rightarrow> btc_input_sig \<Rightarrow> bytes \<Rightarrow>
      btc_input_sig \<times> bytes option result" where
  "ResolveMultisigPubKey parsePubKey verify sig digest =
     (if SigScheme sig \<noteq> ''p2sh-multisig'' then (sig, Inr (Some (SigPubKey sig)))
      else if length (Pubkeys sig) = 0 then (sig, Inr None)
      else if be_decode (SigR sig) \<ge> curve_order then (sig, fail ''r >= curve order'')
      else if be_decode (SigS sig) \<ge> curve_order then (sig, fail ''s >= curve order'')
      else
        case resolve_loop parsePubKey (verify (be_decode (SigR sig)) (be_decode (SigS sig))) digest (Pubkeys sig) of
          None \<Rightarrow> (sig, Inr None)
        | Some pk \<Rightarrow> (sig\<lparr>SigPubKey := pk\<rparr>, Inr (Some pk)))"

section \<open>DER\<close>

text \<open>The DER encoding of a number below \<open>2 ^ 256\<close>, and of a signature.\<close>

definition der_int :: "nat \<Rightarrow> bytes" where
  "der_int v =
     (let b = dropWhile (\<lambda>x. x = 0) (be_encode 32 v) in if b = [] \<or> hd b \<ge> 0x80 then 0 # b else b)"

definition der_sig :: "nat \<Rightarrow> nat \<Rightarrow> bytes" where
  "der_sig r s =
     (let body = [2, word_of_nat (length (der_int r))] @ der_int r @ [2, word_of_nat (length (der_int s))] @ der_int s
      in [0x30, word_of_nat (length body)] @ body)"

lemma der_int_length: "1 \<le> length (der_int v)" "length (der_int v) \<le> 33"
proof -
  have l: "length (dropWhile (\<lambda>x. x = 0) (be_encode 32 v)) \<le> 32"
    using length_dropWhile_le [of "\<lambda>x. x = 0" "be_encode 32 v"] by simp
  then show "1 \<le> length (der_int v)" "length (der_int v) \<le> 33"
    by (auto simp: der_int_def Let_def Suc_le_eq)
qed

lemma pad_dropWhile: "replicate (length xs - length (dropWhile (\<lambda>x. x = 0) xs)) 0 @ dropWhile (\<lambda>x. x = 0) xs = (xs :: bytes)"
  by (induction xs) (auto simp: Suc_diff_le length_dropWhile_le)

lemma normalize32_der_int: "normalize32 (der_int v) = Inr (be_encode 32 v)"
proof -
  let ?b = "dropWhile (\<lambda>x. x = 0) (be_encode 32 v)"
  have "dropWhile (\<lambda>x. x = 0) (der_int v) = ?b"
    by (simp add: der_int_def Let_def dropWhile_idem)
  moreover have "length ?b \<le> 32"
    using length_dropWhile_le [of "\<lambda>x. x = 0" "be_encode 32 v"] by simp
  ultimately show ?thesis
    using pad_dropWhile [of "be_encode 32 v"] by (simp add: normalize32_def)
qed

lemma length_der_sig: "8 \<le> length (der_sig r s)" "length (der_sig r s) \<le> 72"
  using der_int_length [of r] der_int_length [of s] by (simp_all add: der_sig_def Let_def)

lemma parseEcdsaSig_der:
  "parseEcdsaSig (der_sig r s @ [flag]) pub scheme =
    Inr \<lparr>SigScheme = scheme, SigR = be_encode 32 r, SigS = be_encode 32 s, SigHashFlag = ucast flag, SigPubKey = pub,
         RedeemScript = None, Pubkeys = [], LeafScript = None, ControlBlock = []\<rparr>"
proof -
  define t u w :: byte where "t = word_of_nat (length (der_int r) + length (der_int s) + 4)"
    and "u = word_of_nat (length (der_int r))" and "w = word_of_nat (length (der_int s))"
  have tuw: "unat t = 4 + (length (der_int r) + length (der_int s))" "unat u = length (der_int r)" "unat w = length (der_int s)"
    unfolding t_def u_def w_def using der_int_length [of r] der_int_length [of s]
    by (subst unat_of_nat_word8; linarith)+
  have d: "der_sig r s = [0x30, t, 2, u] @ der_int r @ [2, w] @ der_int s"
    by (simp add: der_sig_def Let_def algebra_simps t_def u_def w_def)
  let ?d = "der_sig r s" and ?n = "length (der_int r)" and ?m = "length (der_int s)"
  have at: "?d ! 0 = 0x30" "unat (?d ! Suc 0) = 4 + (?n + ?m)" "?d ! 2 = 2" "unat (?d ! 3) = ?n"
      "?d ! (4 + ?n) = 2" "unat (?d ! (5 + ?n)) = ?m"
    unfolding d by (simp_all add: nth_append numeral_eq_Suc tuw)
  have sub: "take ?n (drop 4 ?d) = der_int r" "drop (6 + ?n) ?d = der_int s"
    unfolding d by (simp_all add: numeral_eq_Suc)
  have len: "length ?d = 6 + (?n + ?m)" "(?d @ [flag]) ! (6 + (?n + ?m)) = flag"
    unfolding d by (simp_all add: nth_append)
  show ?thesis
    using length_der_sig [of r s]
    by (simp add: parseEcdsaSig_def len at sub Let_def normalize32_der_int wrap_error_def)
qed

section \<open>No panics\<close>

definition ok_sig :: "btc_input_sig \<Rightarrow> bool" where
  "ok_sig s \<longleftrightarrow> length (SigR s) = 32 \<and> length (SigS s) = 32"

text \<open>A list of well-formed signatures, or an error that is not a panic.\<close>

definition ok_sigs :: "btc_input_sig list result \<Rightarrow> bool" where
  "ok_sigs r \<longleftrightarrow> no_panic r \<and> (\<forall>ss. r = Inr ss \<longrightarrow> list_all ok_sig ss)"

lemma ok_sigs_simps [simp]: "ok_sigs (Inl (Error e))" "ok_sigs (Inr ss) = list_all ok_sig ss" "\<not> ok_sigs (Inl Panic)"
  by (simp_all add: ok_sigs_def)

lemma ok_sigs_bindE: "no_panic m \<Longrightarrow> (\<And>x. m = Inr x \<Longrightarrow> ok_sigs (f x)) \<Longrightarrow> ok_sigs (bindE m f)"
  by (cases m) (auto simp: ok_sigs_def no_panic_def)

lemma normalize32_ok: "no_panic (wrap_error e (normalize32 b))" "wrap_error e (normalize32 b) = Inr c \<Longrightarrow> length c = 32"
  by (auto simp: normalize32_def wrap_error_def Let_def split: if_splits)

lemma parseEcdsaSig_no_panic: "no_panic (parseEcdsaSig sig pub scheme)"
  unfolding parseEcdsaSig_def Let_def
  by (auto intro!: no_panic_bindE normalize32_ok simp: idx_def subslice_def slice_to_def)

lemma parseEcdsaSig_ok: "parseEcdsaSig sig pub scheme = Inr s \<Longrightarrow> ok_sig s"
  by (auto simp: parseEcdsaSig_def Let_def bindE_Inr_iff ok_sig_def dest!: normalize32_ok(2) split: if_splits)

lemma parseTaprootSig_ok: "parseTaprootSig sig scheme = Some s \<Longrightarrow> ok_sig s"
  by (auto simp: parseTaprootSig_def Let_def ok_sig_def split: if_splits)

lemma parseP2TRScriptPath_ok: "ok_sigs (parseP2TRScriptPath w)"
proof -
  have "ok_sig s" if "parseTaprootSig b n = Some p" "s = p\<lparr>SigPubKey := k, LeafScript := l, ControlBlock := c\<rparr>" for s b n p k l c
    using parseTaprootSig_ok [OF that(1)] that(2) by (simp add: ok_sig_def)
  then show ?thesis
    by (auto simp: parseP2TRScriptPath_def intro!: ok_sigs_bindE split: option.splits)
qed

lemma multisig_sigs_ok: "ok_sigs (multisig_sigs redeem pubkeys ss)"
proof (induction ss)
  case (Cons a ss)
  have np: "no_panic (multisig_sigs redeem pubkeys ss)"
    and all: "multisig_sigs redeem pubkeys ss = Inr r \<Longrightarrow> list_all ok_sig r" for r
    using Cons by (simp_all add: ok_sigs_def)
  have "ok_sig (x\<lparr>RedeemScript := rs, Pubkeys := ks\<rparr>)" if "ok_sig x" for x rs ks
    using that by (simp add: ok_sig_def)
  then show ?case
    using Cons by (auto intro!: ok_sigs_bindE parseEcdsaSig_no_panic np dest: all parseEcdsaSig_ok)
qed simp

lemma parseP2SHMultisig_ok: "ok_sigs (parseP2SHMultisig s)"
proof -
  have "ok_sigs (case multisig_sigs redeem pubkeys ss of Inl (Error e) \<Rightarrow> Inr [] | r \<Rightarrow> r)" for redeem pubkeys ss
    using multisig_sigs_ok [of redeem pubkeys ss] by (auto split: sum.splits failure.splits)
  then show ?thesis
    by (auto simp: parseP2SHMultisig_def intro!: ok_sigs_bindE split: option.splits)
qed

lemma extract_p2pkh_ok: "ok_sigs (extract_p2pkh s)"
proof (cases "ParsePushBytes s")
  case (Pair a n)
  then show ?thesis
    using ParsePushBytes_Some [of s _ n]
    by (auto simp: extract_p2pkh_def intro!: ok_sigs_bindE parseEcdsaSig_no_panic dest: parseEcdsaSig_ok split: option.splits prod.splits)
qed

lemma ExtractBtcInputSig_ok: "ok_sigs (ExtractBtcInputSig scriptSig witness)"
proof -
  have "ok_sigs (extractScriptSigOnly scriptSig)" if "length scriptSig > 0"
    using that parseP2SHMultisig_ok [of scriptSig] extract_p2pkh_ok [of scriptSig]
    by (auto simp: extractScriptSigOnly_def ok_sigs_def intro!: no_panic_bindE split: if_splits)
      (auto simp: bindE_Inr_iff split: if_splits)
  moreover have "ok_sigs (extractWitnessOnly witness)" if "length witness > 0"
    using that parseP2TRScriptPath_ok [of witness]
    by (auto simp: extractWitnessOnly_def intro!: ok_sigs_bindE parseEcdsaSig_no_panic dest: parseEcdsaSig_ok parseTaprootSig_ok
        split: option.splits)
  ultimately show ?thesis
    by (simp add: ExtractBtcInputSig_def)
qed

section \<open>Signed inputs read back\<close>

definition ecdsa_sig :: "string \<Rightarrow> nat \<Rightarrow> nat \<Rightarrow> byte \<Rightarrow> bytes \<Rightarrow> btc_input_sig" where
  "ecdsa_sig scheme r s flag pub =
     \<lparr>SigScheme = scheme, SigR = be_encode 32 r, SigS = be_encode 32 s, SigHashFlag = ucast flag, SigPubKey = pub,
      RedeemScript = None, Pubkeys = [], LeafScript = None, ControlBlock = []\<rparr>"

lemma parse_der: "parseEcdsaSig (der_sig r s @ [flag]) pub scheme = Inr (ecdsa_sig scheme r s flag pub)"
  by (simp add: parseEcdsaSig_der ecdsa_sig_def)

lemma extract_p2pkh_signed:
  assumes "length c < 2 ^ 32"
  shows "ExtractBtcInputSig (PushBytes (der_sig r s @ [flag]) @ PushBytes c) [] = Inr [ecdsa_sig ''p2pkh'' r s flag c]"
proof -
  let ?sig = "der_sig r s @ [flag]" and ?s = "PushBytes (der_sig r s @ [flag]) @ PushBytes c"
  have len: "length ?sig \<le> 75" "length ?sig < 2 ^ 32" "0 < length ?sig"
    using length_der_sig [of r s] by simp_all
  have "unat (word_of_nat (length ?sig) :: byte) = length ?sig"
    using len by (intro unat_of_nat_word8) linarith
  then have nz: "?s ! 0 \<noteq> 0" "?s \<noteq> []"
    using len(1,3) by (auto simp: PushBytes_def)
  have "ParsePushBytes ?s = (Some ?sig, length (PushBytes ?sig))"
    by (rule ParsePushBytes_PushBytes_append [OF len(2)])
  moreover have "ParsePushBytes (PushBytes c) = (Some c, length (PushBytes c))"
    using ParsePushBytes_PushBytes_append [OF assms, of "[]"] by simp
  ultimately have "extract_p2pkh ?s = Inr [ecdsa_sig ''p2pkh'' r s flag c]"
    by (simp add: extract_p2pkh_def parse_der)
  with nz show ?thesis
    by (simp add: ExtractBtcInputSig_def extractScriptSigOnly_def)
qed

lemma extract_p2wpkh_signed:
  assumes "length c = 33" "c ! 0 = 2 \<or> c ! 0 = 3"
  shows "ExtractBtcInputSig [] [der_sig r s @ [flag], c] = Inr [ecdsa_sig ''p2wpkh'' r s flag c]"
proof -
  have "\<not> isControlBlock c"
    using assms by (auto simp: isControlBlock_def)
  with assms show ?thesis
    by (auto simp: ExtractBtcInputSig_def extractWitnessOnly_def parse_der)
qed

lemma legacySighash_spec:
  assumes "hash_ok cr" "same_skeleton tx tx'" "n < length (TxIn tx)"
  shows "legacySighash cr tx' n prev flag = legacy_digest cr tx n prev flag"
proof -
  have sk: "same_skeleton tx (BtcTx_Dup tx')"
    using assms(2) Dup_skeleton same_skeleton_trans by blast
  have "legacySighash cr tx' n prev flag = legacy_hash cr (k\<lparr>SigHash := flag\<rparr>) (legacy_work n prev (BtcTx_Dup tx'))" for k :: btc_tx_sign
    by (simp add: legacySighash_def legacy_hash_def legacy_work_def)
  with legacy_work_skeleton(1) [OF sk] legacy_hash_spec [OF assms(1,3)] show ?thesis
    by simp
qed

lemma InputSighash_p2wpkh:
  assumes "hash_ok cr" "same_skeleton tx tx'" "n < length (TxIn tx)" "SigScheme sig = ''p2wpkh''" "SigHashFlag sig = 1"
  shows "InputSighash cr tx' (int n) sig prev amount =
    Inr (bip143_digest cr tx n (p2pkh_script (chash cr [Sha256New, Ripemd160New] (SigPubKey sig))) amount 1)"
proof -
  let ?sc = "p2pkh_script (chash cr [Sha256New, Ripemd160New] (SigPubKey sig))"
  have "length ?sc \<le> 75"
    using assms(1) by (simp add: hash_ok_def p2pkh_script_def length_PushBytes)
  from witness_hash_spec [OF assms(1-3) this disjI1 [OF refl], of "k\<lparr>SignAmount := amount, SigHash := 1\<rparr>" for k :: btc_tx_sign]
  have "witness_hash cr n (k\<lparr>SignAmount := amount, SigHash := 1\<rparr>) None tx' ?sc = bip143_digest cr tx n ?sc amount 1" for k :: btc_tx_sign
    by simp
  moreover have "n < length (TxIn tx')"
    using assms(2,3) same_skeleton_length by simp
  ultimately show ?thesis
    using assms(4,5)
    by (simp add: InputSighash_def witness_hash_def or_preimage_def p2pkh_script_def case_prod_beta Let_def)
qed

text \<open>A signer of ECDSA signatures in DER form.\<close>

definition der_signer :: "btc_tx_sign \<Rightarrow> (bytes \<Rightarrow> nat \<times> nat) \<Rightarrow> bool" where
  "der_signer k f \<longleftrightarrow> (\<forall>d. SignDigest (Key k) d = Inr (der_sig (fst (f d)) (snd (f d))))"

lemma signed_input_cases:
  assumes "hash_ok cr" "der_signer k f" "keys ! n = k" "SigHash k = 0 \<or> SigHash k = 1"
    and "compressed (Public (Key k)) = Some c" "signed_input cr tx keys n = Inr i"
  shows "Scheme k = ''p2pkh'' \<Longrightarrow> Witnesses i = Witnesses (TxIn tx ! n) \<and>
      (\<exists>prev d. script_spec cr (Public (Key k)) ''p2pkh'' = Inr prev \<and> d = legacy_digest cr tx n prev 1 \<and>
        InScript i = PushBytes (der_sig (fst (f d)) (snd (f d)) @ [1]) @ PushBytes c)"
    and "Scheme k = ''p2wpkh'' \<Longrightarrow> InScript i = [] \<and>
      (\<exists>d. d = bip143_digest cr tx n (p2pkh_script (chash cr [Sha256New, Ripemd160New] c)) (SignAmount k) 1 \<and>
        Witnesses i = [der_sig (fst (f d)) (snd (f d)) @ [1], c])"
proof -
  have k: "SigHash (default_sighash k) = 1" if "Scheme k \<noteq> ''p2tr''"
    using assms(4) that by (auto simp: default_sighash_def)
  have kd: "key_sign (default_sighash k) d = Inr (der_sig (fst (f d)) (snd (f d)) @ [1])" if "Scheme k \<noteq> ''p2tr''" for d
    using assms(2) k [OF that] by (simp add: key_sign_def der_signer_def)
  have comp: "script_spec cr (Public (Key k)) ''pubkey:comp'' = Inr c"
    using assms(5) by (simp add: key_names)
  show "Scheme k = ''p2pkh'' \<Longrightarrow> Witnesses i = Witnesses (TxIn tx ! n) \<and>
      (\<exists>prev d. script_spec cr (Public (Key k)) ''p2pkh'' = Inr prev \<and> d = legacy_digest cr tx n prev 1 \<and>
        InScript i = PushBytes (der_sig (fst (f d)) (snd (f d)) @ [1]) @ PushBytes c)"
    using assms(6) k kd by (auto simp: signed_input_def assms(3) Let_def comp key_scripts sighash_refused_def split: if_splits)
  show "Scheme k = ''p2wpkh'' \<Longrightarrow> InScript i = [] \<and>
      (\<exists>d. d = bip143_digest cr tx n (p2pkh_script (chash cr [Sha256New, Ripemd160New] c)) (SignAmount k) 1 \<and>
        Witnesses i = [der_sig (fst (f d)) (snd (f d)) @ [1], c])"
    using assms(6) k kd by (auto simp: signed_input_def assms(3) Let_def comp sighash_refused_def split: if_splits)
qed

section \<open>Multisig\<close>

lemma PushBytes_not_empty: "PushBytes v \<noteq> []"
  by (simp add: PushBytes_def)

lemma pushes_concat:
  "\<forall>p \<in> set ps. length p < 2 ^ 32 \<Longrightarrow>
    sig_pushes (concat (map PushBytes ps)) = Some ps \<and> key_pushes (concat (map PushBytes ps)) = Some ps"
proof (induction ps)
  case Nil
  show ?case
    by (simp add: sig_pushes.simps [of "[]"] key_pushes.simps [of "[]"])
next
  case (Cons p ps)
  let ?rest = "concat (map PushBytes ps)"
  have "ParsePushBytes (PushBytes p @ ?rest) = (Some p, length (PushBytes p))"
    using Cons.prems by (intro ParsePushBytes_PushBytes_append) simp
  with Cons PushBytes_not_empty [of p] show ?case
    using sig_pushes.simps [of "PushBytes p @ ?rest"] key_pushes.simps [of "PushBytes p @ ?rest"]
    by (simp add: Let_def)
qed

text \<open>The redeem script of an \<open>m\<close>-of-\<open>n\<close> multisig address.\<close>

definition multisig_script :: "nat \<Rightarrow> bytes list \<Rightarrow> bytes" where
  "multisig_script m keys =
     [word_of_nat (0x50 + m)] @ concat (map PushBytes keys) @ [word_of_nat (0x50 + length keys), 0xae]"

lemma op_n:
  assumes "1 \<le> n" "n \<le> 16"
  shows "unat (word_of_nat (0x50 + n) :: byte) = 0x50 + n" "\<not> (word_of_nat (0x50 + n) :: byte) < 0x51"
    "\<not> (word_of_nat (0x50 + n) :: byte) > 0x60"
proof -
  show u: "unat (word_of_nat (0x50 + n) :: byte) = 0x50 + n"
    using assms by (intro unat_of_nat_word8) linarith
  show "\<not> (word_of_nat (0x50 + n) :: byte) < 0x51" "\<not> (word_of_nat (0x50 + n) :: byte) > 0x60"
    unfolding word_less_nat_alt u using assms by simp_all
qed

lemma parseMultisigPubkeys_script:
  assumes "1 \<le> m" "m \<le> 16" "1 \<le> length keys" "length keys \<le> 16" "\<forall>k \<in> set keys. length k < 2 ^ 32"
  shows "parseMultisigPubkeys (multisig_script m keys) = Some keys"
proof -
  define a b :: byte where "a = word_of_nat (0x50 + m)" and "b = word_of_nat (0x50 + length keys)"
  define ks where "ks = concat (map PushBytes keys)"
  have ab: "\<not> a < 0x51" "\<not> a > 0x60" "\<not> b < 0x51" "\<not> b > 0x60" "unat b = 0x50 + length keys"
    unfolding a_def b_def using op_n [of m] op_n [of "length keys"] assms by simp_all
  have rs: "multisig_script m keys = a # ks @ [b, 0xae]"
    by (simp add: multisig_script_def a_def b_def ks_def)
  have "ks \<noteq> []"
    using assms(3) PushBytes_not_empty by (cases keys) (auto simp: ks_def)
  moreover have "key_pushes ks = Some keys"
    using pushes_concat assms(5) unfolding ks_def by blast
  ultimately show ?thesis
    using ab by (simp add: rs parseMultisigPubkeys_def nth_append Let_def nth_Cons' Suc_le_eq)
qed

text \<open>A signature of a multisig input: a DER signature with its flag, or an empty placeholder.\<close>

definition sig_push :: "(nat \<times> nat \<times> byte) option \<Rightarrow> bytes" where
  "sig_push slot = (case slot of None \<Rightarrow> [] | Some (r, s, flag) \<Rightarrow> der_sig r s @ [flag])"

definition slot_sig :: "bytes \<Rightarrow> bytes list \<Rightarrow> nat \<times> nat \<times> byte \<Rightarrow> btc_input_sig" where
  "slot_sig redeem keys = (\<lambda>(r, s, flag). (ecdsa_sig ''p2sh-multisig'' r s flag [])\<lparr>RedeemScript := Some redeem, Pubkeys := keys\<rparr>)"

lemma multisig_sigs_slots:
  "multisig_sigs redeem keys (map sig_push slots) = Inr (map (slot_sig redeem keys) (map the (filter (\<lambda>x. x \<noteq> None) slots)))"
  by (induction slots) (auto simp: sig_push_def slot_sig_def parse_der split: option.splits)

lemma sig_push_length: "length (sig_push slot) < 2 ^ 32"
  by (auto simp: sig_push_def split: option.splits intro: le_less_trans [OF length_der_sig(2)])

section \<open>Properties\<close>

text \<open>
  An ECDSA signature in DER form with its flag byte parses to its two numbers, padded to 32
  bytes, and that flag.
\<close>

theorem ecdsa_sig_roundtrip:
  assumes "r < 2 ^ 256" "s < 2 ^ 256"
  shows "\<exists>sig. parseEcdsaSig (der_sig r s @ [flag]) pub scheme = Inr sig \<and> be_decode (SigR sig) = r \<and>
    be_decode (SigS sig) = s \<and> SigHashFlag sig = ucast flag \<and> SigPubKey sig = pub"
proof -
  have "(2 :: nat) ^ 256 = 256 ^ 32" by simp
  with assms have "r mod 256 ^ 32 = r" "s mod 256 ^ 32 = s" by simp_all
  then show ?thesis
    by (simp only: parseEcdsaSig_der) (simp add: be_decode_encode)
qed

theorem ecdsa_sig_roundtrip_witness:
  "\<exists>sig. parseEcdsaSig (der_sig 0x80 0 @ [1]) [] ''p2pkh'' = Inr sig \<and> be_decode (SigR sig) = 0x80 \<and>
    be_decode (SigS sig) = 0 \<and> SigHashFlag sig = ucast (1 :: byte) \<and> SigPubKey sig = []"
  by (rule ecdsa_sig_roundtrip) simp_all


text \<open>
  C14: an input that \<open>Sign\<close> signed for \<open>p2pkh\<close> or \<open>p2wpkh\<close> with a DER signer reads back as one
  signature carrying the signer's numbers and the public key, and \<open>InputSighash\<close> of the signed
  transaction is the digest that was signed.
\<close>

theorem signed_input_read_back:
  assumes "hash_ok cr" "\<forall>k \<in> set keys. key_lengths (Public (Key k))" "length keys = length (TxIn tx)" "TxIn tx \<noteq> []"
    and "Sign cr keys tx = (tx', keys', Inr ())" and "n < length keys" "keys ! n = k"
    and "Scheme k = ''p2wpkh'' \<or> Scheme k = ''p2pkh'' \<and> Witnesses (TxIn tx ! n) = []" "SigHash k = 0 \<or> SigHash k = 1"
    and "compressed (Public (Key k)) = Some c" "length c = 33" "c ! 0 = 2 \<or> c ! 0 = 3" and "der_signer k f"
    and "script_spec cr (Public (Key k)) ''p2pkh'' = Inr prev"
  shows "\<exists>sig d. ExtractBtcInputSig (InScript (TxIn tx' ! n)) (Witnesses (TxIn tx' ! n)) = Inr [sig] \<and>
    InputSighash cr tx' (int n) sig prev (SignAmount k) = Inr d \<and>
    SigR sig = be_encode 32 (fst (f d)) \<and> SigS sig = be_encode 32 (snd (f d)) \<and> SigPubKey sig = c"
proof -
  note sk = Sign_inputs(1) [OF assms(1-5)]
  note i = signed_input_cases [where k = k, OF assms(1,13,7,9,10) Sign_inputs(2) [OF assms(1-6)]]
  have n: "n < length (TxIn tx)" "n < length (TxIn tx')"
    using assms(3,6) same_skeleton_length [OF sk] by simp_all
  from assms(8) show ?thesis
  proof (elim disjE conjE)
    assume "Scheme k = ''p2wpkh''"
    from i(2) [OF this] show ?thesis
      using extract_p2wpkh_signed [OF assms(11,12)] InputSighash_p2wpkh [OF assms(1) sk n(1)]
      by (auto simp: ecdsa_sig_def)
  next
    assume "Scheme k = ''p2pkh''" "Witnesses (TxIn tx ! n) = []"
    with i(1) assms(14) have "Witnesses (TxIn tx' ! n) = []" "InScript (TxIn tx' ! n) =
        PushBytes (der_sig (fst (f (legacy_digest cr tx n prev 1))) (snd (f (legacy_digest cr tx n prev 1))) @ [1]) @ PushBytes c"
      by auto
    moreover have "InputSighash cr tx' (int n) (ecdsa_sig ''p2pkh'' r s 1 c) prev a = Inr (legacy_digest cr tx n prev 1)" for r s a
      using n(2) legacySighash_spec [OF assms(1) sk n(1)] by (simp add: InputSighash_def ecdsa_sig_def)
    ultimately show ?thesis
      using extract_p2pkh_signed [of c] assms(11) by (simp add: ecdsa_sig_def)
  qed
qed

definition der_key :: btc_tx_sign where
  "der_key = segwit_key\<lparr>Key := (Key segwit_key)\<lparr>SignDigest := \<lambda>d. Inr (der_sig 5 (be_decode d))\<rparr>\<rparr>"

lemma der_key_facts:
  "der_signer der_key (\<lambda>d. (5, be_decode d))" "compressed (Public (Key der_key)) = Some (2 # replicate 32 5)"
  "SigHash der_key = 0" "Scheme der_key = ''p2wpkh''" "SignAmount der_key = 5" "Public (Key der_key) = Public (Key segwit_key)"
  by (simp_all add: der_key_def der_signer_def segwit_key_def sample_pub_def)

lemma der_key_outcome: "sign_outcome sign_crypto sample_tx [der_key] 0 = Inr ()"
  by (simp add: sign_outcome_def signed_input_def der_key_def segwit_key_def default_sighash_def sighash_refused_def
      key_names sample_pub_def key_sign_def)

theorem signed_input_read_back_witness:
  "\<exists>tx' keys' prev sig d. Sign sign_crypto [der_key] sample_tx = (tx', keys', Inr ()) \<and>
    ExtractBtcInputSig (InScript (TxIn tx' ! 0)) (Witnesses (TxIn tx' ! 0)) = Inr [sig] \<and>
    InputSighash sign_crypto tx' (int 0) sig prev (SignAmount der_key) = Inr d \<and>
    SigR sig = be_encode 32 (fst (5 :: nat, be_decode d)) \<and> SigS sig = be_encode 32 (snd (5 :: nat, be_decode d)) \<and>
    SigPubKey sig = 2 # replicate 32 5"
proof -
  obtain tx' keys' r where S: "Sign sign_crypto [der_key] sample_tx = (tx', keys', r)"
    using prod_cases3 by blast
  have ne: "TxIn sample_tx \<noteq> []" "length [der_key] = length (TxIn sample_tx)"
    and kl: "\<forall>k \<in> set [der_key]. key_lengths (Public (Key k))"
    using segwit_key_facts(2) by (simp_all add: sample_tx_def der_key_facts)
  have r: "r = Inr ()"
    using Sign_spec [OF segwit_key_facts(1) kl ne(2,1) S] der_key_outcome by simp
  obtain prev where prev: "script_spec sign_crypto (Public (Key der_key)) ''p2pkh'' = Inr prev"
    using der_key_facts(2) by (simp add: key_scripts key_names)
  have "\<exists>sig d. ExtractBtcInputSig (InScript (TxIn tx' ! 0)) (Witnesses (TxIn tx' ! 0)) = Inr [sig] \<and>
      InputSighash sign_crypto tx' (int 0) sig prev (SignAmount der_key) = Inr d \<and>
      SigR sig = be_encode 32 (fst (5 :: nat, be_decode d)) \<and> SigS sig = be_encode 32 (snd (5 :: nat, be_decode d)) \<and>
      SigPubKey sig = 2 # replicate 32 5"
    by (rule signed_input_read_back [OF segwit_key_facts(1) kl ne(2,1) S [unfolded r] _ _ _ _ der_key_facts(2) _ _ der_key_facts(1) prev])
      (use der_key_facts in simp_all)
  with S r show ?thesis
    by blast
qed

text \<open>
  C21: a multisig input made of signatures (or empty placeholders) and the redeem script of its keys
  reads back as those signatures in order, each with the redeem script and all the keys.
\<close>

theorem multisig_read_back:
  assumes "1 \<le> m" "m \<le> 16" "1 \<le> length keys" "length keys \<le> 16" "\<forall>k \<in> set keys. length k < 1000"
    and "filter (\<lambda>x. x \<noteq> None) slots \<noteq> []"
  shows "ExtractBtcInputSig (0 # concat (map PushBytes (map sig_push slots)) @ PushBytes (multisig_script m keys)) [] =
    Inr (map (slot_sig (multisig_script m keys) keys) (map the (filter (\<lambda>x. x \<noteq> None) slots)))"
proof -
  let ?redeem = "multisig_script m keys"
  let ?pushes = "map sig_push slots @ [?redeem]"
  have keys: "\<forall>k \<in> set keys. length k < 2 ^ 32"
    using assms(5) by auto
  have "length (concat (map PushBytes keys)) \<le> sum_list (map (\<lambda>k. 1010) keys)"
    unfolding length_concat map_map comp_def using assms(5)
    by (intro sum_list_mono) (auto simp: length_PushBytes)
  then have "length ?redeem < 2 ^ 32"
    using assms(4) by (simp add: multisig_script_def sum_list_triv)
  then have "sig_pushes (concat (map PushBytes ?pushes)) = Some ?pushes"
    using pushes_concat [of ?pushes] sig_push_length by auto
  moreover have "slots \<noteq> []"
    using assms(6) by auto
  ultimately have "parseP2SHMultisig (0 # concat (map PushBytes (map sig_push slots)) @ PushBytes ?redeem) =
      Inr (map (slot_sig ?redeem keys) (map the (filter (\<lambda>x. x \<noteq> None) slots)))"
    using parseMultisigPubkeys_script [OF assms(1-4) keys] multisig_sigs_slots [of ?redeem keys slots] PushBytes_not_empty
    by (simp add: parseP2SHMultisig_def Suc_le_eq nth_append)
  then show ?thesis
    using assms(6) by (simp add: ExtractBtcInputSig_def extractScriptSigOnly_def)
qed

theorem multisig_read_back_witness:
  "ExtractBtcInputSig (0 # concat (map PushBytes (map sig_push [None, Some (1, 2, 1)])) @
      PushBytes (multisig_script 1 [replicate 33 2, replicate 33 3])) [] =
    Inr [slot_sig (multisig_script 1 [replicate 33 2, replicate 33 3]) [replicate 33 2, replicate 33 3] (1, 2, 1)]"
  using multisig_read_back [of 1 "[replicate 33 2, replicate 33 3]" "[None, Some (1, 2, 1)]"] by simp

end
