(* ===== verification/EvmRlp.thy ===== *)
theory EvmRlp
  imports Script
begin

text \<open>
  What the EVM code takes from libraries: the RLP encoder and decoder, the conversion of decoded
  lists and the signatures of the secp256k1 library. \<open>rlp_ok\<close> states what the code relies on of RLP;
  \<open>reference_rlp\<close> is an encoder and decoder written from the RLP specification for which it holds.
\<close>

text \<open>The Go values handed to \<open>rlp.EncodeValue\<close> and the values \<open>rlp.Decode\<close> returns.\<close>

datatype go_val =
    VUint "64 word"
  | VInt int
  | VBig "int option"
  | VStr string
  | VBytes bytes
  | VList "go_val list"

datatype rlp_item = RBytes bytes | RList "rlp_item list"

record 'k evm_lib =
  EncodeValue :: "go_val list \<Rightarrow> bytes result"
  RlpDecode :: "bytes \<Rightarrow> rlp_item list result"
  AsByteSlices :: "rlp_item \<Rightarrow> bytes list result"
  DecodeUint64 :: "bytes \<Rightarrow> 64 word result"
  ParseDERSignature :: "bytes \<Rightarrow> (nat \<times> nat) result"
  BruteforceRecoveryCode :: "nat \<times> nat \<Rightarrow> bytes \<Rightarrow> 'k \<Rightarrow> nat option"
  RecoverPublicKey :: "nat \<times> nat \<Rightarrow> nat \<Rightarrow> bytes \<Rightarrow> 'k result"
  encodings :: "'k \<Rightarrow> public_key"

text \<open>The shortest big-endian form of a number: \<open>big.Int.Bytes\<close>.\<close>

fun be_min :: "nat \<Rightarrow> bytes" where
  "be_min n = (if n = 0 then [] else be_min (n div 256) @ [word_of_nat n])"

declare be_min.simps [simp del]

lemma be_min_0 [simp]: "be_min 0 = []"
  by (subst be_min.simps) simp

lemma be_min_pos: "n \<noteq> 0 \<Longrightarrow> be_min n = be_min (n div 256) @ [word_of_nat n]"
  by (subst be_min.simps) simp

lemma be_decode_append: "be_decode (xs @ [b]) = be_decode xs * 256 + unat b"
  by (simp add: be_decode_def)

lemma be_decode_min [simp]: "be_decode (be_min n) = n"
proof (induction n rule: be_min.induct)
  case (1 n)
  show ?case
  proof (cases "n = 0")
    case True
    then show ?thesis by (simp add: be_decode_def)
  next
    case False
    with 1 have "be_decode (be_min (n div 256)) = n div 256" by simp
    with be_min_pos [OF False] show ?thesis
      by (simp add: be_decode_append unat_byte_of_nat)
  qed
qed

lemma be_min_length: "n < 256 ^ k \<Longrightarrow> length (be_min n) \<le> k"
proof (induction k arbitrary: n)
  case (Suc k)
  have "n div 256 < 256 ^ k"
    using Suc.prems by (simp add: less_mult_imp_div_less mult.commute)
  from Suc.IH [OF this] show ?case
    by (cases "n = 0") (simp_all add: be_min_pos)
qed simp

lemma be_min_not_empty: "n \<noteq> 0 \<Longrightarrow> be_min n \<noteq> []"
  by (simp add: be_min_pos)

section \<open>The RLP of a Go value\<close>

text \<open>
  Integers are their shortest form, strings with the prefix \<open>0x\<close> the bytes they spell, slices of
  bytes themselves and slices of values lists; other values have no RLP here.
\<close>

fun item_of :: "go_val \<Rightarrow> rlp_item option" and items_of :: "go_val list \<Rightarrow> rlp_item list option" where
  "item_of (VUint w) = Some (RBytes (be_min (unat w)))"
| "item_of (VInt i) = (if i < 0 then None else Some (RBytes (be_min (nat i))))"
| "item_of (VBig v) = (case v of Some i \<Rightarrow> if i < 0 then None else Some (RBytes (be_min (nat i))) | None \<Rightarrow> None)"
| "item_of (VStr s) =
     (if take 2 s = ''0x'' then case hex_decode (drop 2 s) of Inr b \<Rightarrow> Some (RBytes b) | Inl e \<Rightarrow> None else None)"
| "item_of (VBytes b) = Some (RBytes b)"
| "item_of (VList vs) = map_option RList (items_of vs)"
| "items_of [] = Some []"
| "items_of (v # vs) =
     (case item_of v of None \<Rightarrow> None | Some i \<Rightarrow> map_option (\<lambda>is. i # is) (items_of vs))"

definition rlp_ok :: "'k evm_lib \<Rightarrow> bool" where
  "rlp_ok lib \<longleftrightarrow>
     (\<forall>vs its bs. items_of vs = Some its \<longrightarrow> EncodeValue lib vs = Inr bs \<longrightarrow>
        bs \<noteq> [] \<and> 0xc0 \<le> hd bs \<and> RlpDecode lib bs = Inr [RList its]) \<and>
     (\<forall>bss. AsByteSlices lib (RList (map RBytes bss)) = Inr bss) \<and>
     (\<forall>b. length b \<le> 8 \<longrightarrow> DecodeUint64 lib b = Inr (word_of_nat (be_decode b)))"

section \<open>A reference encoder and decoder\<close>

definition rlp_header :: "nat \<Rightarrow> nat \<Rightarrow> bytes" where
  "rlp_header base n =
     (if n < 56 then [word_of_nat (base + n)] else word_of_nat (base + 55 + length (be_min n)) # be_min n)"

fun rlp_encode :: "rlp_item \<Rightarrow> bytes" where
  "rlp_encode (RBytes b) =
     (if length b = 1 \<and> hd b < 0x80 then b else rlp_header 0x80 (length b) @ b)"
| "rlp_encode (RList its) = (let p = concat (map rlp_encode its) in rlp_header 0xc0 (length p) @ p)"

text \<open>The payload announced by a first byte above \<open>base\<close>, and what follows it.\<close>

definition rlp_payload :: "nat \<Rightarrow> nat \<Rightarrow> bytes \<Rightarrow> (bytes \<times> bytes) option" where
  "rlp_payload base b0 rest =
     (let k = b0 - base in
      if k < 56 then if k \<le> length rest then Some (take k rest, drop k rest) else None
      else
        let l = k - 55; n = be_decode (take l rest); rest = drop l rest in
        if n \<le> length rest then Some (take n rest, drop n rest) else None)"

fun rlp_decode :: "nat \<Rightarrow> bytes \<Rightarrow> rlp_item list option" where
  "rlp_decode 0 bs = None"
| "rlp_decode (Suc f) [] = Some []"
| "rlp_decode (Suc f) (b # bs) =
     (if b < 0x80 then map_option (\<lambda>is. RBytes [b] # is) (rlp_decode f bs)
      else if b < 0xc0 then
        (case rlp_payload 0x80 (unat b) bs of
           None \<Rightarrow> None
         | Some (p, rest) \<Rightarrow> map_option (\<lambda>is. RBytes p # is) (rlp_decode f rest))
      else
        (case rlp_payload 0xc0 (unat b) bs of
           None \<Rightarrow> None
         | Some (p, rest) \<Rightarrow>
             (case rlp_decode f p of
                None \<Rightarrow> None
              | Some sub \<Rightarrow> map_option (\<lambda>is. RList sub # is) (rlp_decode f rest))))"

lemma rlp_header_shape:
  assumes "n < 2 ^ 64" "base \<le> 192"
  obtains h t where "rlp_header base n = h # t" "base \<le> unat h" "unat h < base + 64"
    "\<And>p rest. length p = n \<Longrightarrow> rlp_payload base (unat h) (t @ p @ rest) = Some (p, rest)"
proof (cases "n < 56")
  case True
  then have u: "unat (word_of_nat (base + n) :: byte) = base + n"
    using assms(2) by (subst unat_byte_of_nat) simp
  show ?thesis
    using True u by (intro that [of "word_of_nat (base + n)" "[]"]) (simp_all add: rlp_header_def rlp_payload_def)
next
  case False
  have "n < 256 ^ 8" using assms(1) by simp
  then have l: "length (be_min n) \<le> 8" by (rule be_min_length)
  have l0: "0 < length (be_min n)" using False be_min_not_empty [of n] by simp
  have u: "unat (word_of_nat (base + 55 + length (be_min n)) :: byte) = base + 55 + length (be_min n)"
    using assms(2) l by (subst unat_byte_of_nat) simp
  show ?thesis
  proof (rule that [of "word_of_nat (base + 55 + length (be_min n))" "be_min n"])
    show "rlp_header base n = word_of_nat (base + 55 + length (be_min n)) # be_min n"
      using False by (simp add: rlp_header_def)
    show "rlp_payload base (unat (word_of_nat (base + 55 + length (be_min n)) :: byte)) (be_min n @ p @ rest) = Some (p, rest)"
      if "length p = n" for p rest
      unfolding u using that l0 by (simp add: rlp_payload_def)
  qed (use u l in simp_all)
qed

lemma rlp_encode_not_empty: "rlp_encode it \<noteq> []"
  by (cases it) (auto simp: Let_def rlp_header_def)

lemma rlp_decode_item:
  "length (rlp_encode it) < 2 ^ 64 \<Longrightarrow> f > length (rlp_encode it @ rest) \<Longrightarrow>
    (\<And>f. f > length rest \<Longrightarrow> rlp_decode f rest = Some its) \<Longrightarrow> rlp_decode f (rlp_encode it @ rest) = Some (it # its)"
proof (induction it arbitrary: f rest its)
  case (RBytes b)
  obtain g where f: "f = Suc g" using RBytes(2) by (cases f) auto
  show ?case
  proof (cases "length b = 1 \<and> hd b < 0x80")
    case True
    then obtain x where "b = [x]" "x < 0x80" by (cases b) auto
    with RBytes(2,3) f show ?thesis by simp
  next
    case False
    with RBytes(1) have n: "length b < 2 ^ 64" by (auto split: if_splits)
    obtain h t where h: "rlp_header 0x80 (length b) = h # t" "0x80 \<le> unat h" "unat h < 0x80 + 64"
      and pay: "\<And>p rest. length p = length b \<Longrightarrow> rlp_payload 0x80 (unat h) (t @ p @ rest) = Some (p, rest)"
      using rlp_header_shape [OF n, of 128] by auto
    have enc: "rlp_encode (RBytes b) = h # t @ b"
      using False h(1) by auto
    have "\<not> h < 0x80" "h < 0xc0" using h(2,3) by (simp_all add: word_less_nat_alt)
    moreover have "rlp_decode g rest = Some its"
      using RBytes(2,3) f unfolding enc by simp
    ultimately show ?thesis
      unfolding enc f using pay [of b rest] by simp
  qed
next
  case (RList xs)
  define p where "p = concat (map rlp_encode xs)"
  have n: "length p < 2 ^ 64" using RList(2) by (simp add: Let_def p_def)
  obtain h t where h: "rlp_header 0xc0 (length p) = h # t" "0xc0 \<le> unat h"
    and pay: "\<And>q rest. length q = length p \<Longrightarrow> rlp_payload 0xc0 (unat h) (t @ q @ rest) = Some (q, rest)"
    using rlp_header_shape [OF n, of 192] by auto
  have enc: "rlp_encode (RList xs) = h # t @ p" using h(1) by (simp add: Let_def p_def)
  obtain g where f: "f = Suc g" using RList(3) by (cases f) auto
  have sub: "ys \<noteq> [] \<or> True \<Longrightarrow> set ys \<subseteq> set xs \<Longrightarrow> length (concat (map rlp_encode ys)) < 2 ^ 64 \<Longrightarrow>
      k > length (concat (map rlp_encode ys)) \<Longrightarrow> rlp_decode k (concat (map rlp_encode ys)) = Some ys" for ys k
  proof (induction ys arbitrary: k)
    case Nil
    then show ?case by (cases k) simp_all
  next
    case (Cons y ys)
    have "rlp_decode k (rlp_encode y @ concat (map rlp_encode ys)) = Some (y # ys)"
      by (rule RList.IH) (use Cons in auto)
    then show ?case by simp
  qed
  have "rlp_decode g p = Some xs"
    unfolding p_def by (rule sub) (use n RList(3) f enc in \<open>auto simp: p_def [symmetric]\<close>)
  moreover have "rlp_decode g rest = Some its" using RList(3,4) f enc by simp
  moreover have "\<not> h < 0x80" "\<not> h < 0xc0" using h(2) by (simp_all add: word_less_nat_alt)
  ultimately show ?case
    unfolding enc f using pay [of p rest] by simp
qed

definition reference_rlp :: "nat evm_lib \<Rightarrow> nat evm_lib" where
  "reference_rlp lib = lib\<lparr>
     EncodeValue := \<lambda>vs. (case items_of vs of
         None \<Rightarrow> fail ''rlp''
       | Some its \<Rightarrow> let b = rlp_encode (RList its) in if length b < 2 ^ 64 then Inr b else fail ''rlp''),
     RlpDecode := \<lambda>b. (case rlp_decode (length b + 1) b of None \<Rightarrow> fail ''rlp'' | Some its \<Rightarrow> Inr its),
     AsByteSlices := \<lambda>it. (case it of
         RBytes b \<Rightarrow> fail ''list expected''
       | RList its \<Rightarrow> mapE (\<lambda>i. case i of RBytes b \<Rightarrow> Inr b | RList _ \<Rightarrow> fail ''bytes expected'') its),
     DecodeUint64 := \<lambda>b. if length b > 8 then Inl Panic else Inr (word_of_nat (be_decode b))\<rparr>"

lemma reference_rlp_ok: "rlp_ok (reference_rlp lib)"
proof -
  have "bs \<noteq> [] \<and> 0xc0 \<le> hd bs \<and> RlpDecode (reference_rlp lib) bs = Inr [RList its]"
    if vs: "items_of vs = Some its" "EncodeValue (reference_rlp lib) vs = Inr bs" for vs its bs
  proof -
    have bs: "bs = rlp_encode (RList its)" "length bs < 2 ^ 64"
      using vs by (auto simp: reference_rlp_def Let_def split: if_splits)
    have "rlp_decode (length bs + 1) (rlp_encode (RList its) @ []) = Some [RList its]"
      by (rule rlp_decode_item) (use bs in \<open>auto simp: Suc_le_eq dest: gr0_implies_Suc\<close>)
    moreover have "length (concat (map rlp_encode its)) < 2 ^ 64"
      using bs by (simp add: Let_def)
    then obtain h t where "rlp_header 0xc0 (length (concat (map rlp_encode its))) = h # t" "192 \<le> unat h"
      using rlp_header_shape [of _ 192] by (metis le_refl)
    ultimately show ?thesis
      unfolding bs(1) by (simp add: reference_rlp_def Let_def word_le_nat_alt bs(1) [symmetric])
  qed
  moreover have "mapE (\<lambda>i. case i of RBytes b \<Rightarrow> Inr b | RList _ \<Rightarrow> fail e) (map RBytes bss) = Inr bss" for bss e
    by (induction bss) simp_all
  ultimately show ?thesis
    by (simp add: rlp_ok_def) (simp add: reference_rlp_def)
qed

end
