(* ===== verification/EvmAbi.thy ===== *)
theory EvmAbi
  imports Info
begin

text \<open>
  The EVM ABI encoder (\<^verbatim>\<open>evmabi.go\<close>): the buffer of 32-byte words with the byte strings
  that wait to be laid out after it, and the encoding of Go values by their dynamic type, by a list
  of ABI types or by a method signature. A Go value of type \<open>any\<close> is an \<open>abi_param\<close>;
  \<open>ParamOther\<close> is a value of any type the code has no case for. The operations return the buffer
  as they leave it, after an error too.
\<close>

datatype abi_param =
    ParamBool bool
  | ParamInt "64 word"
  | ParamInt64 "64 word"
  | ParamUint64 "64 word"
  | ParamBig int
  | ParamBytes bytes
  | ParamString string
  | ParamArray20 bytes
  | ParamOut out
  | ParamOther

text \<open>Each waiting string: the position of its offset word and its length word followed by its bytes.\<close>

record abi_buffer =
  abi_buf :: bytes
  abi_str :: "(nat \<times> bytes) list"

definition NewAbiBuffer :: "bytes \<Rightarrow> abi_buffer" where
  "NewAbiBuffer buf = \<lparr>abi_buf = buf, abi_str = []\<rparr>"

definition AppendBigInt :: "int \<Rightarrow> abi_buffer \<Rightarrow> abi_buffer \<times> unit result" where
  "AppendBigInt v b =
     (let w = (if v < 0 then 2 ^ 256 + v else v) in
      if v < 0 \<and> w \<le> 0 then (b, fail ''big.Int value exceeds negative 256 bits'')
      else if w \<ge> 2 ^ 256 then (b, fail ''big.Int value exceeds 256 bits'')
      else (b\<lparr>abi_buf := abi_buf b @ be_encode 32 (nat w)\<rparr>, Inr ()))"

definition AppendBytes :: "bytes \<Rightarrow> abi_buffer \<Rightarrow> abi_buffer" where
  "AppendBytes v b =
     (let pos = length (abi_buf b); len_word = be_encode 32 (unat (word_of_nat (length v) :: 64 word)) in
      b\<lparr>abi_buf := abi_buf b @ replicate 32 0, abi_str := abi_str b @ [(pos, len_word @ v)]\<rparr>)"

definition AppendUint256Any :: "abi_param \<Rightarrow> abi_buffer \<Rightarrow> abi_buffer \<times> unit result" where
  "AppendUint256Any p b =
     (case p of
        ParamBool x \<Rightarrow> if x then AppendBigInt 1 b else AppendBigInt 0 b
      | ParamInt i \<Rightarrow> AppendBigInt (sint i) b
      | ParamBig v \<Rightarrow> AppendBigInt v b
      | _ \<Rightarrow> (b, fail ''unsupported go type %T for evm abi uint256-style type''))"

definition appendAddressBytes :: "bytes \<Rightarrow> abi_buffer \<Rightarrow> abi_buffer \<times> unit result" where
  "appendAddressBytes addr b =
     (if length addr \<noteq> 20 then (b, fail ''evm address must be 20 bytes, got %d'')
      else AppendBigInt (int (be_decode addr)) b)"

definition trim_0x :: "string \<Rightarrow> string" where
  "trim_0x s = (if take 2 s = ''0x'' then drop 2 s else s)"

definition AppendAddressAny :: "abi_param \<Rightarrow> abi_buffer \<Rightarrow> abi_buffer \<times> unit result" where
  "AppendAddressAny p b =
     (case p of
        ParamOut o' \<Rightarrow>
          if Name o' \<noteq> ''evm'' \<and> Name o' \<noteq> ''eth'' then
            (b, fail ''unsupported output type %s for evm abi type address'')
          else appendAddressBytes (raw o') b
      | ParamBytes a \<Rightarrow> appendAddressBytes a b
      | ParamArray20 a \<Rightarrow> appendAddressBytes a b
      | ParamString s \<Rightarrow>
          (case hex_decode (trim_0x s) of
             Inl e \<Rightarrow> (b, fail ''invalid hex address: %w'')
           | Inr addr \<Rightarrow> appendAddressBytes addr b)
      | _ \<Rightarrow> (b, fail ''unsupported go type %T for evm abi type address''))"

definition AppendBufferAny :: "abi_param \<Rightarrow> abi_buffer \<Rightarrow> abi_buffer \<times> unit result" where
  "AppendBufferAny p b =
     (case p of
        ParamBytes v \<Rightarrow> (AppendBytes v b, Inr ())
      | ParamString s \<Rightarrow> (AppendBytes (str_bytes s) b, Inr ())
      | _ \<Rightarrow> (b, fail ''unsupported go type %T for evm abi buffer type''))"

section \<open>Encoding lists of values\<close>

text \<open>One turn of a loop that stops at its first error.\<close>

definition and_then :: "abi_buffer \<times> unit result \<Rightarrow> (abi_buffer \<Rightarrow> abi_buffer \<times> unit result) \<Rightarrow> abi_buffer \<times> unit result" where
  "and_then r f = (case r of (b, Inl e) \<Rightarrow> (b, Inl e) | (b, Inr u) \<Rightarrow> f b)"

definition encode_auto1 :: "abi_param \<Rightarrow> abi_buffer \<Rightarrow> abi_buffer \<times> unit result" where
  "encode_auto1 p b =
     (case p of
        ParamInt i \<Rightarrow> AppendBigInt (sint i) b
      | ParamInt64 i \<Rightarrow> AppendBigInt (sint i) b
      | ParamUint64 u \<Rightarrow> AppendBigInt (uint u) b
      | ParamBig v \<Rightarrow> AppendBigInt v b
      | ParamBytes v \<Rightarrow> (AppendBytes v b, Inr ())
      | ParamString s \<Rightarrow> (AppendBytes (str_bytes s) b, Inr ())
      | ParamOut o' \<Rightarrow>
          if Name o' = ''evm'' \<or> Name o' = ''eth'' then AppendBigInt (int (be_decode (raw o'))) b
          else (b, fail ''unsupported value type %s for EVM'')
      | _ \<Rightarrow> (b, fail ''unsupported value type %T''))"

fun EncodeAuto :: "abi_param list \<Rightarrow> abi_buffer \<Rightarrow> abi_buffer \<times> unit result" where
  "EncodeAuto [] b = (b, Inr ())"
| "EncodeAuto (p # ps) b = and_then (encode_auto1 p b) (EncodeAuto ps)"

definition encode_type1 :: "string \<Rightarrow> abi_param \<Rightarrow> abi_buffer \<Rightarrow> abi_buffer \<times> unit result" where
  "encode_type1 t p b =
     (if t \<in> {''uint'', ''uint8'', ''uint16'', ''uint32'', ''uint64'', ''uint256'', ''bytes4'', ''bytes32''} then
        AppendUint256Any p b
      else if t = ''address'' then AppendAddressAny p b
      else if t \<in> {''bytes'', ''string''} then AppendBufferAny p b
      else (b, fail ''unsupported type: %s''))"

fun encode_types_loop :: "(string \<times> abi_param) list \<Rightarrow> abi_buffer \<Rightarrow> abi_buffer \<times> unit result" where
  "encode_types_loop [] b = (b, Inr ())"
| "encode_types_loop ((t, p) # tps) b = and_then (encode_type1 t p b) (encode_types_loop tps)"

definition EncodeTypes :: "string list \<Rightarrow> abi_param list \<Rightarrow> abi_buffer \<Rightarrow> abi_buffer \<times> unit result" where
  "EncodeTypes types params b =
     (if length types \<noteq> length params then (b, fail ''wrong number of arguments'')
      else if length types = 0 then (b, Inr ())
      else encode_types_loop (zip types params) b)"

text \<open>\<open>strings.Split\<close> at a comma: one part more than there are commas, even of the empty string.\<close>

fun split_commas :: "string \<Rightarrow> string list" where
  "split_commas [] = [[]]"
| "split_commas (c # cs) =
     (if c = CHR '','' then [] # split_commas cs
      else case split_commas cs of [] \<Rightarrow> [[c]] | w # ws \<Rightarrow> (c # w) # ws)"

definition EncodeAbi :: "string \<Rightarrow> abi_param list \<Rightarrow> abi_buffer \<Rightarrow> abi_buffer \<times> unit result" where
  "EncodeAbi abi params b =
     (let pos = length (takeWhile (\<lambda>c. c \<noteq> CHR ''('') abi) in
      if pos = length abi then (b, fail ''invalid abi format (could not locate start of parameters)'')
      else if abi = [] \<or> last abi \<noteq> CHR '')'' then
        (b, fail ''invalid abi format (does not end with a closing parenthesis)'')
      else
        let abiParams = take (length abi - 1 - (pos + 1)) (drop (pos + 1) abi) in
        EncodeTypes (split_commas abiParams) params b)"

section \<open>The finished buffer\<close>

fun lay_out :: "(nat \<times> bytes) list \<Rightarrow> bytes \<Rightarrow> bytes result" where
  "lay_out [] res = Inr res"
| "lay_out ((offset, dat) # strs) res =
     (let x = length dat mod 32;
          inp = (if x \<noteq> 0 then dat @ replicate (32 - x) 0 else dat);
          pos = be_encode 32 (unat (word_of_nat (length res) :: 64 word))
      in bindE (subslice res offset (offset + 32)) (\<lambda>_.
           lay_out strs ((take offset res @ pos @ drop (offset + 32) res) @ inp)))"

definition AbiBuffer_Bytes :: "abi_buffer \<Rightarrow> bytes result" where
  "AbiBuffer_Bytes b = lay_out (abi_str b) (abi_buf b)"

definition AbiBuffer_Call :: "'p crypto \<Rightarrow> string \<Rightarrow> abi_buffer \<Rightarrow> bytes result" where
  "AbiBuffer_Call cr method b =
     (let mHash = chash cr [Keccak256New] (str_bytes method) in
      bindE (slice_to mHash 4) (\<lambda>sel. bindE (AbiBuffer_Bytes b) (\<lambda>bs. Inr (sel @ bs))))"

definition EvmCall :: "'p crypto \<Rightarrow> string \<Rightarrow> abi_param list \<Rightarrow> bytes result" where
  "EvmCall cr method params =
     (case EncodeAbi method params (NewAbiBuffer []) of
        (b, Inl e) \<Rightarrow> Inl e
      | (b, Inr u) \<Rightarrow> AbiBuffer_Call cr method b)"

section \<open>What a value stands for\<close>

text \<open>A parameter of an ABI call: a word of the head, or a string laid out in the tail.\<close>

datatype abi_item = Word int | Dynamic bytes

definition address_item :: "bytes \<Rightarrow> abi_item option" where
  "address_item a = (if length a = 20 then Some (Word (int (be_decode a))) else None)"

definition abi_item_of :: "string \<Rightarrow> abi_param \<Rightarrow> abi_item option" where
  "abi_item_of t p =
     (if t \<in> {''bytes'', ''string''} then
        (case p of ParamBytes v \<Rightarrow> Some (Dynamic v) | ParamString s \<Rightarrow> Some (Dynamic (str_bytes s)) | _ \<Rightarrow> None)
      else if t = ''address'' then
        (case p of
           ParamBytes a \<Rightarrow> address_item a
         | ParamArray20 a \<Rightarrow> address_item a
         | ParamOut o' \<Rightarrow> if Name o' \<in> {''evm'', ''eth''} then address_item (raw o') else None
         | ParamString s \<Rightarrow> (case hex_decode (trim_0x s) of Inr a \<Rightarrow> address_item a | Inl e \<Rightarrow> None)
         | _ \<Rightarrow> None)
      else
        (case p of
           ParamBool x \<Rightarrow> Some (Word (if x then 1 else 0))
         | ParamInt i \<Rightarrow> Some (Word (sint i))
         | ParamBig v \<Rightarrow> Some (Word v)
         | _ \<Rightarrow> None))"

text \<open>The words and offsets an ABI decoder reads, by their byte position.\<close>

definition word_at :: "bytes \<Rightarrow> nat \<Rightarrow> nat" where
  "word_at bs pos = be_decode (take 32 (drop pos bs))"

definition holds_item :: "bytes \<Rightarrow> nat \<Rightarrow> abi_item \<Rightarrow> bool" where
  "holds_item bs n item =
     (case item of
        Word v \<Rightarrow> int (word_at bs (32 * n)) = v mod 2 ^ 256
      | Dynamic d \<Rightarrow>
          let off = word_at bs (32 * n) in
          off mod 32 = 0 \<and> off + 32 + length d \<le> length bs \<and> word_at bs off = length d \<and>
          take (length d) (drop (off + 32) bs) = d)"

section \<open>Laying out\<close>

definition disjoint_from :: "nat \<Rightarrow> nat \<Rightarrow> nat \<Rightarrow> bool" where
  "disjoint_from p l off \<longleftrightarrow> p + l \<le> off \<or> off + 32 \<le> p"

lemma patch_facts:
  fixes res inp pos :: bytes
  assumes "off + 32 \<le> length res" "length pos = 32"
  defines "res' \<equiv> (take off res @ pos @ drop (off + 32) res) @ inp"
  shows "length res' = length res + length inp"
    and "p + l \<le> length res \<Longrightarrow> disjoint_from p l off \<Longrightarrow> take l (drop p res') = take l (drop p res)"
    and "take 32 (drop off res') = pos"
    and "drop (length res) res' = inp"
proof -
  show len: "length res' = length res + length inp"
    using assms by (simp add: res'_def)
  show "take 32 (drop off res') = pos"
    using assms by (simp add: res'_def min_def)
  show "drop (length res) res' = inp"
    using assms by (simp add: res'_def)
  assume p: "p + l \<le> length res" "disjoint_from p l off"
  show "take l (drop p res') = take l (drop p res)"
  proof (cases "p + l \<le> off")
    case True
    then have "min l (off - p) = l" by simp
    moreover have "take l (drop p res') = take l (drop p (take off res))"
      using True assms(1) by (simp add: res'_def min_def)
    ultimately show ?thesis
      by (simp add: drop_take)
  next
    case False
    with p(2) have "off + 32 \<le> p" by (simp add: disjoint_from_def)
    moreover have "drop p res' = drop (p - (off + 32)) (drop (off + 32) res @ inp)"
      using \<open>off + 32 \<le> p\<close> assms(1,2) by (simp add: res'_def min_def)
    ultimately show ?thesis
      using p(1) by simp
  qed
qed

lemma lay_out_spec:
  assumes "\<forall>(off, d) \<in> set strs. off + 32 \<le> h \<and> off mod 32 = 0" "distinct (map fst strs)"
    and "h \<le> length res" "length res mod 32 = 0" "length res + sum_list (map (\<lambda>(off, d). length d + 32) strs) < 2 ^ 64"
  shows "\<exists>bs. lay_out strs res = Inr bs \<and> length bs mod 32 = 0 \<and> length res \<le> length bs \<and>
    (\<forall>p l. p + l \<le> length res \<and> (\<forall>off \<in> set (map fst strs). disjoint_from p l off) \<longrightarrow>
       take l (drop p bs) = take l (drop p res)) \<and>
    (\<forall>(off, d) \<in> set strs. let p = word_at bs off in
       p mod 32 = 0 \<and> p + length d \<le> length bs \<and> take (length d) (drop p bs) = d)"
  using assms
proof (induction strs arbitrary: res)
  case (Cons s strs)
  obtain off d where s: "s = (off, d)" by fastforce
  define inp where "inp = (if length d mod 32 \<noteq> 0 then d @ replicate (32 - length d mod 32) 0 else d)"
  define pos where "pos = be_encode 32 (unat (word_of_nat (length res) :: 64 word))"
  define res' where "res' = (take off res @ pos @ drop (off + 32) res) @ inp"
  have off: "off + 32 \<le> h" "off + 32 \<le> length res" "off mod 32 = 0"
    using Cons.prems(1,3) s by auto
  have inp: "length inp mod 32 = 0" "length inp \<le> length d + 32" "take (length d) inp = d" "length d \<le> length inp"
  proof -
    have "(length d + (32 - length d mod 32)) mod 32 = 0" if "length d mod 32 \<noteq> 0" by presburger
    then show "length inp mod 32 = 0" by (simp add: inp_def)
    have "length d mod 32 < 32" by simp
    then show "length d \<le> length inp" by (simp add: inp_def less_imp_le)
  qed (simp_all add: inp_def)
  have pos: "length pos = 32" "be_decode pos = length res"
  proof -
    have "length res < 18446744073709551616" using Cons.prems(5) by simp
    then have "unat (word_of_nat (length res) :: 64 word) = length res" by (rule unat_of_nat_64)
    with \<open>length res < 18446744073709551616\<close> show "length pos = 32" "be_decode pos = length res"
      by (simp_all add: pos_def be_decode_encode)
  qed
  note patch = patch_facts [where inp = inp, OF off(2) pos(1), folded res'_def]
  have pre: "\<forall>(o', d') \<in> set strs. o' + 32 \<le> h \<and> o' mod 32 = 0" "distinct (map fst strs)" "h \<le> length res'"
    "length res' mod 32 = 0" "length res' + sum_list (map (\<lambda>(o', d'). length d' + 32) strs) < 2 ^ 64"
    using Cons.prems s patch(1) inp by (simp_all add: mod_add_eq [symmetric])
  from Cons.IH [OF pre] obtain bs where bs: "lay_out strs res' = Inr bs" "length bs mod 32 = 0" "length res' \<le> length bs"
    and keep0: "\<forall>p l. p + l \<le> length res' \<and> (\<forall>off \<in> set (map fst strs). disjoint_from p l off) \<longrightarrow>
      take l (drop p bs) = take l (drop p res')"
    and rest: "\<forall>(off, d) \<in> set strs. let p = word_at bs off in
      p mod 32 = 0 \<and> p + length d \<le> length bs \<and> take (length d) (drop p bs) = d"
    by (elim exE conjE) (rule that)
  have keep: "p + l \<le> length res' \<Longrightarrow> \<forall>o' \<in> set (map fst strs). disjoint_from p l o' \<Longrightarrow>
      take l (drop p bs) = take l (drop p res')" for p l
    using keep0 by blast
  have lay: "lay_out (s # strs) res = Inr bs"
  proof -
    have "lay_out (s # strs) res = bindE (subslice res off (off + 32)) (\<lambda>_. lay_out strs res')"
      by (simp only: s lay_out.simps Let_def inp_def pos_def res'_def)
    with off(2) bs(1) show ?thesis by simp
  qed
  have slot: "\<forall>o' \<in> set (map fst strs). disjoint_from off 32 o'"
  proof
    fix o' assume "o' \<in> set (map fst strs)"
    then have "o' mod 32 = 0" "o' \<noteq> off" using pre(1) Cons.prems(2) s by auto
    with off(3) show "disjoint_from off 32 o'"
      unfolding disjoint_from_def by presburger
  qed
  have w: "word_at bs off = length res"
    using keep [OF _ slot] off(2) patch(1,3) pos(2) by (simp add: word_at_def)
  have beyond: "\<forall>o' \<in> set (map fst strs). disjoint_from (length res) (length d) o'"
    using pre(1) Cons.prems(3) by (auto simp: disjoint_from_def)
  have dat: "take (length d) (drop (length res) bs) = d"
    using keep [OF _ beyond] patch(1,4) inp by simp
  have keep': "take l (drop p bs) = take l (drop p res)"
    if "p + l \<le> length res" "\<forall>o' \<in> set (map fst (s # strs)). disjoint_from p l o'" for p l
    using keep [of p l] patch(1) patch(2) [of p l] that s by simp
  show ?case
    using lay bs(2,3) keep' rest w dat Cons.prems(4) patch(1) inp(4) by (auto simp: s Let_def)
qed simp

section \<open>Heads and tails\<close>

fun abi_head :: "abi_item \<Rightarrow> bytes" where
  "abi_head (Word v) = be_encode 32 (nat (v mod 2 ^ 256))"
| "abi_head (Dynamic d) = replicate 32 0"

definition string_data :: "bytes \<Rightarrow> bytes" where
  "string_data d = be_encode 32 (unat (word_of_nat (length d) :: 64 word)) @ d"

fun abi_tails :: "nat \<Rightarrow> abi_item list \<Rightarrow> (nat \<times> bytes) list" where
  "abi_tails off [] = []"
| "abi_tails off (Word v # its) = abi_tails (off + 32) its"
| "abi_tails off (Dynamic d # its) = (off, string_data d) # abi_tails (off + 32) its"

text \<open>Appending one item.\<close>

definition adds :: "abi_item \<Rightarrow> abi_buffer \<Rightarrow> abi_buffer \<Rightarrow> bool" where
  "adds it b b' \<longleftrightarrow>
     abi_buf b' = abi_buf b @ abi_head it \<and> abi_str b' = abi_str b @ abi_tails (length (abi_buf b)) [it]"

lemma length_abi_head [simp]: "length (abi_head it) = 32"
  by (cases it) simp_all

lemma AppendBigInt_adds: "AppendBigInt v b = (b', Inr ()) \<Longrightarrow> adds (Word v) b b'"
proof -
  assume a: "AppendBigInt v b = (b', Inr ())"
  have "(if v < 0 then 2 ^ 256 + v else v) = v mod 2 ^ 256"
  proof (cases "v < 0")
    case True
    with a have "0 < 2 ^ 256 + v" by (auto simp: AppendBigInt_def Let_def split: if_splits)
    then have "(2 ^ 256 + v) mod 2 ^ 256 = 2 ^ 256 + v" using True by (intro mod_pos_pos_trivial) simp_all
    with True show ?thesis by simp
  next
    case False
    with a have "v < 2 ^ 256" by (auto simp: AppendBigInt_def Let_def split: if_splits)
    with False show ?thesis by simp
  qed
  with a show ?thesis
    unfolding AppendBigInt_def Let_def adds_def by (auto split: if_splits)
qed

lemma AppendBytes_adds: "adds (Dynamic v) b (AppendBytes v b)"
  by (simp add: AppendBytes_def Let_def adds_def string_data_def)

lemma appendAddressBytes_adds: "appendAddressBytes a b = (b', Inr ()) \<Longrightarrow> \<exists>it. address_item a = Some it \<and> adds it b b'"
  using AppendBigInt_adds [of "int (be_decode a)" b b'] by (auto simp: appendAddressBytes_def address_item_def split: if_splits)

lemma encode_type1_adds:
  assumes "encode_type1 t p b = (b', Inr ())"
  shows "\<exists>it. abi_item_of t p = Some it \<and> adds it b b'"
proof -
  consider "t \<in> {''bytes'', ''string''}" | "t = ''address''"
    | "t \<in> {''uint'', ''uint8'', ''uint16'', ''uint32'', ''uint64'', ''uint256'', ''bytes4'', ''bytes32''}"
    using assms by (auto simp: encode_type1_def split: if_splits)
  then show ?thesis
  proof cases
    case 1
    with assms have "AppendBufferAny p b = (b', Inr ())"
      by (auto simp: encode_type1_def)
    with 1 show ?thesis
      using AppendBytes_adds by (auto simp: AppendBufferAny_def abi_item_of_def split: abi_param.splits)
  next
    case 2
    with assms have "AppendAddressAny p b = (b', Inr ())"
      by (simp add: encode_type1_def)
    with 2 show ?thesis
      using appendAddressBytes_adds [of _ b b']
      by (auto simp: AppendAddressAny_def abi_item_of_def split: abi_param.splits if_splits sum.splits)
  next
    case 3
    with assms have "AppendUint256Any p b = (b', Inr ())"
      by (simp add: encode_type1_def)
    with 3 show ?thesis
      using AppendBigInt_adds [of _ b b']
      by (auto simp: AppendUint256Any_def abi_item_of_def split: abi_param.splits if_splits)
  qed
qed

lemma encode_types_adds:
  "encode_types_loop tps b = (b', Inr ()) \<Longrightarrow>
    \<exists>its. list_all2 (\<lambda>(t, p) it. abi_item_of t p = Some it) tps its \<and>
      abi_buf b' = abi_buf b @ concat (map abi_head its) \<and> abi_str b' = abi_str b @ abi_tails (length (abi_buf b)) its"
proof (induction tps arbitrary: b)
  case (Cons tp tps)
  obtain t p where tp: "tp = (t, p)" by fastforce
  obtain b1 r where e: "encode_type1 t p b = (b1, r)" by fastforce
  with Cons.prems tp have r: "r = Inr ()" "encode_types_loop tps b1 = (b', Inr ())"
    by (auto simp: and_then_def split: sum.splits)
  from encode_type1_adds [OF e [unfolded r(1)]] obtain it where it: "abi_item_of t p = Some it" "adds it b b1"
    by blast
  from Cons.IH [OF r(2)] obtain its where its: "list_all2 (\<lambda>(t, p) it. abi_item_of t p = Some it) tps its"
    "abi_buf b' = abi_buf b1 @ concat (map abi_head its)" "abi_str b' = abi_str b1 @ abi_tails (length (abi_buf b1)) its"
    by blast
  have "abi_tails (length (abi_buf b)) (it # its) = abi_tails (length (abi_buf b)) [it] @ abi_tails (length (abi_buf b1)) its"
    using it(2) by (cases it) (simp_all add: adds_def)
  with it its show ?case
    by (intro exI [of _ "it # its"]) (simp add: tp adds_def)
qed simp

lemma abi_tails_in:
  "(off, d) \<in> set (abi_tails base its) \<Longrightarrow>
    \<exists>n < length its. off = base + 32 * n \<and> (\<exists>v. its ! n = Dynamic v \<and> d = string_data v)"
proof (induction base its rule: abi_tails.induct)
  case (2 base v its)
  then obtain n where "n < length its" "off = base + 32 + 32 * n" "\<exists>v. its ! n = Dynamic v \<and> d = string_data v" by auto
  then show ?case by (intro exI [of _ "Suc n"]) simp
next
  case (3 base v its)
  show ?case
  proof (cases "(off, d) \<in> set (abi_tails (base + 32) its)")
    case True
    then obtain n where "n < length its" "off = base + 32 + 32 * n" "\<exists>v. its ! n = Dynamic v \<and> d = string_data v"
      using "3.IH" by auto
    then show ?thesis by (intro exI [of _ "Suc n"]) simp
  next
    case False
    with "3.prems" show ?thesis by (intro exI [of _ 0]) simp
  qed
qed simp

lemma abi_tails_of: "n < length its \<Longrightarrow> its ! n = Dynamic v \<Longrightarrow> (base + 32 * n, string_data v) \<in> set (abi_tails base its)"
proof (induction base its arbitrary: n rule: abi_tails.induct)
  case (2 base w its)
  then show ?case by (cases n) (auto simp: add.assoc)
next
  case (3 base w its)
  then show ?case by (cases n) (auto simp: add.assoc)
qed simp

lemma abi_tails_distinct: "distinct (map fst (abi_tails base its))"
proof (induction base its rule: abi_tails.induct)
  case (3 base v its)
  have "base \<notin> set (map fst (abi_tails (base + 32) its))"
    using abi_tails_in [of _ _ "base + 32" its] by fastforce
  with 3 show ?case by simp
qed simp_all

lemma heads_nth: "n < length its \<Longrightarrow> take 32 (drop (32 * n) (concat (map abi_head its))) = abi_head (its ! n)"
proof (induction its arbitrary: n)
  case (Cons it its)
  then show ?case by (cases n) simp_all
qed simp

lemma holds_word: "take 32 (drop (32 * n) bs) = be_encode 32 (nat (v mod 2 ^ 256)) \<Longrightarrow> holds_item bs n (Word v)"
proof -
  assume "take 32 (drop (32 * n) bs) = be_encode 32 (nat (v mod 2 ^ 256))"
  moreover have "nat (v mod 2 ^ 256) < 256 ^ 32"
  proof -
    have "v mod 2 ^ 256 < 2 ^ 256" by (rule pos_mod_bound) simp
    then show ?thesis by (simp add: nat_less_iff)
  qed
  ultimately show ?thesis
    by (simp add: holds_item_def word_at_def be_decode_encode)
qed

lemma holds_dynamic:
  assumes "let p = word_at bs (32 * n) in p mod 32 = 0 \<and> p + length (string_data d) \<le> length bs \<and>
      take (length (string_data d)) (drop p bs) = string_data d" and "length d < 2 ^ 64"
  shows "holds_item bs n (Dynamic d)"
proof -
  define p where "p = word_at bs (32 * n)"
  have len: "be_decode (take 32 (string_data d)) = length d" "length (string_data d) = 32 + length d"
  proof -
    have d: "length d < 18446744073709551616" using assms(2) by simp
    then show "be_decode (take 32 (string_data d)) = length d"
      by (simp add: string_data_def unat_of_nat_64 be_decode_encode)
  qed (simp add: string_data_def)
  have a: "p mod 32 = 0" "p + (32 + length d) \<le> length bs" "take (32 + length d) (drop p bs) = string_data d"
    using assms(1) len(2) by (simp_all add: p_def Let_def)
  have "take 32 (drop p bs) = take 32 (string_data d)"
    unfolding a(3) [symmetric] by (simp add: min_def)
  moreover have "take (length d) (drop (p + 32) bs) = d"
  proof -
    have "drop 32 (take (32 + length d) (drop p bs)) = d" unfolding a(3) by (simp add: string_data_def)
    then show ?thesis by (simp add: drop_take add.commute)
  qed
  ultimately show ?thesis
    using a(1,2) len(1) by (simp add: holds_item_def word_at_def p_def [symmetric, unfolded word_at_def] Let_def)
qed

section \<open>Properties\<close>



text \<open>
  A method without parameters cannot be called: the empty parameter list of a signature such as
  \<open>totalSupply()\<close> is split into one empty type, so \<open>EncodeAbi\<close> always gives an error.
\<close>

theorem EncodeAbi_no_params:
  assumes "CHR ''('' \<notin> set name"
  shows "\<exists>e. snd (EncodeAbi (name @ ''()'') params b) = Inl (Error e)"
proof -
  have "takeWhile (\<lambda>c. c \<noteq> CHR ''('') (name @ ''()'') = name"
    using assms by (induction name) auto
  then have "EncodeAbi (name @ ''()'') params b = EncodeTypes [[]] params b"
    by (simp add: EncodeAbi_def Let_def)
  then show ?thesis
    by (cases params) (auto simp: EncodeTypes_def and_then_def encode_type1_def)
qed

theorem EncodeAbi_no_params_witness:
  "\<exists>e. snd (EncodeAbi (''totalSupply'' @ ''()'') [] (NewAbiBuffer [])) = Inl (Error e)"
  by (rule EncodeAbi_no_params) simp

end
