(* ===== verification/EvmTx.thy ===== *)
theory EvmTx
  imports EvmRlp EvmAbi
begin

text \<open>
  EVM transactions (\<^verbatim>\<open>evmtx.go\<close>), their access lists (\<^verbatim>\<open>evmaccesslist.go\<close>) and the
  authorizations of EIP-7702 (\<^verbatim>\<open>evmtx7702.go\<close>): binary form, signing and recovery of the sender.
  A \<open>*big.Int\<close> is an integer or nil; parsing gives the transaction or an error, after which the
  code promises nothing of the receiver. A key has a secp256k1 public key or another one, and signs
  digests in DER form; the signer options are part of it.
\<close>

datatype evm_tx_type = EvmTxLegacy | EvmTxEIP2930 | EvmTxEIP1559 | EvmTxEIP4844 | EvmTxEIP7702 | EvmTxOther int

record evm_access_tuple =
  AccessAddress :: string
  StorageKeys :: "string list"

record evm_authorization =
  AuthChainId :: "64 word"
  AuthAddress :: string
  AuthNonce :: "64 word"
  AuthSigned :: bool
  AuthY :: "int option"
  AuthR :: "int option"
  AuthS :: "int option"

record evm_tx =
  Nonce :: "64 word"
  GasTipCap :: "int option"
  GasFeeCap :: "int option"
  Gas :: "64 word"
  To :: string
  Value :: "int option"
  Data :: bytes
  ChainId :: "64 word"
  TxType :: evm_tx_type
  AccessList :: "evm_access_tuple list"
  AuthList :: "evm_authorization list"
  Signed :: bool
  TxY :: "int option"
  TxR :: "int option"
  TxS :: "int option"

record 'k evm_signer =
  SignerPublic :: "'k option"
  SignHash :: "bytes \<Rightarrow> bytes result"

section \<open>RLP fields\<close>

definition access_rlpTuple :: "evm_access_tuple \<Rightarrow> go_val" where
  "access_rlpTuple t = VList [VStr (AccessAddress t), VList (map VStr (StorageKeys t))]"

definition accessListRlp :: "evm_tx \<Rightarrow> go_val" where
  "accessListRlp tx = VList (map access_rlpTuple (AccessList tx))"

definition auth_rlpTuple :: "evm_authorization \<Rightarrow> go_val" where
  "auth_rlpTuple a =
     VList [VUint (AuthChainId a), VStr (AuthAddress a), VUint (AuthNonce a), VBig (AuthY a), VBig (AuthR a), VBig (AuthS a)]"

definition authorizationListRlp :: "evm_tx \<Rightarrow> go_val" where
  "authorizationListRlp tx = VList (map auth_rlpTuple (AuthList tx))"

definition RlpFields :: "evm_tx \<Rightarrow> go_val list" where
  "RlpFields tx =
     (case TxType tx of
        EvmTxLegacy \<Rightarrow>
          [VUint (Nonce tx), VBig (GasFeeCap tx), VUint (Gas tx), VStr (To tx), VBig (Value tx), VBytes (Data tx)]
      | EvmTxEIP2930 \<Rightarrow>
          [VUint (ChainId tx), VUint (Nonce tx), VBig (GasFeeCap tx), VUint (Gas tx), VStr (To tx), VBig (Value tx),
           VBytes (Data tx), accessListRlp tx]
      | EvmTxEIP1559 \<Rightarrow>
          [VUint (ChainId tx), VUint (Nonce tx), VBig (GasTipCap tx), VBig (GasFeeCap tx), VUint (Gas tx), VStr (To tx),
           VBig (Value tx), VBytes (Data tx), accessListRlp tx]
      | EvmTxEIP7702 \<Rightarrow>
          [VUint (ChainId tx), VUint (Nonce tx), VBig (GasTipCap tx), VBig (GasFeeCap tx), VUint (Gas tx), VStr (To tx),
           VBig (Value tx), VBytes (Data tx), accessListRlp tx, authorizationListRlp tx]
      | _ \<Rightarrow> [])"

definition typeValue :: "evm_tx \<Rightarrow> byte" where
  "typeValue tx =
     (case TxType tx of EvmTxLegacy \<Rightarrow> 0 | EvmTxEIP2930 \<Rightarrow> 1 | EvmTxEIP1559 \<Rightarrow> 2 | EvmTxEIP4844 \<Rightarrow> 3
      | EvmTxEIP7702 \<Rightarrow> 4 | EvmTxOther _ \<Rightarrow> 0xff)"

definition SignBytes :: "'k evm_lib \<Rightarrow> evm_tx \<Rightarrow> bytes result" where
  "SignBytes lib tx =
     (case TxType tx of
        EvmTxLegacy \<Rightarrow>
          EncodeValue lib (RlpFields tx @ (if ChainId tx \<noteq> 0 then [VUint (ChainId tx), VInt 0, VInt 0] else []))
      | _ \<Rightarrow> bindE (EncodeValue lib (RlpFields tx)) (\<lambda>buf. Inr (typeValue tx # buf)))"

definition EvmTx_MarshalBinary :: "'k evm_lib \<Rightarrow> evm_tx \<Rightarrow> bytes result" where
  "EvmTx_MarshalBinary lib tx =
     (if \<not> Signed tx then SignBytes lib tx
      else
        let f = RlpFields tx @ [VBig (TxY tx), VBig (TxR tx), VBig (TxS tx)] in
        case TxType tx of
          EvmTxLegacy \<Rightarrow> EncodeValue lib f
        | _ \<Rightarrow> bindE (EncodeValue lib f) (\<lambda>buf. Inr (typeValue tx # buf)))"

definition EvmTx_Hash :: "'k evm_lib \<Rightarrow> 'p crypto \<Rightarrow> evm_tx \<Rightarrow> bytes result" where
  "EvmTx_Hash lib cr tx = bindE (EvmTx_MarshalBinary lib tx) (\<lambda>dat. Inr (chash cr [Keccak256New] dat))"

section \<open>Parsing\<close>

definition decodeUint64Checked :: "'k evm_lib \<Rightarrow> bytes \<Rightarrow> 64 word result" where
  "decodeUint64Checked lib buf =
     (if length buf > 8 then fail ''invalid uint64 field: length %d exceeds 8 bytes'' else DecodeUint64 lib buf)"

definition asBytes :: "rlp_item \<Rightarrow> bytes result" where
  "asBytes v = (case v of RBytes b \<Rightarrow> Inr b | RList _ \<Rightarrow> fail ''expected rlp string (bytes), got %T'')"

definition asList :: "rlp_item \<Rightarrow> rlp_item list result" where
  "asList v = (case v of RList l \<Rightarrow> Inr l | RBytes _ \<Rightarrow> fail ''expected rlp list, got %T'')"

definition set_bytes :: "bytes \<Rightarrow> int option" where
  "set_bytes b = Some (int (be_decode b))"

definition hex0x :: "bytes \<Rightarrow> string" where
  "hex0x b = ''0x'' @ hex_encode b"

definition parse_access_tuple :: "rlp_item \<Rightarrow> evm_access_tuple result" where
  "parse_access_tuple item =
     bindE (asList item) (\<lambda>tuple.
     if length tuple \<noteq> 2 then fail ''access list tuple must have 2 fields, got %d''
     else
       bindE (bindE (idx tuple 0) asBytes) (\<lambda>addr.
       bindE (bindE (idx tuple 1) asList) (\<lambda>keyList.
       bindE (mapE (\<lambda>k. bindE (asBytes k) (\<lambda>kb. Inr (hex0x kb))) keyList) (\<lambda>keys.
       Inr \<lparr>AccessAddress = hex0x addr, StorageKeys = keys\<rparr>))))"

definition parseAccessList :: "rlp_item \<Rightarrow> evm_access_tuple list result" where
  "parseAccessList v = bindE (asList v) (\<lambda>items. mapE parse_access_tuple items)"

definition parse_authorization :: "'k evm_lib \<Rightarrow> rlp_item \<Rightarrow> evm_authorization result" where
  "parse_authorization lib item =
     bindE (asList item) (\<lambda>tuple.
     if length tuple \<noteq> 6 then fail ''EIP-7702 authorization must have 6 fields, got %d''
     else
       bindE (mapE (\<lambda>i. bindE (idx tuple i) asBytes) [0..<6]) (\<lambda>fields.
       bindE (decodeUint64Checked lib (fields ! 0)) (\<lambda>chainId.
       bindE (decodeUint64Checked lib (fields ! 2)) (\<lambda>nonce.
       Inr \<lparr>AuthChainId = chainId, AuthAddress = hex0x (fields ! 1), AuthNonce = nonce, AuthSigned = True,
            AuthY = set_bytes (fields ! 3), AuthR = set_bytes (fields ! 4), AuthS = set_bytes (fields ! 5)\<rparr>))))"

definition parseAuthorizationList :: "'k evm_lib \<Rightarrow> rlp_item \<Rightarrow> evm_authorization list result" where
  "parseAuthorizationList lib v = bindE (asList v) (\<lambda>items. mapE (parse_authorization lib) items)"

text \<open>The signature fields at the end of a typed transaction: present when it has \<open>signed_len\<close> fields.\<close>

definition parse_sig :: "nat \<Rightarrow> rlp_item list \<Rightarrow> evm_tx \<Rightarrow> evm_tx result" where
  "parse_sig n txData tx =
     (if length txData = n + 3 then
        bindE (bindE (idx txData n) asBytes) (\<lambda>y.
        bindE (bindE (idx txData (n + 1)) asBytes) (\<lambda>r.
        bindE (bindE (idx txData (n + 2)) asBytes) (\<lambda>s.
        Inr (tx\<lparr>Signed := True, TxY := set_bytes y, TxR := set_bytes r, TxS := set_bytes s\<rparr>))))
      else Inr (tx\<lparr>Signed := False\<rparr>))"

definition legacy_fields :: "'k evm_lib \<Rightarrow> evm_tx \<Rightarrow> bytes list \<Rightarrow> evm_tx result" where
  "legacy_fields lib tx txData =
     (if length txData \<noteq> 6 \<and> length txData \<noteq> 9 then fail ''lgacy transaction must have 6 or 9 fields, got %d''
      else
        bindE (decodeUint64Checked lib (txData ! 0)) (\<lambda>nonce.
        bindE (decodeUint64Checked lib (txData ! 2)) (\<lambda>gas.
        let tx = tx\<lparr>TxType := EvmTxLegacy, Nonce := nonce, GasFeeCap := set_bytes (txData ! 1), Gas := gas,
                    To := hex0x (txData ! 3), Value := set_bytes (txData ! 4), Data := txData ! 5\<rparr>
        in if length txData = 9 then
             Inr (tx\<lparr>Signed := True, TxY := set_bytes (txData ! 6), TxR := set_bytes (txData ! 7), TxS := set_bytes (txData ! 8)\<rparr>)
           else Inr (tx\<lparr>Signed := False\<rparr>))))"

definition parse_legacy :: "'k evm_lib \<Rightarrow> evm_tx \<Rightarrow> bytes \<Rightarrow> evm_tx result" where
  "parse_legacy lib tx buf =
     bindE (RlpDecode lib buf) (\<lambda>dec.
     if length dec \<noteq> 1 then fail ''invalid rlp data for legacy transaction''
     else
       bindE (idx dec 0) (\<lambda>d0.
       bindE (case AsByteSlices lib d0 of Inl (Error e) \<Rightarrow> fail ''failed to decode rlp data: %w'' | r \<Rightarrow> r)
         (legacy_fields lib tx)))"

text \<open>The one list a typed transaction decodes to, of \<open>n\<close> fields or of \<open>n + 3\<close> with a signature.\<close>

definition typed_fields :: "'k evm_lib \<Rightarrow> nat \<Rightarrow> string \<Rightarrow> string \<Rightarrow> bytes \<Rightarrow> rlp_item list result" where
  "typed_fields lib n bad_rlp bad_count buf =
     bindE (RlpDecode lib buf) (\<lambda>dec.
     if length dec \<noteq> 1 then fail bad_rlp
     else bindE (bindE (idx dec 0) asList) (\<lambda>txData.
       if length txData \<noteq> n \<and> length txData \<noteq> n + 3 then fail bad_count else Inr txData))"

definition parse_2930 :: "'k evm_lib \<Rightarrow> evm_tx \<Rightarrow> bytes \<Rightarrow> evm_tx result" where
  "parse_2930 lib tx buf =
     bindE (typed_fields lib 8 ''invalid rlp data for legacy transaction''
       ''EIP-2930 transaction must have 8 or 11 fields, got %d'' buf) (\<lambda>txData.
     bindE (mapE (\<lambda>i. bindE (idx txData i) asBytes) [0..<7]) (\<lambda>fields.
     bindE (decodeUint64Checked lib (fields ! 0)) (\<lambda>chainId.
     bindE (decodeUint64Checked lib (fields ! 1)) (\<lambda>nonce.
     bindE (decodeUint64Checked lib (fields ! 3)) (\<lambda>gas.
     bindE (bindE (idx txData 7) parseAccessList) (\<lambda>access.
     parse_sig 8 txData
       (tx\<lparr>TxType := EvmTxEIP2930, ChainId := chainId, Nonce := nonce, GasFeeCap := set_bytes (fields ! 2), Gas := gas,
           To := hex0x (fields ! 4), Value := set_bytes (fields ! 5), Data := fields ! 6, AccessList := access\<rparr>)))))))"

definition parse_1559 :: "'k evm_lib \<Rightarrow> evm_tx \<Rightarrow> bytes \<Rightarrow> evm_tx result" where
  "parse_1559 lib tx buf =
     bindE (typed_fields lib 9 ''invalid rlp data for legacy transaction''
       ''EIP-1559 transaction must have 9 or 12 fields, got %d'' buf) (\<lambda>txData.
     bindE (mapE (\<lambda>i. bindE (idx txData i) asBytes) [0..<8]) (\<lambda>fields.
     bindE (decodeUint64Checked lib (fields ! 0)) (\<lambda>chainId.
     bindE (decodeUint64Checked lib (fields ! 1)) (\<lambda>nonce.
     bindE (decodeUint64Checked lib (fields ! 4)) (\<lambda>gas.
     bindE (bindE (idx txData 8) parseAccessList) (\<lambda>access.
     parse_sig 9 txData
       (tx\<lparr>TxType := EvmTxEIP1559, ChainId := chainId, Nonce := nonce, GasTipCap := set_bytes (fields ! 2),
           GasFeeCap := set_bytes (fields ! 3), Gas := gas, To := hex0x (fields ! 5), Value := set_bytes (fields ! 6),
           Data := fields ! 7, AccessList := access\<rparr>)))))))"

definition parse_7702 :: "'k evm_lib \<Rightarrow> evm_tx \<Rightarrow> bytes \<Rightarrow> evm_tx result" where
  "parse_7702 lib tx buf =
     bindE (typed_fields lib 10 ''invalid rlp data for EIP-7702 transaction''
       ''EIP-7702 transaction must have 10 or 13 fields, got %d'' buf) (\<lambda>txData.
     bindE (mapE (\<lambda>i. bindE (idx txData i) asBytes) [0..<8]) (\<lambda>fields.
     bindE (decodeUint64Checked lib (fields ! 0)) (\<lambda>chainId.
     bindE (decodeUint64Checked lib (fields ! 1)) (\<lambda>nonce.
     bindE (decodeUint64Checked lib (fields ! 4)) (\<lambda>gas.
     bindE (bindE (idx txData 8) parseAccessList) (\<lambda>access.
     bindE (bindE (idx txData 9) (parseAuthorizationList lib)) (\<lambda>auths.
     parse_sig 10 txData
       (tx\<lparr>TxType := EvmTxEIP7702, ChainId := chainId, Nonce := nonce, GasTipCap := set_bytes (fields ! 2),
           GasFeeCap := set_bytes (fields ! 3), Gas := gas, To := hex0x (fields ! 5), Value := set_bytes (fields ! 6),
           Data := fields ! 7, AccessList := access, AuthList := auths\<rparr>))))))))"

definition ParseTransaction :: "'k evm_lib \<Rightarrow> evm_tx \<Rightarrow> bytes \<Rightarrow> evm_tx result" where
  "ParseTransaction lib tx buf =
     (if length buf < 1 then Inl (Error ErrUnexpectedEOF)
      else
        bindE (idx buf 0) (\<lambda>b0.
        if b0 \<ge> 0x80 then parse_legacy lib tx buf
        else
          bindE (slice_from buf 1) (\<lambda>rest.
          if b0 = 1 then parse_2930 lib tx rest
          else if b0 = 2 then parse_1559 lib tx rest
          else if b0 = 4 then parse_7702 lib tx rest
          else fail ''not supported'')))"

definition EvmTx_UnmarshalBinary :: "'k evm_lib \<Rightarrow> evm_tx \<Rightarrow> bytes \<Rightarrow> evm_tx result" where
  "EvmTx_UnmarshalBinary lib tx buf = ParseTransaction lib tx buf"

section \<open>Values that have an RLP\<close>

definition is_hex0x :: "string \<Rightarrow> bool" where
  "is_hex0x s \<longleftrightarrow> take 2 s = ''0x'' \<and> (case hex_decode (drop 2 s) of Inr b \<Rightarrow> hex0x b = s | Inl e \<Rightarrow> False)"

definition hex_of :: "string \<Rightarrow> bytes" where
  "hex_of s = (case hex_decode (drop 2 s) of Inr b \<Rightarrow> b | Inl e \<Rightarrow> [])"

definition big_ok :: "int option \<Rightarrow> bool" where
  "big_ok v \<longleftrightarrow> (case v of Some i \<Rightarrow> 0 \<le> i | None \<Rightarrow> False)"

definition big_bytes :: "int option \<Rightarrow> bytes" where
  "big_bytes v = (case v of Some i \<Rightarrow> be_min (nat i) | None \<Rightarrow> [])"

definition access_ok :: "evm_access_tuple \<Rightarrow> bool" where
  "access_ok t \<longleftrightarrow> is_hex0x (AccessAddress t) \<and> list_all is_hex0x (StorageKeys t)"

definition auth_ok :: "evm_authorization \<Rightarrow> bool" where
  "auth_ok a \<longleftrightarrow> is_hex0x (AuthAddress a) \<and> AuthSigned a \<and> big_ok (AuthY a) \<and> big_ok (AuthR a) \<and> big_ok (AuthS a)"

definition access_item :: "evm_access_tuple \<Rightarrow> rlp_item" where
  "access_item t = RList [RBytes (hex_of (AccessAddress t)), RList (map (RBytes \<circ> hex_of) (StorageKeys t))]"

definition auth_item :: "evm_authorization \<Rightarrow> rlp_item" where
  "auth_item a = RList (map RBytes [be_min (unat (AuthChainId a)), hex_of (AuthAddress a), be_min (unat (AuthNonce a)),
     big_bytes (AuthY a), big_bytes (AuthR a), big_bytes (AuthS a)])"

lemma items_of_list: "list_all (\<lambda>v. item_of (f v) = Some (g v)) vs \<Longrightarrow> items_of (map f vs) = Some (map g vs)"
  by (induction vs) simp_all

lemma items_of_append: "items_of (xs @ ys) = (case items_of xs of None \<Rightarrow> None | Some a \<Rightarrow> map_option (\<lambda>b. a @ b) (items_of ys))"
  by (cases "items_of ys"; induction xs) (auto split: option.splits)

lemma hex0x_facts [simp]: "is_hex0x s \<Longrightarrow> item_of (VStr s) = Some (RBytes (hex_of s))" "is_hex0x s \<Longrightarrow> hex0x (hex_of s) = s"
  "is_hex0x (hex0x b)"
  by (auto simp: is_hex0x_def hex_of_def hex0x_def split: sum.splits)

lemma big_facts [simp]: "big_ok v \<Longrightarrow> item_of (VBig v) = Some (RBytes (big_bytes v))" "big_ok v \<Longrightarrow> set_bytes (big_bytes v) = v"
  by (auto simp: big_ok_def big_bytes_def set_bytes_def split: option.splits)

lemma uint_decodes: "rlp_ok lib \<Longrightarrow> decodeUint64Checked lib (be_min (unat w)) = Inr w"
proof -
  have "unat w < 256 ^ 8" by simp
  from be_min_length [OF this] show "rlp_ok lib \<Longrightarrow> ?thesis"
    by (simp add: decodeUint64Checked_def rlp_ok_def)
qed

lemma access_item_of: "access_ok t \<Longrightarrow> item_of (access_rlpTuple t) = Some (access_item t)"
proof -
  assume "access_ok t"
  then have "items_of (map VStr (StorageKeys t)) = Some (map (RBytes \<circ> hex_of) (StorageKeys t))"
    by (intro items_of_list) (simp add: access_ok_def list_all_iff del: item_of.simps)
  with \<open>access_ok t\<close> show ?thesis
    by (simp add: access_rlpTuple_def access_item_def access_ok_def del: item_of.simps(4))
qed

lemma mapE_map: "(\<And>x. x \<in> set xs \<Longrightarrow> f (g x) = Inr (h x)) \<Longrightarrow> mapE f (map g xs) = Inr (map h xs)"
  by (induction xs) simp_all

lemma parse_access_item: "access_ok t \<Longrightarrow> parse_access_tuple (access_item t) = Inr t"
proof -
  assume ok: "access_ok t"
  then have "mapE (\<lambda>k. bindE (asBytes k) (\<lambda>kb. Inr (hex0x kb))) (map (RBytes \<circ> hex_of) (StorageKeys t)) =
      Inr (map (\<lambda>k. k) (StorageKeys t))"
    by (intro mapE_map) (auto simp: asBytes_def access_ok_def list_all_iff)
  with ok show ?thesis
    by (simp add: parse_access_tuple_def access_item_def asList_def asBytes_def access_ok_def)
qed

lemma auth_item_of: "auth_ok a \<Longrightarrow> item_of (auth_rlpTuple a) = Some (auth_item a)"
  by (simp add: auth_rlpTuple_def auth_item_def auth_ok_def del: item_of.simps(3,4))

lemma upt_numerals: "[0..<6] = [0, 1, 2, 3, 4, 5]" "[0..<7] = [0, 1, 2, 3, 4, 5, 6]" "[0..<8] = [0, 1, 2, 3, 4, 5, 6, 7]"
  by (simp_all add: upt_rec)

lemma parse_auth_item: "rlp_ok lib \<Longrightarrow> auth_ok a \<Longrightarrow> parse_authorization lib (auth_item a) = Inr a"
  by (simp add: parse_authorization_def auth_item_def asList_def asBytes_def upt_numerals auth_ok_def uint_decodes)

lemma access_list_roundtrip:
  assumes "list_all access_ok (AccessList tx)"
  shows "item_of (accessListRlp tx) = Some (RList (map access_item (AccessList tx)))"
    "parseAccessList (RList (map access_item (AccessList tx))) = Inr (AccessList tx)"
proof -
  show "item_of (accessListRlp tx) = Some (RList (map access_item (AccessList tx)))"
    using items_of_list [of access_rlpTuple access_item "AccessList tx"] assms access_item_of
    by (simp add: accessListRlp_def list_all_iff)
  have "mapE parse_access_tuple (map access_item (AccessList tx)) = Inr (map (\<lambda>t. t) (AccessList tx))"
    by (rule mapE_map) (use assms parse_access_item in \<open>auto simp: list_all_iff\<close>)
  then show "parseAccessList (RList (map access_item (AccessList tx))) = Inr (AccessList tx)"
    by (simp add: parseAccessList_def asList_def)
qed

lemma auth_list_roundtrip:
  assumes "rlp_ok lib" "list_all auth_ok (AuthList tx)"
  shows "item_of (authorizationListRlp tx) = Some (RList (map auth_item (AuthList tx)))"
    "parseAuthorizationList lib (RList (map auth_item (AuthList tx))) = Inr (AuthList tx)"
proof -
  show "item_of (authorizationListRlp tx) = Some (RList (map auth_item (AuthList tx)))"
    using items_of_list [of auth_rlpTuple auth_item "AuthList tx"] assms auth_item_of
    by (simp add: authorizationListRlp_def list_all_iff)
  have "mapE (parse_authorization lib) (map auth_item (AuthList tx)) = Inr (map (\<lambda>t. t) (AuthList tx))"
    by (rule mapE_map) (use assms parse_auth_item in \<open>auto simp: list_all_iff\<close>)
  then show "parseAuthorizationList lib (RList (map auth_item (AuthList tx))) = Inr (AuthList tx)"
    by (simp add: parseAuthorizationList_def asList_def)
qed

section \<open>Round trip\<close>

definition new_evm :: evm_tx where
  "new_evm = \<lparr>Nonce = 0, GasTipCap = None, GasFeeCap = None, Gas = 0, To = [], Value = None, Data = [], ChainId = 0,
     TxType = EvmTxLegacy, AccessList = [], AuthList = [], Signed = False, TxY = None, TxR = None, TxS = None\<rparr>"

text \<open>
  A transaction its binary form can carry: addresses are lower-case hexadecimal behind \<open>0x\<close>, numbers
  are not negative, and the fields its type does not have are zero.
\<close>

definition wf_evm :: "evm_tx \<Rightarrow> bool" where
  "wf_evm tx \<longleftrightarrow>
     is_hex0x (To tx) \<and> big_ok (GasFeeCap tx) \<and> big_ok (Value tx) \<and>
     list_all access_ok (AccessList tx) \<and> list_all auth_ok (AuthList tx) \<and>
     (if Signed tx then big_ok (TxY tx) \<and> big_ok (TxR tx) \<and> big_ok (TxS tx)
      else TxY tx = None \<and> TxR tx = None \<and> TxS tx = None) \<and>
     (case TxType tx of
        EvmTxLegacy \<Rightarrow> GasTipCap tx = None \<and> AccessList tx = [] \<and> AuthList tx = [] \<and> (\<not> Signed tx \<longrightarrow> ChainId tx = 0)
      | EvmTxEIP2930 \<Rightarrow> GasTipCap tx = None \<and> AuthList tx = []
      | EvmTxEIP1559 \<Rightarrow> big_ok (GasTipCap tx) \<and> AuthList tx = []
      | EvmTxEIP7702 \<Rightarrow> big_ok (GasTipCap tx)
      | _ \<Rightarrow> False)"

text \<open>The transaction as its binary form carries it: a legacy one without its chain.\<close>

definition carried :: "evm_tx \<Rightarrow> evm_tx" where
  "carried tx = (if TxType tx = EvmTxLegacy then tx\<lparr>ChainId := 0\<rparr> else tx)"

definition sig_items :: "evm_tx \<Rightarrow> bytes list" where
  "sig_items tx = (if Signed tx then [big_bytes (TxY tx), big_bytes (TxR tx), big_bytes (TxS tx)] else [])"

definition sig_vals :: "evm_tx \<Rightarrow> go_val list" where
  "sig_vals tx = (if Signed tx then [VBig (TxY tx), VBig (TxR tx), VBig (TxS tx)] else [])"

lemma sig_vals_items:
  "(if Signed tx then big_ok (TxY tx) \<and> big_ok (TxR tx) \<and> big_ok (TxS tx) else True) \<Longrightarrow>
    items_of (sig_vals tx) = Some (map RBytes (sig_items tx))"
  by (simp add: sig_vals_def sig_items_def del: item_of.simps)

lemma parse_sig_items:
  assumes "length its = n" "if Signed tx then big_ok (TxY tx) \<and> big_ok (TxR tx) \<and> big_ok (TxS tx)
      else TxY tx = None \<and> TxR tx = None \<and> TxS tx = None"
    and "TxY tx' = None" "TxR tx' = None" "TxS tx' = None"
  shows "parse_sig n (its @ map RBytes (sig_items tx)) tx' =
    Inr (tx'\<lparr>Signed := Signed tx, TxY := TxY tx, TxR := TxR tx, TxS := TxS tx\<rparr>)"
  using assms by (auto simp: parse_sig_def sig_items_def asBytes_def nth_append)

lemma EvmTx_Marshal_typed:
  "TxType tx \<in> {EvmTxEIP2930, EvmTxEIP1559, EvmTxEIP7702} \<Longrightarrow> EvmTx_MarshalBinary lib tx = Inr bs \<Longrightarrow>
    \<exists>buf. EncodeValue lib (RlpFields tx @ sig_vals tx) = Inr buf \<and> bs = typeValue tx # buf"
  by (auto simp: EvmTx_MarshalBinary_def SignBytes_def sig_vals_def bindE_Inr_iff split: if_splits)

lemma EvmTx_Marshal_legacy:
  "TxType tx = EvmTxLegacy \<Longrightarrow> \<not> Signed tx \<longrightarrow> ChainId tx = 0 \<Longrightarrow>
    EvmTx_MarshalBinary lib tx = EncodeValue lib (RlpFields tx @ sig_vals tx)"
  by (auto simp: EvmTx_MarshalBinary_def SignBytes_def sig_vals_def)

lemma typed_fields_items:
  assumes "rlp_ok lib" "items_of vs = Some its" "EncodeValue lib vs = Inr buf" "length its = n \<or> length its = n + 3"
  shows "typed_fields lib n e1 e2 buf = Inr its"
  using assms by (auto simp: typed_fields_def rlp_ok_def asList_def)

lemma sig_items_length: "length (sig_items tx) = 0 \<or> length (sig_items tx) = 3"
  by (simp add: sig_items_def)

lemma type_tags: "\<not> (0x80 :: byte) \<le> 1" "\<not> (0x80 :: byte) \<le> 2" "\<not> (0x80 :: byte) \<le> 4"
  by (simp_all add: word_le_nat_alt)

lemma evm_roundtrip_2930:
  assumes "rlp_ok lib" "wf_evm tx" "TxType tx = EvmTxEIP2930" "EvmTx_MarshalBinary lib tx = Inr bs"
  shows "ParseTransaction lib new_evm bs = Inr tx"
proof -
  obtain buf where buf: "EncodeValue lib (RlpFields tx @ sig_vals tx) = Inr buf" "bs = 1 # buf"
    using EvmTx_Marshal_typed [OF _ assms(4)] assms(3) by (auto simp: typeValue_def)
  define its where "its = [RBytes (be_min (unat (ChainId tx))), RBytes (be_min (unat (Nonce tx))), RBytes (big_bytes (GasFeeCap tx)),
    RBytes (be_min (unat (Gas tx))), RBytes (hex_of (To tx)), RBytes (big_bytes (Value tx)), RBytes (Data tx),
    RList (map access_item (AccessList tx))]"
  have wf: "list_all access_ok (AccessList tx)" "is_hex0x (To tx)" "big_ok (GasFeeCap tx)" "big_ok (Value tx)"
    "GasTipCap tx = None" "AuthList tx = []"
    and sig: "if Signed tx then big_ok (TxY tx) \<and> big_ok (TxR tx) \<and> big_ok (TxS tx)
      else TxY tx = None \<and> TxR tx = None \<and> TxS tx = None"
    using assms(2,3) by (auto simp: wf_evm_def)
  have "items_of (RlpFields tx) = Some its"
    using assms(3) wf access_list_roundtrip(1) [OF wf(1)] by (simp add: RlpFields_def its_def del: item_of.simps(3,4))
  with sig sig_vals_items [of tx] have "items_of (RlpFields tx @ sig_vals tx) = Some (its @ map RBytes (sig_items tx))"
    by (auto simp: items_of_append split: if_splits)
  from typed_fields_items [OF assms(1) this buf(1)] have
    "typed_fields lib 8 e1 e2 buf = Inr (its @ map RBytes (sig_items tx))" for e1 e2
    using sig_items_length [of tx] by (auto simp: its_def)
  then show ?thesis
    using parse_sig_items [of its 8 tx] sig wf access_list_roundtrip(2) [OF wf(1)] assms(3)
    by (simp add: ParseTransaction_def buf(2) parse_2930_def its_def asBytes_def upt_numerals uint_decodes [OF assms(1)] new_evm_def
        type_tags)
qed

lemma evm_roundtrip_1559:
  assumes "rlp_ok lib" "wf_evm tx" "TxType tx = EvmTxEIP1559" "EvmTx_MarshalBinary lib tx = Inr bs"
  shows "ParseTransaction lib new_evm bs = Inr tx"
proof -
  obtain buf where buf: "EncodeValue lib (RlpFields tx @ sig_vals tx) = Inr buf" "bs = 2 # buf"
    using EvmTx_Marshal_typed [OF _ assms(4)] assms(3) by (auto simp: typeValue_def)
  define its where "its = [RBytes (be_min (unat (ChainId tx))), RBytes (be_min (unat (Nonce tx))), RBytes (big_bytes (GasTipCap tx)), RBytes (big_bytes (GasFeeCap tx)),
    RBytes (be_min (unat (Gas tx))), RBytes (hex_of (To tx)), RBytes (big_bytes (Value tx)), RBytes (Data tx),
    RList (map access_item (AccessList tx))]"
  have wf: "list_all access_ok (AccessList tx)" "is_hex0x (To tx)" "big_ok (GasFeeCap tx)" "big_ok (Value tx)"
    "big_ok (GasTipCap tx)" "AuthList tx = []"
    and sig: "if Signed tx then big_ok (TxY tx) \<and> big_ok (TxR tx) \<and> big_ok (TxS tx)
      else TxY tx = None \<and> TxR tx = None \<and> TxS tx = None"
    using assms(2,3) by (auto simp: wf_evm_def)
  have "items_of (RlpFields tx) = Some its"
    using assms(3) wf access_list_roundtrip(1) [OF wf(1)] by (simp add: RlpFields_def its_def del: item_of.simps(3,4))
  with sig sig_vals_items [of tx] have "items_of (RlpFields tx @ sig_vals tx) = Some (its @ map RBytes (sig_items tx))"
    by (auto simp: items_of_append split: if_splits)
  from typed_fields_items [OF assms(1) this buf(1)] have
    "typed_fields lib 9 e1 e2 buf = Inr (its @ map RBytes (sig_items tx))" for e1 e2
    using sig_items_length [of tx] by (auto simp: its_def)
  then show ?thesis
    using parse_sig_items [of its 9 tx] sig wf access_list_roundtrip(2) [OF wf(1)] assms(3)
    by (simp add: ParseTransaction_def buf(2) parse_1559_def its_def asBytes_def upt_numerals uint_decodes [OF assms(1)] new_evm_def
        type_tags)
qed

lemma evm_roundtrip_7702:
  assumes "rlp_ok lib" "wf_evm tx" "TxType tx = EvmTxEIP7702" "EvmTx_MarshalBinary lib tx = Inr bs"
  shows "ParseTransaction lib new_evm bs = Inr tx"
proof -
  obtain buf where buf: "EncodeValue lib (RlpFields tx @ sig_vals tx) = Inr buf" "bs = 4 # buf"
    using EvmTx_Marshal_typed [OF _ assms(4)] assms(3) by (auto simp: typeValue_def)
  define its where "its = [RBytes (be_min (unat (ChainId tx))), RBytes (be_min (unat (Nonce tx))), RBytes (big_bytes (GasTipCap tx)), RBytes (big_bytes (GasFeeCap tx)),
    RBytes (be_min (unat (Gas tx))), RBytes (hex_of (To tx)), RBytes (big_bytes (Value tx)), RBytes (Data tx),
    RList (map access_item (AccessList tx)), RList (map auth_item (AuthList tx))]"
  have wf: "list_all access_ok (AccessList tx)" "is_hex0x (To tx)" "big_ok (GasFeeCap tx)" "big_ok (Value tx)"
    "big_ok (GasTipCap tx)" "list_all auth_ok (AuthList tx)"
    and sig: "if Signed tx then big_ok (TxY tx) \<and> big_ok (TxR tx) \<and> big_ok (TxS tx)
      else TxY tx = None \<and> TxR tx = None \<and> TxS tx = None"
    using assms(2,3) by (auto simp: wf_evm_def)
  have "items_of (RlpFields tx) = Some its"
    using assms(3) wf access_list_roundtrip(1) [OF wf(1)] auth_list_roundtrip(1) [OF assms(1) wf(6)] by (simp add: RlpFields_def its_def del: item_of.simps(3,4))
  with sig sig_vals_items [of tx] have "items_of (RlpFields tx @ sig_vals tx) = Some (its @ map RBytes (sig_items tx))"
    by (auto simp: items_of_append split: if_splits)
  from typed_fields_items [OF assms(1) this buf(1)] have
    "typed_fields lib 10 e1 e2 buf = Inr (its @ map RBytes (sig_items tx))" for e1 e2
    using sig_items_length [of tx] by (auto simp: its_def)
  then show ?thesis
    using parse_sig_items [of its 10 tx] sig wf access_list_roundtrip(2) [OF wf(1)] auth_list_roundtrip(2) [OF assms(1) wf(6)] assms(3)
    by (simp add: ParseTransaction_def buf(2) parse_7702_def its_def asBytes_def upt_numerals uint_decodes [OF assms(1)] new_evm_def
        type_tags)
qed

text \<open>Whatever was encoded as a list of byte strings is parsed from those strings.\<close>

lemma legacy_items_parse:
  assumes "rlp_ok lib" "EncodeValue lib vs = Inr bs" "items_of vs = Some (map RBytes bss)"
  shows "ParseTransaction lib tx bs = legacy_fields lib tx bss"
proof -
  have dec: "bs \<noteq> []" "0xc0 \<le> hd bs" "RlpDecode lib bs = Inr [RList (map RBytes bss)]"
      "AsByteSlices lib (RList (map RBytes bss)) = Inr bss"
    using assms unfolding rlp_ok_def by blast+
  have "0x80 \<le> hd bs"
    using dec(2) by (rule order_trans [rotated]) (simp add: word_le_nat_alt)
  with dec(1) have "ParseTransaction lib tx bs = parse_legacy lib tx bs"
    by (cases bs) (simp_all add: ParseTransaction_def)
  with dec show ?thesis
    by (simp add: parse_legacy_def)
qed

lemma legacy_items:
  "TxType tx = EvmTxLegacy \<Longrightarrow> is_hex0x (To tx) \<Longrightarrow> big_ok (GasFeeCap tx) \<Longrightarrow> big_ok (Value tx) \<Longrightarrow>
    items_of (RlpFields tx) = Some (map RBytes [be_min (unat (Nonce tx)), big_bytes (GasFeeCap tx), be_min (unat (Gas tx)),
      hex_of (To tx), big_bytes (Value tx), Data tx])"
  by (simp add: RlpFields_def del: item_of.simps(3,4))

lemma evm_roundtrip_legacy:
  assumes "rlp_ok lib" "wf_evm tx" "TxType tx = EvmTxLegacy" "EvmTx_MarshalBinary lib tx = Inr bs"
  shows "ParseTransaction lib new_evm bs = Inr (tx\<lparr>ChainId := 0\<rparr>)"
proof -
  have wf: "is_hex0x (To tx)" "big_ok (GasFeeCap tx)" "big_ok (Value tx)"
    "GasTipCap tx = None" "AuthList tx = []" "AccessList tx = []" "\<not> Signed tx \<longrightarrow> ChainId tx = 0"
    and sig: "if Signed tx then big_ok (TxY tx) \<and> big_ok (TxR tx) \<and> big_ok (TxS tx)
      else TxY tx = None \<and> TxR tx = None \<and> TxS tx = None"
    using assms(2,3) by (auto simp: wf_evm_def)
  have buf: "EncodeValue lib (RlpFields tx @ sig_vals tx) = Inr bs"
    using assms(4) unfolding EvmTx_Marshal_legacy [OF assms(3) wf(7)] .
  define bss where "bss = [be_min (unat (Nonce tx)), big_bytes (GasFeeCap tx), be_min (unat (Gas tx)), hex_of (To tx),
    big_bytes (Value tx), Data tx] @ sig_items tx"
  have "items_of (RlpFields tx @ sig_vals tx) = Some (map RBytes bss)"
    using sig sig_vals_items [of tx] legacy_items [OF assms(3) wf(1-3)] by (auto simp: items_of_append bss_def split: if_splits)
  then have "ParseTransaction lib new_evm bs = legacy_fields lib new_evm bss"
    using assms(1) buf by (intro legacy_items_parse)
  also have "\<dots> = Inr (tx\<lparr>ChainId := 0\<rparr>)"
    using sig wf assms(3) by (auto simp: legacy_fields_def bss_def sig_items_def uint_decodes [OF assms(1)] new_evm_def split: if_splits)
  finally show ?thesis .
qed

lemma evm_roundtrip:
  assumes "rlp_ok lib" "wf_evm tx" "EvmTx_MarshalBinary lib tx = Inr bs"
  shows "EvmTx_UnmarshalBinary lib new_evm bs = Inr (carried tx)"
  using assms evm_roundtrip_legacy [OF assms(1,2) _ assms(3)] evm_roundtrip_2930 [OF assms(1,2) _ assms(3)]
    evm_roundtrip_1559 [OF assms(1,2) _ assms(3)] evm_roundtrip_7702 [OF assms(1,2) _ assms(3)]
  by (cases "TxType tx") (auto simp: EvmTx_UnmarshalBinary_def carried_def wf_evm_def)

section \<open>No panics\<close>

text \<open>A decoder that reports bad input as an error; \<open>DecodeUint64\<close> may panic beyond 8 bytes.\<close>

definition rlp_total :: "'k evm_lib \<Rightarrow> bool" where
  "rlp_total lib \<longleftrightarrow>
     (\<forall>b. no_panic (RlpDecode lib b)) \<and> (\<forall>v. no_panic (AsByteSlices lib v)) \<and>
     (\<forall>b. length b \<le> 8 \<longrightarrow> no_panic (DecodeUint64 lib b))"

lemma no_panic_items [no_panics]: "no_panic (asBytes v)" "no_panic (asList v)"
  by (auto simp: asBytes_def asList_def split: rlp_item.splits)

lemma no_panic_uint: "rlp_total lib \<Longrightarrow> no_panic (decodeUint64Checked lib b)"
  by (simp add: decodeUint64Checked_def rlp_total_def)

lemma no_panic_idx: "i < length xs \<Longrightarrow> no_panic (idx xs i)"
  by simp

lemma no_panic_access: "no_panic (parseAccessList v)"
  by (auto simp: parseAccessList_def parse_access_tuple_def intro!: no_panic_bindE no_panic_mapE no_panics)

lemma no_panic_auths: "rlp_total lib \<Longrightarrow> no_panic (parseAuthorizationList lib v)"
  by (auto simp: parseAuthorizationList_def parse_authorization_def intro!: no_panic_bindE no_panic_mapE no_panics no_panic_uint)

lemma no_panic_parse_sig: "no_panic (parse_sig n d tx)"
  by (auto simp: parse_sig_def intro!: no_panic_bindE no_panics)

lemma no_panic_typed_fields: "rlp_total lib \<Longrightarrow> no_panic (typed_fields lib n e1 e2 b)"
  by (auto simp: typed_fields_def rlp_total_def intro!: no_panic_bindE no_panics)

lemma typed_fields_length: "typed_fields lib n e1 e2 b = Inr d \<Longrightarrow> n \<le> length d"
  by (auto simp: typed_fields_def bindE_Inr_iff split: if_splits)

lemma no_panic_parse_legacy: "rlp_total lib \<Longrightarrow> no_panic (parse_legacy lib tx b)"
proof -
  assume lib: "rlp_total lib"
  have "no_panic (case AsByteSlices lib d of Inl (Error e) \<Rightarrow> fail m | r \<Rightarrow> r)" for d and m :: string
    using lib by (auto simp: rlp_total_def no_panic_def split: sum.splits failure.splits)
  moreover have "no_panic (legacy_fields lib tx d)" for d
    using lib by (auto simp: legacy_fields_def Let_def intro!: no_panic_bindE no_panic_uint)
  ultimately show ?thesis
    using lib by (auto simp: parse_legacy_def rlp_total_def intro!: no_panic_bindE)
qed

lemma no_panic_parse_typed:
  assumes "rlp_total lib"
  shows "no_panic (parse_2930 lib tx b)" "no_panic (parse_1559 lib tx b)" "no_panic (parse_7702 lib tx b)"
proof -
  have idx: "no_panic (bindE (idx d i) f)" if "i < length d" "\<And>x. no_panic (f x)" for d :: "rlp_item list" and i and f :: "rlp_item \<Rightarrow> 'a result"
    using that by simp
  note rules = no_panic_bindE no_panic_mapE no_panic_typed_fields [OF assms] no_panic_uint [OF assms] no_panic_parse_sig
  show "no_panic (parse_2930 lib tx b)"
    unfolding parse_2930_def
    by (intro rules) (auto dest!: typed_fields_length intro: no_panics no_panic_access)
  show "no_panic (parse_1559 lib tx b)"
    unfolding parse_1559_def
    by (intro rules) (auto dest!: typed_fields_length intro: no_panics no_panic_access)
  show "no_panic (parse_7702 lib tx b)"
    unfolding parse_7702_def
    by (intro rules) (auto dest!: typed_fields_length intro: no_panics no_panic_access no_panic_auths [OF assms])
qed

lemma no_panic_ParseTransaction: "rlp_total lib \<Longrightarrow> no_panic (ParseTransaction lib tx b)"
  by (cases b) (auto simp: ParseTransaction_def intro!: no_panic_bindE no_panic_parse_legacy no_panic_parse_typed)

end
