(* ===== verification/EvmSign.thy ===== *)
theory EvmSign
  imports EvmTx
begin

text \<open>
  Signing EVM transactions and EIP-7702 authorizations and recovering who signed them
  (\<^verbatim>\<open>evmtx.go\<close>, \<^verbatim>\<open>evmtx7702.go\<close>). Reading a signature may change the chain of a legacy
  transaction, so the operations that read it return the transaction too.
\<close>

section \<open>Transactions\<close>

text \<open>\<open>SetByteSlice\<close> of the bytes of a number: at most the first 32 of them are read.\<close>

definition read_scalar :: "string \<Rightarrow> int option \<Rightarrow> nat result" where
  "read_scalar msg v =
     (case v of
        None \<Rightarrow> Inl Panic
      | Some i \<Rightarrow>
          let n = be_decode (take 32 (be_min (nat \<bar>i\<bar>))) in
          if n \<ge> curve_order then fail msg else Inr n)"

definition big_uint64 :: "int option \<Rightarrow> 64 word result" where
  "big_uint64 v = (case v of None \<Rightarrow> Inl Panic | Some i \<Rightarrow> Inr (word_of_nat (nat \<bar>i\<bar>)))"

text \<open>The recovery code in the \<open>v\<close> of a legacy transaction, and the chain it names.\<close>

definition legacy_v :: "64 word \<Rightarrow> (64 word \<times> 64 word) result" where
  "legacy_v v =
     (if v \<ge> 35 then let bit = 1 - (v AND 1) in Inr ((v - (35 + bit)) div 2, bit)
      else if v = 27 \<or> v = 28 then Inr (0, v - 27)
      else if v = 0 \<or> v = 1 then Inr (0, v)
      else fail ''invalid pre-EIP-155 signature v value: %d'')"

definition EvmTx_Signature :: "evm_tx \<Rightarrow> evm_tx \<times> ((nat \<times> nat) \<times> nat) result" where
  "EvmTx_Signature tx =
     (if \<not> Signed tx then (tx, fail ''cannot obtain signature of an unsigned transaction'')
      else
        case bindE (read_scalar ''cannot read signature: invalid value for R >= group order'' (TxR tx)) (\<lambda>r.
             bindE (read_scalar ''cannot read signature: invalid value for S >= group order'' (TxS tx)) (\<lambda>s.
             bindE (big_uint64 (TxY tx)) (\<lambda>v. Inr (r, s, v)))) of
          Inl e \<Rightarrow> (tx, Inl e)
        | Inr (r, s, v) \<Rightarrow>
            let (tx, v) =
              (if TxType tx = EvmTxLegacy then
                 case legacy_v v of
                   Inl e \<Rightarrow> (tx\<lparr>ChainId := 0\<rparr>, Inl e)
                 | Inr (c, v) \<Rightarrow> (tx\<lparr>ChainId := c\<rparr>, Inr v)
               else (tx, Inr v))
            in (tx, bindE v (\<lambda>v. if v > 3 then fail ''invalid signature recovery id: %d'' else Inr ((r, s), unat v))))"

definition SenderPubkey :: "'k evm_lib \<Rightarrow> 'p crypto \<Rightarrow> evm_tx \<Rightarrow> evm_tx \<times> 'k result" where
  "SenderPubkey lib cr tx =
     (if \<not> Signed tx then (tx, fail ''cannot obtain signature of an unsigned transaction'')
      else
        let (tx, sig) = EvmTx_Signature tx in
        (tx, bindE sig (\<lambda>(rs, v). bindE (SignBytes lib tx) (\<lambda>buf. RecoverPublicKey lib rs v (chash cr [Keccak256New] buf)))))"

definition key_address :: "'k evm_lib \<Rightarrow> 'p crypto \<Rightarrow> 'k \<Rightarrow> string result" where
  "key_address lib cr pk = bindE (fst (Generate cr ''eth'' (New (encodings lib pk)))) (\<lambda>addr. eip55 cr addr)"

definition SenderAddress :: "'k evm_lib \<Rightarrow> 'p crypto \<Rightarrow> evm_tx \<Rightarrow> evm_tx \<times> string result" where
  "SenderAddress lib cr tx = (let (tx, r) = SenderPubkey lib cr tx in (tx, bindE r (key_address lib cr)))"

text \<open>The signature of a digest: its two numbers and the recovery code of the key.\<close>

definition recoverable_sign :: "'k evm_lib \<Rightarrow> 'k evm_signer \<Rightarrow> bytes \<Rightarrow> ((nat \<times> nat) \<times> nat) result" where
  "recoverable_sign lib key h =
     bindE (SignHash key h) (\<lambda>sig.
     bindE (ParseDERSignature lib sig) (\<lambda>sigO.
     case SignerPublic key of
       None \<Rightarrow> fail ''signing key public part must be a secp256k1 public key, got %T''
     | Some pub \<Rightarrow>
         (case BruteforceRecoveryCode lib sigO h pub of
            None \<Rightarrow> fail ''failed to determine signature recovery code''
          | Some v \<Rightarrow> Inr (sigO, v))))"

text \<open>The \<open>v\<close> of a signed transaction, in the 64-bit arithmetic of the code.\<close>

definition signed_v :: "evm_tx \<Rightarrow> nat \<Rightarrow> int" where
  "signed_v tx v =
     (if TxType tx = EvmTxLegacy then
        if ChainId tx = 0 then sint (27 + word_of_nat v :: 64 word)
        else sint (ChainId tx * 2 + 35 + word_of_nat v)
      else int v)"

definition SignWithOptions :: "'k evm_lib \<Rightarrow> 'p crypto \<Rightarrow> 'k evm_signer \<Rightarrow> evm_tx \<Rightarrow> evm_tx result" where
  "SignWithOptions lib cr key tx =
     bindE (SignBytes lib tx) (\<lambda>buf.
     bindE (recoverable_sign lib key (chash cr [Keccak256New] buf)) (\<lambda>((r, s), v).
     Inr (tx\<lparr>Signed := True, TxR := Some (int r), TxS := Some (int s), TxY := Some (signed_v tx v)\<rparr>)))"

definition EvmTx_Sign :: "'k evm_lib \<Rightarrow> 'p crypto \<Rightarrow> 'k evm_signer \<Rightarrow> evm_tx \<Rightarrow> evm_tx result" where
  "EvmTx_Sign lib cr key tx = SignWithOptions lib cr key tx"

definition EvmTx_Call :: "'p crypto \<Rightarrow> string \<Rightarrow> abi_param list \<Rightarrow> evm_tx \<Rightarrow> evm_tx \<times> unit result" where
  "EvmTx_Call cr method params tx =
     (case EvmCall cr method params of Inl e \<Rightarrow> (tx, Inl e) | Inr res \<Rightarrow> (tx\<lparr>Data := res\<rparr>, Inr ()))"

section \<open>Authorizations\<close>

definition eip7702MagicPrefix :: byte where
  "eip7702MagicPrefix = 5"

definition Auth_SignBytes :: "'k evm_lib \<Rightarrow> evm_authorization \<Rightarrow> bytes result" where
  "Auth_SignBytes lib a =
     bindE (EncodeValue lib [VUint (AuthChainId a), VStr (AuthAddress a), VUint (AuthNonce a)])
       (\<lambda>buf. Inr (eip7702MagicPrefix # buf))"

definition Auth_SignWithOptions :: "'k evm_lib \<Rightarrow> 'p crypto \<Rightarrow> 'k evm_signer \<Rightarrow> evm_authorization \<Rightarrow> evm_authorization result" where
  "Auth_SignWithOptions lib cr key a =
     bindE (Auth_SignBytes lib a) (\<lambda>buf.
     bindE (recoverable_sign lib key (chash cr [Keccak256New] buf)) (\<lambda>((r, s), v).
     Inr (a\<lparr>AuthR := Some (int r), AuthS := Some (int s), AuthY := Some (int v), AuthSigned := True\<rparr>)))"

definition Auth_Signature :: "evm_authorization \<Rightarrow> ((nat \<times> nat) \<times> nat) result" where
  "Auth_Signature a =
     (if \<not> AuthSigned a then fail ''cannot obtain signature of an unsigned authorization''
      else
        bindE (read_scalar ''cannot read signature: invalid value for R >= group order'' (AuthR a)) (\<lambda>r.
        bindE (read_scalar ''cannot read signature: invalid value for S >= group order'' (AuthS a)) (\<lambda>s.
        bindE (big_uint64 (AuthY a)) (\<lambda>v.
        if v > 3 then fail ''invalid authorization signature recovery id: %d'' else Inr ((r, s), unat v)))))"

definition AuthorityPubkey :: "'k evm_lib \<Rightarrow> 'p crypto \<Rightarrow> evm_authorization \<Rightarrow> 'k result" where
  "AuthorityPubkey lib cr a =
     bindE (Auth_Signature a) (\<lambda>(rs, v).
     bindE (Auth_SignBytes lib a) (\<lambda>buf. RecoverPublicKey lib rs v (chash cr [Keccak256New] buf)))"

definition Authority :: "'k evm_lib \<Rightarrow> 'p crypto \<Rightarrow> evm_authorization \<Rightarrow> string result" where
  "Authority lib cr a = bindE (AuthorityPubkey lib cr a) (key_address lib cr)"

section \<open>Recovery\<close>

text \<open>
  What the code relies on of the curve library: parsed signatures are scalars, the recovery code it
  finds for a key recovers that key, and codes are at most 3.
\<close>

definition recovery_ok :: "'k evm_lib \<Rightarrow> bool" where
  "recovery_ok lib \<longleftrightarrow>
     (\<forall>sig r s. ParseDERSignature lib sig = Inr (r, s) \<longrightarrow> r < curve_order \<and> s < curve_order) \<and>
     (\<forall>rs h pub v. BruteforceRecoveryCode lib rs h pub = Some v \<longrightarrow> v \<le> 3 \<and> RecoverPublicKey lib rs v h = Inr pub)"

lemma read_scalar_small: "n < curve_order \<Longrightarrow> read_scalar msg (Some (int n)) = Inr n"
proof -
  assume n: "n < curve_order"
  then have "n < 256 ^ 32" by (simp add: curve_order_def)
  then have "length (be_min n) \<le> 32" by (rule be_min_length)
  with n show ?thesis
    by (simp add: read_scalar_def)
qed

lemma recoverable_sign_facts:
  assumes "recovery_ok lib" "recoverable_sign lib key h = Inr ((r, s), v)"
  shows "r < curve_order" "s < curve_order" "v \<le> 3" "\<exists>pub. SignerPublic key = Some pub \<and> RecoverPublicKey lib (r, s) v h = Inr pub"
  using assms by (auto simp: recoverable_sign_def recovery_ok_def bindE_Inr_iff split: option.splits)

text \<open>Reading back the \<open>v\<close> that signing wrote.\<close>

lemma big_uint64_sint:
  "n < 2 ^ 63 \<Longrightarrow> sint (word_of_nat n :: 64 word) = int n \<and> big_uint64 (Some (sint (word_of_nat n :: 64 word))) = Inr (word_of_nat n)"
proof -
  assume n: "n < 2 ^ 63"
  then have "sint (word_of_nat n :: 64 word) = int n"
    by (simp add: sint_uint uint_nat unat_of_nat signed_take_bit_int_eq_self)
  then show ?thesis
    by (simp add: big_uint64_def)
qed

lemma legacy_v_word:
  assumes "c < 2 ^ 62 - 18" "v \<le> 1"
  shows "legacy_v (word_of_nat (2 * c + 35 + v)) = Inr (word_of_nat c, word_of_nat v)"
proof -
  define w :: "64 word" where "w = word_of_nat (2 * c + 35 + v)"
  have w: "unat w = 2 * c + 35 + v"
    unfolding w_def unat_of_nat using assms by simp
  have "35 \<le> w" using w by (simp add: word_le_nat_alt)
  moreover have bit: "1 - (w AND 1) = word_of_nat v"
  proof (rule word_unat_eq_iff [THEN iffD2])
    have "unat (w AND 1) = (1 + v) mod 2"
      using w by (simp add: and_one_eq unat_mod) presburger
    then show "unat (1 - (w AND 1)) = unat (word_of_nat v :: 64 word)"
      using assms(2) by (auto simp: unat_sub word_le_nat_alt unat_of_nat le_Suc_eq)
  qed
  moreover have "(w - (35 + word_of_nat v)) div 2 = word_of_nat c"
  proof -
    have "w - (35 + word_of_nat v) = word_of_nat (2 * c)" by (simp add: w_def)
    then show ?thesis
      using assms(1) by (simp add: word_unat_eq_iff unat_div unat_of_nat unat_word_ariths)
  qed
  ultimately show ?thesis
    unfolding w_def [symmetric] by (simp add: legacy_v_def)
qed

lemma legacy_v_signed:
  assumes "TxType tx = EvmTxLegacy" "unat (ChainId tx) < 2 ^ 62 - 18" "v \<le> 1"
  shows "0 \<le> signed_v tx v" "\<exists>w. big_uint64 (Some (signed_v tx v)) = Inr w \<and> legacy_v w = Inr (ChainId tx, word_of_nat v)"
proof -
  have "0 \<le> signed_v tx v \<and> (\<exists>w. big_uint64 (Some (signed_v tx v)) = Inr w \<and> legacy_v w = Inr (ChainId tx, word_of_nat v))"
  proof (cases "ChainId tx = 0")
    case True
    have "v = 0 \<or> v = 1" using assms(3) by auto
    moreover have "legacy_v 27 = Inr (0, 0)" "legacy_v 28 = Inr (0, 1)" by (simp_all add: legacy_v_def)
    ultimately show ?thesis
      using True assms(1) big_uint64_sint [of "27 + v"] by (auto simp: signed_v_def)
  next
    case False
    define n where "n = 2 * unat (ChainId tx) + 35 + v"
    have "ChainId tx * 2 + 35 + word_of_nat v = (word_of_nat n :: 64 word)"
      by (simp add: n_def)
    with False assms(1) have sv: "signed_v tx v = sint (word_of_nat n :: 64 word)" by (simp add: signed_v_def)
    have "n < 2 ^ 63" using assms by (simp add: n_def)
    from big_uint64_sint [OF this] show ?thesis
      unfolding sv using legacy_v_word [OF assms(2,3)] by (auto simp: n_def [symmetric])
  qed
  then show "0 \<le> signed_v tx v" "\<exists>w. big_uint64 (Some (signed_v tx v)) = Inr w \<and> legacy_v w = Inr (ChainId tx, word_of_nat v)"
    by blast+
qed

section \<open>From the signature to the sender\<close>

lemma signature_of_signed:
  assumes "r < curve_order" "s < curve_order" "v \<le> 3"
    and "TxType tx = EvmTxLegacy \<Longrightarrow> unat (ChainId tx) < 2 ^ 62 - 18 \<and> v \<le> 1"
    and tx': "tx' = tx\<lparr>Signed := True, TxR := Some (int r), TxS := Some (int s), TxY := Some (signed_v tx v)\<rparr>"
  shows "EvmTx_Signature (carried tx') = (tx', Inr ((r, s), v))"
proof (cases "TxType tx = EvmTxLegacy")
  case True
  obtain w where w: "big_uint64 (Some (signed_v tx v)) = Inr w" "legacy_v w = Inr (ChainId tx, word_of_nat v)"
    using legacy_v_signed [of tx v] assms(4) True by auto
  have v: "\<not> (word_of_nat v :: 64 word) > 3" "unat (word_of_nat v :: 64 word) = v"
    using assms(3) by (simp_all add: unat_of_nat word_less_nat_alt not_less)
  have "ChainId (carried tx') = 0" "Signed (carried tx')" "TxType (carried tx') = EvmTxLegacy" "carried tx'\<lparr>ChainId := ChainId tx\<rparr> = tx'"
    "TxR (carried tx') = Some (int r)" "TxS (carried tx') = Some (int s)" "TxY (carried tx') = Some (signed_v tx v)"
    using True by (simp_all add: carried_def tx')
  with w v assms(1,2) show ?thesis
    by (simp add: EvmTx_Signature_def read_scalar_small)
next
  case False
  have v: "\<not> (word_of_nat v :: 64 word) > 3" "unat (word_of_nat v :: 64 word) = v"
    using assms(3) by (simp_all add: unat_of_nat word_less_nat_alt not_less)
  have "carried tx' = tx'" "Signed tx'" "TxType tx' \<noteq> EvmTxLegacy"
    "TxR tx' = Some (int r)" "TxS tx' = Some (int s)" "TxY tx' = Some (int v)"
    using False by (simp_all add: carried_def tx' signed_v_def)
  with v assms(1,2) show ?thesis
    by (simp add: EvmTx_Signature_def read_scalar_small big_uint64_def)
qed

lemma SignBytes_unsigned:
  "SignBytes lib (tx\<lparr>Signed := b, TxR := r, TxS := s, TxY := y\<rparr>) = SignBytes lib tx"
  by (simp add: SignBytes_def RlpFields_def typeValue_def accessListRlp_def authorizationListRlp_def cong: evm_tx_type.case_cong)

text \<open>
  The wire form of a transaction just signed gives back the transaction, its chain and the key that
  signed it. Legacy transactions need a chain number below \<open>2 ^ 62 - 18\<close> and a recovery code of
  0 or 1 for their \<open>v\<close> to hold both.
\<close>

lemma sender_of_signed:
  assumes "recovery_ok lib" "\<not> Signed tx" "SignerPublic key = Some pub"
    and "TxType tx = EvmTxLegacy \<longrightarrow> unat (ChainId tx) < 2 ^ 62 - 18 \<and>
      (\<forall>rs h v. BruteforceRecoveryCode lib rs h pub = Some v \<longrightarrow> v \<le> 1)"
    and "SignWithOptions lib cr key tx = Inr tx'"
  shows "SenderPubkey lib cr (carried tx') = (tx', Inr pub)"
proof -
  obtain buf r s v where buf: "SignBytes lib tx = Inr buf"
    and sign: "recoverable_sign lib key (chash cr [Keccak256New] buf) = Inr ((r, s), v)"
    and tx': "tx' = tx\<lparr>Signed := True, TxR := Some (int r), TxS := Some (int s), TxY := Some (signed_v tx v)\<rparr>"
    using assms(5) by (auto simp: SignWithOptions_def bindE_Inr_iff)
  note facts = recoverable_sign_facts [OF assms(1) sign]
  have "BruteforceRecoveryCode lib (r, s) (chash cr [Keccak256New] buf) pub = Some v"
    using sign assms(3) by (auto simp: recoverable_sign_def bindE_Inr_iff split: option.splits)
  with assms(4) have "TxType tx = EvmTxLegacy \<Longrightarrow> unat (ChainId tx) < 2 ^ 62 - 18 \<and> v \<le> 1" by blast
  from signature_of_signed [OF facts(1-3) this tx']
  have sig: "EvmTx_Signature (carried tx') = (tx', Inr ((r, s), v))" .
  have "Signed (carried tx')" by (simp add: carried_def tx')
  moreover have "SignBytes lib tx' = Inr buf" using buf unfolding tx' SignBytes_unsigned .
  ultimately show ?thesis
    using sig facts(4) assms(3) by (simp add: SenderPubkey_def)
qed

lemma wf_signed:
  assumes "wf_evm (carried tx)" "\<not> Signed tx" "recovery_ok lib" "SignWithOptions lib cr key tx = Inr tx'"
    and "TxType tx = EvmTxLegacy \<longrightarrow> unat (ChainId tx) < 2 ^ 62 - 18 \<and>
      (\<forall>rs h v. BruteforceRecoveryCode lib rs h pub = Some v \<longrightarrow> v \<le> 1)" "SignerPublic key = Some pub"
  shows "wf_evm tx'"
proof -
  obtain buf r s v where sign: "recoverable_sign lib key (chash cr [Keccak256New] buf) = Inr ((r, s), v)"
    and tx': "tx' = tx\<lparr>Signed := True, TxR := Some (int r), TxS := Some (int s), TxY := Some (signed_v tx v)\<rparr>"
    using assms(4) by (auto simp: SignWithOptions_def bindE_Inr_iff)
  have "BruteforceRecoveryCode lib (r, s) (chash cr [Keccak256New] buf) pub = Some v"
    using sign assms(6) by (auto simp: recoverable_sign_def bindE_Inr_iff split: option.splits)
  with assms(5) have "TxType tx = EvmTxLegacy \<Longrightarrow> unat (ChainId tx) < 2 ^ 62 - 18 \<and> v \<le> 1" by blast
  then have "0 \<le> signed_v tx v"
    using legacy_v_signed(1) [of tx v] by (cases "TxType tx = EvmTxLegacy") (simp_all add: signed_v_def)
  then show ?thesis
    using assms(1,2) by (auto simp: wf_evm_def carried_def tx' big_ok_def split: if_splits evm_tx_type.splits)
qed

section \<open>Parsed signatures\<close>

text \<open>What parsing leaves in a signed transaction can be read: the numbers are there.\<close>

definition numbers_ok :: "evm_tx \<Rightarrow> bool" where
  "numbers_ok tx \<longleftrightarrow> (Signed tx \<longrightarrow> TxY tx \<noteq> None \<and> TxR tx \<noteq> None \<and> TxS tx \<noteq> None)"

definition gives :: "('a \<Rightarrow> bool) \<Rightarrow> 'a result \<Rightarrow> bool" where
  "gives P r \<longleftrightarrow> (case r of Inl e \<Rightarrow> True | Inr x \<Rightarrow> P x)"

lemma gives_simps [simp]: "gives P (Inl e)" "gives P (Inr x) = P x"
  by (simp_all add: gives_def)

lemma gives_bindE: "(\<And>x. m = Inr x \<Longrightarrow> gives P (f x)) \<Longrightarrow> gives P (bindE m f)"
  by (cases m) simp_all

lemma gives_parse_sig: "gives numbers_ok (parse_sig n d tx)"
  by (auto simp: parse_sig_def numbers_ok_def set_bytes_def intro!: gives_bindE)

lemma gives_legacy_fields: "gives numbers_ok (legacy_fields lib tx d)"
  by (auto simp: legacy_fields_def numbers_ok_def set_bytes_def Let_def intro!: gives_bindE)

lemma gives_parsers:
  "gives numbers_ok (parse_legacy lib tx b)" "gives numbers_ok (parse_2930 lib tx b)"
  "gives numbers_ok (parse_1559 lib tx b)" "gives numbers_ok (parse_7702 lib tx b)"
  unfolding parse_legacy_def parse_2930_def parse_1559_def parse_7702_def
  by (auto intro!: gives_bindE gives_parse_sig gives_legacy_fields)

lemma ParseTransaction_numbers: "gives numbers_ok (ParseTransaction lib tx b)"
  unfolding ParseTransaction_def by (auto intro!: gives_bindE gives_parsers)

lemma no_panic_read_scalar: "v \<noteq> None \<Longrightarrow> no_panic (read_scalar e v)"
  by (auto simp: read_scalar_def Let_def split: option.splits)

lemma no_panic_big_uint64: "v \<noteq> None \<Longrightarrow> no_panic (big_uint64 v)"
  by (auto simp: big_uint64_def)

lemma read_scalar_less: "read_scalar e v = Inr n \<Longrightarrow> n < curve_order"
  by (auto simp: read_scalar_def Let_def split: option.splits if_splits)

lemma no_panic_legacy_v: "no_panic (legacy_v v)"
  by (simp add: legacy_v_def Let_def)

definition safe_signature :: "((nat \<times> nat) \<times> nat) result \<Rightarrow> bool" where
  "safe_signature sig \<longleftrightarrow>
     (case sig of Inl e \<Rightarrow> e \<noteq> Panic | Inr ((r, s), v) \<Rightarrow> r < curve_order \<and> s < curve_order \<and> v \<le> 3)"

lemma safe_code: "safe_signature (if v > 3 then fail m else Inr ((r, s), unat v))" if "r < curve_order" "s < curve_order" for v :: "64 word"
  using that by (simp add: safe_signature_def word_less_nat_alt not_less)

lemma safe_failure: "safe_signature (Inl e) \<longleftrightarrow> e \<noteq> Panic"
  by (simp add: safe_signature_def)

lemma EvmTx_Signature_safe:
  assumes "numbers_ok tx"
  shows "safe_signature (snd (EvmTx_Signature tx))"
proof (cases "Signed tx")
  case False
  then show ?thesis by (simp add: EvmTx_Signature_def safe_signature_def)
next
  case True
  let ?e1 = "''cannot read signature: invalid value for R >= group order''"
  let ?e2 = "''cannot read signature: invalid value for S >= group order''"
  define m where "m = bindE (read_scalar ?e1 (TxR tx)) (\<lambda>r. bindE (read_scalar ?e2 (TxS tx)) (\<lambda>s.
    bindE (big_uint64 (TxY tx)) (\<lambda>v. Inr (r, s, v))))"
  have np: "no_panic m"
    using assms True unfolding m_def numbers_ok_def by (intro no_panic_bindE no_panic_read_scalar no_panic_big_uint64) auto
  show ?thesis
  proof (cases m)
    case (Inl e)
    with np True show ?thesis
      by (simp add: EvmTx_Signature_def m_def [symmetric] safe_signature_def no_panic_def)
  next
    case (Inr rsv)
    then obtain r s v where rsv: "m = Inr (r, s, v)" "r < curve_order" "s < curve_order"
      by (auto simp: m_def bindE_Inr_iff dest: read_scalar_less)
    then show ?thesis
      using True no_panic_legacy_v [of v] safe_code [OF rsv(2,3)]
      by (auto simp: EvmTx_Signature_def m_def [symmetric] no_panic_def Let_def safe_failure split: sum.splits)
  qed
qed

lemma uint_set_bytes: "set_bytes (be_min (unat w)) = Some (uint w)" "set_bytes [] = Some 0"
  by (simp_all add: set_bytes_def) (simp add: be_decode_def)

section \<open>Properties\<close>

text \<open>Libraries and a transaction for which the hypotheses hold.\<close>

definition demo_evm :: "nat evm_lib" where
  "demo_evm = reference_rlp
     \<lparr>EncodeValue = (\<lambda>_. Inl Panic), RlpDecode = (\<lambda>_. Inl Panic), AsByteSlices = (\<lambda>_. Inl Panic), DecodeUint64 = (\<lambda>_. Inl Panic),
      ParseDERSignature = (\<lambda>_. Inr (5, 6)), BruteforceRecoveryCode = (\<lambda>rs h k. if k = 7 then Some 1 else None),
      RecoverPublicKey = (\<lambda>rs v h. Inr 7), encodings = (\<lambda>_. sample_pub)\<rparr>"

definition demo_key :: "nat evm_signer" where
  "demo_key = \<lparr>SignerPublic = Some 7, SignHash = (\<lambda>h. Inr h)\<rparr>"

definition demo_tx :: evm_tx where
  "demo_tx = new_evm\<lparr>Nonce := 3, GasFeeCap := Some 7, Gas := 33, To := ''0x0a0b'', Value := Some 100, ChainId := 9\<rparr>"

definition demo_signed :: evm_tx where
  "demo_signed = demo_tx\<lparr>Signed := True, TxR := Some 5, TxS := Some 6, TxY := Some 54\<rparr>"

lemma demo_encode: "items_of vs = Some its \<Longrightarrow> rlp_encode (RList its) = bs \<Longrightarrow> length bs < 64 \<Longrightarrow> EncodeValue demo_evm vs = Inr bs"
  by (simp add: demo_evm_def reference_rlp_def)

lemma demo_facts:
  "rlp_ok demo_evm" "rlp_total demo_evm" "recovery_ok demo_evm" "wf_evm (carried demo_tx)" "wf_evm demo_signed"
  "SignWithOptions demo_evm toy_crypto demo_key demo_tx = Inr demo_signed"
  "EvmTx_MarshalBinary demo_evm demo_signed =
    Inr [0xcb, 3, 7, 0x21, 0x82, 10, 11, 0x64, 0x80, 0x36, 5, 6]"
  "EvmTx_MarshalBinary demo_evm demo_tx =
    Inr [0xcb, 3, 7, 0x21, 0x82, 10, 11, 0x64, 0x80, 9, 0x80, 0x80]"
proof -
  show "rlp_ok demo_evm" unfolding demo_evm_def by (rule reference_rlp_ok)
  show "recovery_ok demo_evm" by (simp add: recovery_ok_def demo_evm_def reference_rlp_def curve_order_def)
  show "rlp_total demo_evm"
    by (auto simp: rlp_total_def demo_evm_def reference_rlp_def intro!: no_panic_mapE split: option.splits rlp_item.splits)
  show "wf_evm (carried demo_tx)" by code_simp
  show "wf_evm demo_signed" by code_simp
  let ?vs = "RlpFields demo_tx @ [VUint (ChainId demo_tx), VInt 0, VInt 0]"
  let ?is = "map RBytes [[3], [7], [0x21], [10, 11], [0x64], [], [9], [], []]"
  have "items_of ?vs = Some ?is" by code_simp
  moreover have "rlp_encode (RList ?is) =
    [0xcb, 3, 7, 0x21, 0x82, 10, 11, 0x64, 0x80, 9, 0x80, 0x80]" by code_simp
  ultimately have "EncodeValue demo_evm ?vs =
    Inr [0xcb, 3, 7, 0x21, 0x82, 10, 11, 0x64, 0x80, 9, 0x80, 0x80]"
    by (rule demo_encode) simp
  moreover have "SignBytes demo_evm demo_tx = EncodeValue demo_evm ?vs"
    by (simp add: SignBytes_def demo_tx_def new_evm_def)
  ultimately have sb: "SignBytes demo_evm demo_tx =
    Inr [0xcb, 3, 7, 0x21, 0x82, 10, 11, 0x64, 0x80, 9, 0x80, 0x80]"
    by (rule trans [rotated])
  then show "EvmTx_MarshalBinary demo_evm demo_tx =
    Inr [0xcb, 3, 7, 0x21, 0x82, 10, 11, 0x64, 0x80, 9, 0x80, 0x80]"
    by (simp add: EvmTx_MarshalBinary_def demo_tx_def new_evm_def)
  from sb show "SignWithOptions demo_evm toy_crypto demo_key demo_tx = Inr demo_signed"
    by (simp add: SignWithOptions_def recoverable_sign_def demo_key_def demo_evm_def reference_rlp_def demo_signed_def demo_tx_def
        new_evm_def signed_v_def)
  let ?js = "map RBytes [[3], [7], [0x21], [10, 11], [0x64], [], [0x36], [5], [6]]"
  have "items_of (RlpFields demo_signed @ [VBig (Some 54), VBig (Some 5), VBig (Some 6)]) = Some ?js" by code_simp
  moreover have "rlp_encode (RList ?js) =
    [0xcb, 3, 7, 0x21, 0x82, 10, 11, 0x64, 0x80, 0x36, 5, 6]" by code_simp
  ultimately have "EncodeValue demo_evm (RlpFields demo_signed @ [VBig (Some 54), VBig (Some 5), VBig (Some 6)]) =
    Inr [0xcb, 3, 7, 0x21, 0x82, 10, 11, 0x64, 0x80, 0x36, 5, 6]"
    by (rule demo_encode) simp
  then show "EvmTx_MarshalBinary demo_evm demo_signed =
    Inr [0xcb, 3, 7, 0x21, 0x82, 10, 11, 0x64, 0x80, 0x36, 5, 6]"
    by (simp add: EvmTx_MarshalBinary_def demo_signed_def demo_tx_def new_evm_def)
qed

text \<open>
  C5: the binary form of a well-formed legacy, EIP-2930, EIP-1559 or EIP-7702 transaction, signed or
  not, with access lists and authorizations, parses back to the transaction; a legacy one comes
  back without its chain, which only reading the signature restores.
\<close>

theorem evm_binary_roundtrip:
  assumes "rlp_ok lib" "wf_evm tx" "EvmTx_MarshalBinary lib tx = Inr bs"
  shows "EvmTx_UnmarshalBinary lib new_evm bs = Inr (carried tx)"
  using assms by (rule evm_roundtrip)

theorem evm_binary_roundtrip_witness:
  "EvmTx_UnmarshalBinary demo_evm new_evm
     [0xcb, 3, 7, 0x21, 0x82, 10, 11, 0x64, 0x80, 0x36, 5, 6] =
   Inr (carried demo_signed)"
  using evm_binary_roundtrip [OF demo_facts(1,5,7)] .





text \<open>
  The binary form of an unsigned legacy transaction that names a chain parses as a signed one,
  whose \<open>v\<close> is the chain number and whose two signature numbers are zero.
\<close>

theorem unsigned_eip155_parses_signed:
  assumes "rlp_ok lib" "wf_evm (carried tx)" "TxType tx = EvmTxLegacy" "\<not> Signed tx" "ChainId tx \<noteq> 0"
    and "EvmTx_MarshalBinary lib tx = Inr bs"
  shows "EvmTx_UnmarshalBinary lib new_evm bs =
    Inr (tx\<lparr>ChainId := 0, Signed := True, TxY := Some (uint (ChainId tx)), TxR := Some 0, TxS := Some 0\<rparr>)"
proof -
  have f: "is_hex0x (To tx)" "big_ok (GasFeeCap tx)" "big_ok (Value tx)" "GasTipCap tx = None" "AccessList tx = []" "AuthList tx = []"
    using assms(2,3) by (simp_all add: wf_evm_def carried_def)
  define bss where "bss = [be_min (unat (Nonce tx)), big_bytes (GasFeeCap tx), be_min (unat (Gas tx)), hex_of (To tx),
    big_bytes (Value tx), Data tx, be_min (unat (ChainId tx)), [], []]"
  have "items_of (RlpFields tx @ [VUint (ChainId tx), VInt 0, VInt 0]) = Some (map RBytes bss)"
    using legacy_items [OF assms(3) f(1-3)] by (simp add: items_of_append bss_def)
  moreover have "EncodeValue lib (RlpFields tx @ [VUint (ChainId tx), VInt 0, VInt 0]) = Inr bs"
    using assms(3-6) by (simp add: EvmTx_MarshalBinary_def SignBytes_def)
  ultimately have "ParseTransaction lib new_evm bs = legacy_fields lib new_evm bss"
    using assms(1) by (intro legacy_items_parse)
  then show ?thesis
    using f assms(3) uint_decodes [OF assms(1)]
    by (auto simp: EvmTx_UnmarshalBinary_def legacy_fields_def bss_def new_evm_def uint_set_bytes)
qed

theorem unsigned_eip155_parses_signed_witness:
  "EvmTx_UnmarshalBinary demo_evm new_evm [0xcb, 3, 7, 0x21, 0x82, 10, 11, 0x64, 0x80, 9, 0x80, 0x80] =
    Inr (demo_tx\<lparr>ChainId := 0, Signed := True, TxY := Some (uint (ChainId demo_tx)), TxR := Some 0, TxS := Some 0\<rparr>)"
  by (rule unsigned_eip155_parses_signed [OF demo_facts(1,4) _ _ _ demo_facts(8)]) (simp_all add: demo_tx_def new_evm_def)

text \<open>
  An authorization that was signed, carried in a transaction and read back names its signer,
  whichever chain it is for.
\<close>

theorem authority_recovered:
  assumes "rlp_ok lib" "recovery_ok lib" "is_hex0x (AuthAddress a)" "SignerPublic key = Some pub"
    and "Auth_SignWithOptions lib cr key a = Inr a'"
  shows "\<exists>item. item_of (auth_rlpTuple a') = Some item \<and> parse_authorization lib item = Inr a' \<and>
    AuthorityPubkey lib cr a' = Inr pub"
proof -
  obtain buf r s v where buf: "Auth_SignBytes lib a = Inr buf"
    and sign: "recoverable_sign lib key (chash cr [Keccak256New] buf) = Inr ((r, s), v)"
    and a': "a' = a\<lparr>AuthR := Some (int r), AuthS := Some (int s), AuthY := Some (int v), AuthSigned := True\<rparr>"
    using assms(5) by (auto simp: Auth_SignWithOptions_def bindE_Inr_iff)
  note facts = recoverable_sign_facts [OF assms(2) sign]
  have "auth_ok a'" using assms(3) by (simp add: auth_ok_def a' big_ok_def)
  moreover have "Auth_SignBytes lib a' = Inr buf" using buf by (simp add: Auth_SignBytes_def a')
  moreover have "Auth_Signature a' = Inr ((r, s), v)"
    using facts(1-3) by (simp add: Auth_Signature_def a' read_scalar_small big_uint64_def word_less_nat_alt not_less unat_of_nat)
  ultimately show ?thesis
    using auth_item_of parse_auth_item [OF assms(1)] facts(4) assms(4) by (auto simp: AuthorityPubkey_def)
qed

definition demo_auth :: evm_authorization where
  "demo_auth = \<lparr>AuthChainId = 9, AuthAddress = ''0x0a0b'', AuthNonce = 2, AuthSigned = False, AuthY = None, AuthR = None, AuthS = None\<rparr>"

theorem authority_recovered_witness:
  "\<exists>a' item. Auth_SignWithOptions demo_evm toy_crypto demo_key demo_auth = Inr a' \<and>
    item_of (auth_rlpTuple a') = Some item \<and> parse_authorization demo_evm item = Inr a' \<and> AuthorityPubkey demo_evm toy_crypto a' = Inr 7"
proof -
  have "items_of [VUint (AuthChainId demo_auth), VStr (AuthAddress demo_auth), VUint (AuthNonce demo_auth)] =
    Some (map RBytes [[9], [10, 11], [2]])" by code_simp
  moreover have "rlp_encode (RList (map RBytes [[9], [10, 11], [2]])) = [0xc5, 9, 0x82, 10, 11, 2]" by code_simp
  ultimately have "EncodeValue demo_evm [VUint (AuthChainId demo_auth), VStr (AuthAddress demo_auth), VUint (AuthNonce demo_auth)] =
    Inr [0xc5, 9, 0x82, 10, 11, 2]"
    by (rule demo_encode) simp
  then have "\<exists>a'. Auth_SignWithOptions demo_evm toy_crypto demo_key demo_auth = Inr a'"
    by (simp add: Auth_SignWithOptions_def Auth_SignBytes_def recoverable_sign_def demo_key_def) (simp add: demo_evm_def reference_rlp_def)
  moreover have "is_hex0x (AuthAddress demo_auth)" by code_simp
  ultimately show ?thesis
    using authority_recovered [OF demo_facts(1,3), of demo_auth demo_key 7 toy_crypto] by (auto simp: demo_key_def)
qed

text \<open>Every EIP-4844 transaction is signed over the same bytes: the type has no fields here.\<close>

lemma eip4844_one_digest:
  "TxType tx = EvmTxEIP4844 \<Longrightarrow> TxType tx' = EvmTxEIP4844 \<Longrightarrow> SignBytes lib tx = SignBytes lib tx'"
  by (simp add: SignBytes_def RlpFields_def typeValue_def)

end
