(* ===== verification/Bech32.thy ===== *)
theory Bech32
  imports Prelude
begin

text \<open>
  The Bech32 code of \<^verbatim>\<open>cardano.go\<close>: regrouping of bits, the checksum and the text form.
  A text is a list of bytes written as characters; \<open>ToLower\<close> and \<open>ToUpper\<close> of the
  Go library act on ASCII texts byte by byte, and on other texts as the parameter \<open>uni\<close> says.
\<close>

section \<open>Letter case\<close>

record go_unicode =
  lower_text :: "string \<Rightarrow> string"
  upper_text :: "string \<Rightarrow> string"

definition is_ascii :: "string \<Rightarrow> bool" where
  "is_ascii s = list_all (\<lambda>c. of_char c < (128 :: nat)) s"

definition lower_char :: "char \<Rightarrow> char" where
  "lower_char c = (let n = of_char c :: nat in if 65 \<le> n \<and> n \<le> 90 then char_of (n + 32) else c)"

definition upper_char :: "char \<Rightarrow> char" where
  "upper_char c = (let n = of_char c :: nat in if 97 \<le> n \<and> n \<le> 122 then char_of (n - 32) else c)"

definition ToLower :: "go_unicode \<Rightarrow> string \<Rightarrow> string" where
  "ToLower uni s = (if is_ascii s then map lower_char s else lower_text uni s)"

definition ToUpper :: "go_unicode \<Rightarrow> string \<Rightarrow> string" where
  "ToUpper uni s = (if is_ascii s then map upper_char s else upper_text uni s)"

section \<open>Regrouping bits\<close>

text \<open>The inner loop: groups of \<open>toBits\<close> bits come out of the accumulator (\<open>toBits\<close> is 5 or 8).\<close>

function emit_bits :: "32 word \<Rightarrow> nat \<Rightarrow> nat \<Rightarrow> bytes \<Rightarrow> nat \<times> bytes" where
  "emit_bits acc toBits bits out =
     (if 0 < toBits \<and> bits \<ge> toBits then
        let bits = bits - toBits; maxv = ucast (push_bit toBits 1 - 1 :: 32 word) :: byte in
        emit_bits acc toBits bits (out @ [ucast (drop_bit bits acc) AND maxv])
      else (bits, out))"
  by auto
termination
  by (relation "measure (\<lambda>(_, _, bits, _). bits)") auto

declare emit_bits.simps [simp del]

definition convert_value :: "nat \<Rightarrow> nat \<Rightarrow> byte \<Rightarrow> 32 word \<times> nat \<times> bytes \<Rightarrow> (32 word \<times> nat \<times> bytes) result" where
  "convert_value fromBits toBits v st =
     (case st of (acc, bits, out) \<Rightarrow>
      let maxAcc = push_bit (fromBits + toBits - 1) 1 - 1 :: 32 word in
      if drop_bit fromBits (ucast v :: 32 word) \<noteq> 0 then fail ''invalid data value %d for %d-bit groups''
      else
        let acc = (push_bit fromBits acc OR ucast v) AND maxAcc in
        case emit_bits acc toBits (bits + fromBits) out of (bits, out) \<Rightarrow> Inr (acc, bits, out))"

fun convert_loop :: "nat \<Rightarrow> nat \<Rightarrow> bytes \<Rightarrow> 32 word \<times> nat \<times> bytes \<Rightarrow> (32 word \<times> nat \<times> bytes) result" where
  "convert_loop fromBits toBits [] st = Inr st"
| "convert_loop fromBits toBits (v # vs) st = bindE (convert_value fromBits toBits v st) (convert_loop fromBits toBits vs)"

definition cardanoConvertBits :: "bytes \<Rightarrow> nat \<Rightarrow> nat \<Rightarrow> bool \<Rightarrow> bytes result" where
  "cardanoConvertBits dat fromBits toBits pad =
     (let maxv = ucast (push_bit toBits 1 - 1 :: 32 word) :: byte in
      bindE (convert_loop fromBits toBits dat (0, 0, [])) (\<lambda>(acc, bits, out).
      let rest = ucast (push_bit (toBits - bits) acc) AND maxv in
      if pad then Inr (if bits > 0 then out @ [rest] else out)
      else if bits \<ge> fromBits \<or> rest \<noteq> 0 then fail ''invalid padding in bit conversion''
      else Inr out))"

section \<open>The checksum\<close>

definition bech32_gen :: "32 word list" where
  "bech32_gen = [0x3b6a57b2, 0x26508e6d, 0x1ea119fa, 0x3d4233dd, 0x2a1462b3]"

definition polymod_step :: "32 word \<Rightarrow> byte \<Rightarrow> 32 word" where
  "polymod_step chk v =
     (let top = drop_bit 25 chk in
      fold (\<lambda>i chk. if drop_bit i top AND 1 = 1 then chk XOR bech32_gen ! i else chk) [0, 1, 2, 3, 4]
        (push_bit 5 (chk AND 0x1ffffff) XOR ucast v))"

definition bech32Polymod :: "bytes \<Rightarrow> 32 word" where
  "bech32Polymod values = foldl polymod_step 1 values"

definition bech32HrpExpand :: "string \<Rightarrow> bytes" where
  "bech32HrpExpand hrp = map (drop_bit 5) (str_bytes hrp) @ [0] @ map (\<lambda>b. b AND 0x1f) (str_bytes hrp)"

definition bech32CreateChecksum :: "string \<Rightarrow> bytes \<Rightarrow> bytes" where
  "bech32CreateChecksum hrp dat =
     (let polymod = bech32Polymod (bech32HrpExpand hrp @ dat @ [0, 0, 0, 0, 0, 0]) XOR 1 in
      map (\<lambda>i. ucast (drop_bit (5 * (5 - i)) polymod) AND 0x1f) [0, 1, 2, 3, 4, 5])"

section \<open>The text form\<close>

definition bech32Charset :: string where
  "bech32Charset = ''qpzry9x8gf2tvdw0s3jn54khce6mua7l''"

definition bech32Encode :: "string \<Rightarrow> bytes \<Rightarrow> string result" where
  "bech32Encode hrp dat =
     bindE (mapE (\<lambda>b. idx bech32Charset (unat b)) (dat @ bech32CreateChecksum hrp dat)) (\<lambda>cs.
     Inr (hrp @ ''1'' @ cs))"

definition charset_value :: "char \<Rightarrow> byte result" where
  "charset_value c =
     (case index_byte c bech32Charset of None \<Rightarrow> fail ''invalid bech32 character %q'' | Some i \<Rightarrow> Inr (word_of_nat i))"

definition bech32Decode :: "go_unicode \<Rightarrow> string \<Rightarrow> (string \<times> bytes) result" where
  "bech32Decode uni s =
     (let lower = ToLower uni s; upper = ToUpper uni s in
      if s \<noteq> lower \<and> s \<noteq> upper then fail ''bech32 string must not be mixed-case''
      else
        let s = lower in
        case last_index_byte (CHR ''1'') s of
          None \<Rightarrow> fail ''invalid bech32 separator position''
        | Some pos \<Rightarrow>
            if pos < 1 \<or> pos + 7 > length s then fail ''invalid bech32 separator position''
            else
              bindE (slice_to s pos) (\<lambda>hrp.
              bindE (mapE charset_value (drop (pos + 1) s)) (\<lambda>dat.
              if bech32Polymod (bech32HrpExpand hrp @ dat) \<noteq> 1 then fail ''invalid bech32 checksum''
              else bindE (slice_to dat (length dat - 6)) (\<lambda>body. Inr (hrp, body)))))"

section \<open>The regrouped number\<close>

text \<open>The number a list of \<open>w\<close>-bit groups spells.\<close>

definition groups_val :: "nat \<Rightarrow> bytes \<Rightarrow> nat" where
  "groups_val w xs = foldl (\<lambda>a b. a * 2 ^ w + unat b) 0 xs"

lemma groups_val_simps [simp]: "groups_val w [] = 0" "groups_val w (xs @ [b]) = groups_val w xs * 2 ^ w + unat b"
  by (simp_all add: groups_val_def)

definition groups_ok :: "nat \<Rightarrow> bytes \<Rightarrow> bool" where
  "groups_ok w xs \<longleftrightarrow> list_all (\<lambda>b. unat b < 2 ^ w) xs"

lemma groups_ok_simps [simp]: "groups_ok w []" "groups_ok w (xs @ ys) \<longleftrightarrow> groups_ok w xs \<and> groups_ok w ys"
    "groups_ok w (b # xs) \<longleftrightarrow> unat b < 2 ^ w \<and> groups_ok w xs"
  by (simp_all add: groups_ok_def)

lemma groups_val_inj:
  "length xs = length ys \<Longrightarrow> groups_ok w xs \<Longrightarrow> groups_ok w ys \<Longrightarrow> groups_val w xs = groups_val w ys \<Longrightarrow> xs = ys"
proof (induction xs arbitrary: ys rule: rev_induct)
  case (snoc x xs)
  then obtain zs z where ys: "ys = zs @ [z]" by (cases ys rule: rev_cases) auto
  with snoc.prems have eq: "groups_val w xs * 2 ^ w + unat x = groups_val w zs * 2 ^ w + unat z"
    and small: "unat x < 2 ^ w" "unat z < 2 ^ w" by auto
  from arg_cong [OF eq, of "\<lambda>n. n mod 2 ^ w"] small have "unat x = unat z" by simp
  moreover from arg_cong [OF eq, of "\<lambda>n. n div 2 ^ w"] small have "groups_val w xs = groups_val w zs" by simp
  ultimately show ?case using snoc ys by (auto simp: word_unat_eq_iff [where 'a = 8])
qed simp

lemma low_mask: "push_bit k 1 - 1 = (mask k :: 32 word)" "k \<le> 8 \<Longrightarrow> ucast (mask k :: 32 word) = (mask k :: byte)"
proof -
  show "push_bit k 1 - 1 = (mask k :: 32 word)" by (simp add: mask_eq_exp_minus_1 push_bit_eq_mult)
  show "k \<le> 8 \<Longrightarrow> ucast (mask k :: 32 word) = (mask k :: byte)"
    by (rule bit_word_eqI) (auto simp: bit_simps)
qed

lemma unat_low_bits:
  assumes "k \<le> 8"
  shows "unat (ucast (x :: 32 word) AND ucast (push_bit k 1 - 1 :: 32 word) :: byte) = unat x mod 2 ^ k"
proof -
  have "(ucast x AND mask k :: byte) = ucast (take_bit k x)"
    using assms by (intro bit_word_eqI) (auto simp: bit_simps)
  moreover have "unat (ucast (take_bit k x) :: byte) = unat (take_bit k x)"
    using assms by (simp add: unsigned_ucast_eq unsigned_take_bit_eq min_def)
  ultimately show ?thesis
    unfolding low_mask(1) low_mask(2) [OF assms] by (simp only: unsigned_take_bit_eq) (simp add: take_bit_eq_mod)
qed

text \<open>The accumulator after a value is shifted in.\<close>

lemma unat_shift_in:
  assumes "f + t - 1 \<le> 31" "unat v < 2 ^ f" "1 \<le> t" 
  shows "unat ((push_bit f acc OR ucast (v :: byte)) AND (push_bit (f + t - 1) 1 - 1) :: 32 word) =
    (unat acc * 2 ^ f + unat v) mod 2 ^ (f + t - 1)"
proof -
  have "push_bit f acc AND ucast v = 0"
  proof -
    have "take_bit f v = v" using assms(2) by (simp add: word_unat_eq_iff unsigned_take_bit_eq take_bit_nat_eq_self)
    then have "bit v n \<Longrightarrow> n < f" for n by (metis bit_take_bit_iff)
    then show ?thesis by (intro bit_word_eqI) (force simp: bit_simps)
  qed
  then have "push_bit f acc OR ucast v = push_bit f acc + ucast v"
    by (simp add: disjunctive_add_eq_or)
  also have "\<dots> = word_of_nat (unat acc * 2 ^ f + unat v)"
    by (simp add: push_bit_eq_mult unsigned_ucast_eq [symmetric])
  finally have sum: "push_bit f acc OR ucast v = (word_of_nat (unat acc * 2 ^ f + unat v) :: 32 word)" .
  have "(2 :: nat) ^ (f + t - 1) dvd 2 ^ LENGTH(32)"
    using assms(1) by (intro le_imp_power_dvd) simp
  from mod_mod_cancel [OF this] have "unat (take_bit (f + t - 1) (word_of_nat m :: 32 word)) = m mod 2 ^ (f + t - 1)" for m
    by (simp only: unsigned_take_bit_eq unat_of_nat) (simp only: take_bit_eq_mod)
  then show ?thesis
    unfolding sum low_mask(1) by (simp only: take_bit_eq_mask [symmetric])
qed

lemma unat_ucast_byte: "unat (ucast (v :: byte) :: 32 word) = unat v"
proof -
  have "unat v < 4294967296" using unat_byte_less [of v] by linarith
  then show ?thesis by (simp add: unsigned_ucast_eq take_bit_nat_eq_self)
qed

lemma drop_value: "drop_bit f (ucast (v :: byte) :: 32 word) = 0 \<longleftrightarrow> unat v < 2 ^ f"
  by (simp only: word_unat_eq_iff unat_drop_bit unat_ucast_byte unsigned_0) (simp add: div_eq_0_iff)

lemma emit_bits_spec:
  assumes "1 \<le> t" "t \<le> 8" "groups_ok t out"
  shows "case emit_bits acc t bits out of (b, out') \<Rightarrow>
    b < t \<and> t * length out' + b = t * length out + bits \<and> groups_ok t out' \<and>
    groups_val t out' * 2 ^ b + unat acc mod 2 ^ b = groups_val t out * 2 ^ bits + unat acc mod 2 ^ bits"
  using assms(3)
proof (induction bits arbitrary: out rule: less_induct)
  case (less bits)
  show ?case
  proof (cases "bits \<ge> t")
    case False
    then show ?thesis using less.prems by (subst emit_bits.simps) simp
  next
    case True
    define b where "b = bits - t"
    then have bits: "bits = b + t" and less': "b < bits" using True assms(1) by auto
    define x where "x = (ucast (drop_bit b acc) AND ucast (push_bit t 1 - 1 :: 32 word) :: byte)"
    have x: "unat x = unat acc div 2 ^ b mod 2 ^ t"
      unfolding x_def unat_low_bits [OF assms(2)] unat_drop_bit ..
    have split: "unat acc mod 2 ^ bits = unat x * 2 ^ b + unat acc mod 2 ^ b"
      unfolding bits x power_add by (simp add: mod_mult2_eq mult.commute)
    have step: "emit_bits acc t bits out = emit_bits acc t b (out @ [x])"
      using True assms(1) by (subst emit_bits.simps) (simp add: b_def x_def Let_def)
    have "groups_ok t (out @ [x])" using less.prems x by simp
    from less.IH [OF less' this] show ?thesis
      unfolding step split by (auto simp: bits power_add algebra_simps)
  qed
qed

text \<open>The state of the loop: what came out and the bits still in the accumulator spell the input.\<close>

definition converts :: "nat \<Rightarrow> nat \<Rightarrow> bytes \<Rightarrow> 32 word \<times> nat \<times> bytes \<Rightarrow> bool" where
  "converts f t dat st \<longleftrightarrow>
     (case st of (acc, b, out) \<Rightarrow>
        b < t \<and> t * length out + b = f * length dat \<and> groups_ok f dat \<and> groups_ok t out \<and>
        groups_val f dat = groups_val t out * 2 ^ b + unat acc mod 2 ^ b)"

lemma convert_value_step:
  assumes "1 \<le> t" "t \<le> 8" "1 \<le> f" "f \<le> 8" "converts f t dat st"
  shows "if unat v < 2 ^ f then \<exists>st'. convert_value f t v st = Inr st' \<and> converts f t (dat @ [v]) st'
    else convert_value f t v st = fail ''invalid data value %d for %d-bit groups''"
proof (cases "unat v < 2 ^ f")
  case False
  then have "drop_bit f (ucast v :: 32 word) \<noteq> 0"
    using drop_value by blast
  with False show ?thesis by (simp add: convert_value_def split: prod.splits)
next
  case True
  obtain acc b out where st: "st = (acc, b, out)" by (cases st)
  then have inv: "b < t" "t * length out + b = f * length dat" "groups_ok f dat" "groups_ok t out"
    "groups_val f dat = groups_val t out * 2 ^ b + unat acc mod 2 ^ b"
    using assms(5) by (auto simp: converts_def)
  define acc' where "acc' = ((push_bit f acc OR ucast v) AND (push_bit (f + t - 1) 1 - 1) :: 32 word)"
  have "unat acc' = (unat acc * 2 ^ f + unat v) mod 2 ^ (f + t - 1)"
    unfolding acc'_def using assms True by (intro unat_shift_in) auto
  moreover have "(2 :: nat) ^ (b + f) dvd 2 ^ (f + t - 1)"
    using inv(1) by (intro le_imp_power_dvd) simp
  ultimately have "unat acc' mod 2 ^ (b + f) = (unat acc * 2 ^ f + unat v) mod 2 ^ (b + f)"
    by (simp add: mod_mod_cancel)
  also have "\<dots> = (unat acc mod 2 ^ b) * 2 ^ f + unat v"
  proof -
    have e: "(2 :: nat) ^ (b + f) = 2 ^ f * 2 ^ b" by (simp add: power_add)
    show ?thesis unfolding e mod_mult2_eq using True by simp
  qed
  finally have acc': "unat acc' mod 2 ^ (b + f) = (unat acc mod 2 ^ b) * 2 ^ f + unat v" .
  have "drop_bit f (ucast v :: 32 word) = 0"
    using True drop_value by blast
  then have "convert_value f t v st = (case emit_bits acc' t (b + f) out of (b, out) \<Rightarrow> Inr (acc', b, out))"
    by (simp add: convert_value_def st acc'_def Let_def)
  moreover have "case emit_bits acc' t (b + f) out of (b', out') \<Rightarrow> converts f t (dat @ [v]) (acc', b', out')"
    using emit_bits_spec [OF assms(1,2) inv(4), where acc = acc' and bits = "b + f"] inv True
    by (auto simp: converts_def acc' [unfolded power_add] power_add algebra_simps split: prod.splits)
  ultimately show ?thesis using True by (auto split: prod.splits)
qed

lemma convert_loop_step:
  assumes "1 \<le> t" "t \<le> 8" "1 \<le> f" "f \<le> 8" "converts f t dat st"
  shows "if groups_ok f vs then \<exists>st'. convert_loop f t vs st = Inr st' \<and> converts f t (dat @ vs) st'
    else convert_loop f t vs st = fail ''invalid data value %d for %d-bit groups''"
  using assms(5)
proof (induction vs arbitrary: dat st)
  case (Cons v vs)
  note step = convert_value_step [OF assms(1-4) Cons.prems, of v]
  show ?case
  proof (cases "unat v < 2 ^ f")
    case True
    with step obtain st' where st': "convert_value f t v st = Inr st'" "converts f t (dat @ [v]) st'" by auto
    from Cons.IH [OF st'(2)] True st'(1) show ?thesis by (auto split: if_splits)
  qed (use step in simp)
qed simp

lemma converts_start: "1 \<le> t \<Longrightarrow> converts f t [] (0, 0, [])"
  by (simp add: converts_def)

text \<open>The padding bits below the last group.\<close>

lemma unat_rest:
  assumes "t \<le> 8" "b < t"
  shows "unat (ucast (push_bit (t - b) acc :: 32 word) AND ucast (push_bit t 1 - 1 :: 32 word) :: byte) = unat acc mod 2 ^ b * 2 ^ (t - b)"
proof -
  have "(2 :: nat) ^ t dvd 2 ^ LENGTH(32)" using assms(1) by (intro le_imp_power_dvd) simp
  moreover have "unat (push_bit (t - b) acc) = (unat acc * 2 ^ (t - b)) mod 2 ^ LENGTH(32)"
    by (simp only: unsigned_push_bit_eq) (simp add: push_bit_eq_mult take_bit_eq_mod)
  ultimately have "unat (push_bit (t - b) acc) mod 2 ^ t = (unat acc * 2 ^ (t - b)) mod 2 ^ t"
    by (simp only: mod_mod_cancel)
  moreover have "(2 :: nat) ^ t = 2 ^ b * 2 ^ (t - b)" using assms(2) by (simp flip: power_add)
  ultimately show ?thesis
    unfolding unat_low_bits [OF assms(1)] by (metis mult_mod_left)
qed

text \<open>Converting with padding always succeeds on groups of the right width; the result spells the input, shifted.\<close>

lemma convert_pad:
  assumes "1 \<le> t" "t \<le> 8" "1 \<le> f" "f \<le> 8" "groups_ok f dat"
  obtains out p where "cardanoConvertBits dat f t True = Inr out" "p < t" "t * length out = f * length dat + p"
    "groups_ok t out" "groups_val t out = groups_val f dat * 2 ^ p"
proof -
  obtain acc b out where st: "convert_loop f t dat (0, 0, []) = Inr (acc, b, out)" and inv: "converts f t dat (acc, b, out)"
    using convert_loop_step [OF assms(1-4) converts_start [OF assms(1)], of dat] assms(5) by auto
  note i = inv [unfolded converts_def prod.case]
  define x where "x = (ucast (push_bit (t - b) acc) AND ucast (push_bit t 1 - 1 :: 32 word) :: byte)"
  have x: "unat x = unat acc mod 2 ^ b * 2 ^ (t - b)" unfolding x_def using assms(2) i by (intro unat_rest) simp_all
  have conv: "cardanoConvertBits dat f t True = Inr (if b > 0 then out @ [x] else out)"
    by (simp add: cardanoConvertBits_def st x_def)
  show ?thesis
  proof (cases "b > 0")
    case False
    with conv i show ?thesis by (intro that [of out 0]) auto
  next
    case True
    have t: "(2 :: nat) ^ t = 2 ^ b * 2 ^ (t - b)" using i by (simp flip: power_add)
    have "unat acc mod 2 ^ b < 2 ^ b" by simp
    then have "unat x < 2 ^ t" unfolding x t by simp
    obtain c where c: "t = b + c" using i by (auto dest: less_imp_add_positive)
    have "t * length (out @ [x]) = f * length dat + (t - b)"
      using i c by (simp add: algebra_simps)
    with \<open>unat x < 2 ^ t\<close> conv True i show ?thesis
      by (intro that [of "out @ [x]" "t - b"]) (simp_all add: x t algebra_simps)
  qed
qed

text \<open>Converting without padding succeeds exactly when the bits left over are fewer than a group and zero.\<close>

lemma convert_no_pad_iff:
  assumes "1 \<le> t" "t \<le> 8" "1 \<le> f" "f \<le> 8"
  shows "cardanoConvertBits dat f t False = Inr out \<longleftrightarrow>
    groups_ok f dat \<and> groups_ok t out \<and> (\<exists>b. b < f \<and> b < t \<and> f * length dat = t * length out + b \<and>
      groups_val f dat = groups_val t out * 2 ^ b)"
proof (cases "groups_ok f dat")
  case False
  with convert_loop_step [OF assms converts_start [OF assms(1)], of dat] show ?thesis
    by (simp add: cardanoConvertBits_def)
next
  case True
  obtain acc b o' where st: "convert_loop f t dat (0, 0, []) = Inr (acc, b, o')" and inv: "converts f t dat (acc, b, o')"
    using convert_loop_step [OF assms converts_start [OF assms(1)], of dat] True by auto
  note i = inv [unfolded converts_def prod.case]
  have zero: "(ucast (push_bit (t - b) acc) AND ucast (push_bit t 1 - 1 :: 32 word) :: byte) = 0 \<longleftrightarrow> unat acc mod 2 ^ b = 0"
    using unat_rest [of t b acc] assms(2) i by (simp only: word_unat_eq_iff [where 'a = 8]) simp
  have "cardanoConvertBits dat f t False = Inr out \<longleftrightarrow> b < f \<and> unat acc mod 2 ^ b = 0 \<and> o' = out"
    using zero by (simp add: cardanoConvertBits_def st not_le)
  also have "\<dots> \<longleftrightarrow> groups_ok t out \<and> (\<exists>b. b < f \<and> b < t \<and> f * length dat = t * length out + b \<and>
      groups_val f dat = groups_val t out * 2 ^ b)"
  proof (intro iffI)
    assume "groups_ok t out \<and> (\<exists>b. b < f \<and> b < t \<and> f * length dat = t * length out + b \<and>
      groups_val f dat = groups_val t out * 2 ^ b)"
    then obtain c where c: "groups_ok t out" "c < f" "c < t" "f * length dat = t * length out + c"
      "groups_val f dat = groups_val t out * 2 ^ c" by auto
    have len: "t * length out + c = t * length o' + b" using c(4) i by simp
    have "(t * x + y) mod t = y" if "y < t" for x y using that by simp
    then have "c = (t * length out + c) mod t" "b = (t * length o' + b) mod t" using c(3) i by metis+
    with len have cb: "c = b" by presburger
    with len assms(1) have same: "length out = length o'" by simp
    have val: "groups_val t out * 2 ^ b = groups_val t o' * 2 ^ b + unat acc mod 2 ^ b"
      using c(5) i cb by simp
    from arg_cong [OF val, of "\<lambda>n. n mod 2 ^ b"] have low: "unat acc mod 2 ^ b = 0" by simp
    with val have "groups_val t out = groups_val t o'" by simp
    with same c(1) i have "out = o'" by (intro groups_val_inj [of _ _ t]) simp_all
    with c(2) cb low show "b < f \<and> unat acc mod 2 ^ b = 0 \<and> o' = out" by simp
  qed (use i in auto)
  finally show ?thesis using True by simp
qed

lemma groups_ok_bytes [simp]: "groups_ok 8 xs"
  by (simp add: groups_ok_def list_all_iff)

lemma bits_roundtrip:
  assumes "cardanoConvertBits dat 8 5 True = Inr out"
  shows "cardanoConvertBits out 5 8 False = Inr dat" "groups_ok 5 out"
proof -
  obtain p where "p < 5" "5 * length out = 8 * length dat + p" "groups_ok 5 out" "groups_val 5 out = groups_val 8 dat * 2 ^ p"
    by (rule convert_pad [of 5 8 dat]) (use assms in auto)
  then show "cardanoConvertBits out 5 8 False = Inr dat" "groups_ok 5 out"
    by (simp_all add: convert_no_pad_iff)
qed

lemma bits_canonical:
  assumes "cardanoConvertBits dat 5 8 False = Inr out"
  shows "cardanoConvertBits out 8 5 True = Inr dat" "groups_ok 5 dat"
proof -
  from assms obtain b where b: "groups_ok 5 dat" "b < 5" "5 * length dat = 8 * length out + b" "groups_val 5 dat = groups_val 8 out * 2 ^ b"
    by (auto simp: convert_no_pad_iff)
  obtain o' p where o': "cardanoConvertBits out 8 5 True = Inr o'" "p < 5" "5 * length o' = 8 * length out + p" "groups_ok 5 o'"
    "groups_val 5 o' = groups_val 8 out * 2 ^ p"
    by (rule convert_pad [of 5 8 out]) auto
  have "p + 5 * length dat = b + 5 * length o'" using b(3) o'(3) by simp
  from arg_cong [OF this, of "\<lambda>n. n mod 5"] have "p = b" using b(2) o'(2) by simp
  with b o' have "o' = dat" by (intro groups_val_inj [of _ _ 5]) simp_all
  with o'(1) b(1) show "cardanoConvertBits out 8 5 True = Inr dat" "groups_ok 5 dat" by simp_all
qed

lemma convert_8_5_total: "\<exists>out. cardanoConvertBits dat 8 5 True = Inr out"
proof -
  obtain out p where "cardanoConvertBits dat 8 5 True = Inr out" "p < (5 :: nat)"
    by (rule convert_pad [of 5 8 dat]) simp_all
  then show ?thesis by blast
qed

section \<open>The checksum is linear\<close>

definition feed :: "32 word \<Rightarrow> 32 word" where
  "feed chk =
     (if bit chk 25 then 0x3b6a57b2 else 0) XOR (if bit chk 26 then 0x26508e6d else 0) XOR (if bit chk 27 then 0x1ea119fa else 0) XOR
     (if bit chk 28 then 0x3d4233dd else 0) XOR (if bit chk 29 then 0x2a1462b3 else 0)"

lemma and_one_bit: "drop_bit i (w :: 32 word) AND 1 = 1 \<longleftrightarrow> bit w i"
  by (simp add: and_one_eq bit_iff_odd_drop_bit odd_iff_mod_2_eq_one)

lemma polymod_step_feed: "polymod_step chk v = push_bit 5 (take_bit 25 chk) XOR ucast v XOR feed chk"
proof -
  have "chk AND 0x1ffffff = take_bit 25 chk" by (simp add: take_bit_eq_mask mask_eq_exp_minus_1)
  moreover have "(if b then x XOR g else x) = x XOR (if b then g else 0)" for b and x g :: "32 word" by simp
  ultimately show ?thesis
    by (simp add: polymod_step_def Let_def bech32_gen_def feed_def and_one_bit bit_drop_bit_eq xor.assoc numeral_eq_Suc)
qed

lemma feed_xor: "feed (a XOR b) = feed a XOR feed b"
proof -
  have "(if p \<noteq> q then g else 0) = (if p then g else 0) XOR (if q then g else 0 :: 32 word)" for p q g by simp
  then show ?thesis by (simp only: feed_def bit_xor_iff ac_simps)
qed

lemma feed_small: "take_bit 25 chk = chk \<Longrightarrow> feed chk = 0"
proof -
  assume small: "take_bit 25 chk = chk"
  have "\<not> bit chk (25 + n)" for n by (subst small [symmetric]) (simp add: bit_take_bit_iff)
  from this [of 0] this [of 1] this [of 2] this [of 3] this [of 4] show ?thesis by (simp add: feed_def)
qed

lemma polymod_step_xor: "polymod_step (a XOR b) (v XOR w) = polymod_step a v XOR polymod_step b w"
proof -
  have "push_bit 5 (take_bit 25 (a XOR b)) = push_bit 5 (take_bit 25 a) XOR push_bit 5 (take_bit 25 b)"
    by (rule bit_word_eqI) (auto simp: bit_simps)
  moreover have "(ucast (v XOR w) :: 32 word) = ucast v XOR ucast w"
    by (rule bit_word_eqI) (auto simp: bit_simps)
  ultimately show ?thesis by (simp only: polymod_step_feed feed_xor ac_simps)
qed

definition polymod_from :: "32 word \<Rightarrow> bytes \<Rightarrow> 32 word" where
  "polymod_from s xs = foldl polymod_step s xs"

lemma polymod_from_simps [simp]:
  "polymod_from s [] = s" "polymod_from s (x # xs) = polymod_from (polymod_step s x) xs"
  "polymod_from s (xs @ ys) = polymod_from (polymod_from s xs) ys"
  by (simp_all add: polymod_from_def)

lemma bech32Polymod_from: "bech32Polymod xs = polymod_from 1 xs"
  by (simp add: bech32Polymod_def polymod_from_def)

lemma polymod_from_xor:
  "length xs = length ys \<Longrightarrow> polymod_from (a XOR b) (map2 (XOR) xs ys) = polymod_from a xs XOR polymod_from b ys"
  by (induction xs ys arbitrary: a b rule: list_induct2) (simp_all add: polymod_step_xor)

lemma map2_xor_zeros: "map2 (XOR) (replicate (length xs) 0) xs = (xs :: bytes)" "map2 (XOR) xs (replicate (length xs) 0) = xs"
  by (induction xs) simp_all

lemma polymod_from_split: "polymod_from s xs = polymod_from s (replicate (length xs) 0) XOR polymod_from 0 xs"
  using polymod_from_xor [of "replicate (length xs) 0" xs s 0] by (simp add: map2_xor_zeros)

lemma polymod_step_0 [simp]: "polymod_step 0 0 = 0"
  by (simp add: polymod_step_feed feed_def)

lemma polymod_from_zeros [simp]: "polymod_from 0 (replicate n 0) = 0"
  by (induction n) simp_all

text \<open>The state stays below \<open>2 ^ 30\<close>.\<close>

lemma take_bit_xor_32: "take_bit n (a XOR b) = take_bit n a XOR take_bit n (b :: 32 word)"
  by (rule bit_word_eqI) (auto simp: bit_simps)

lemma feed_30: "take_bit 30 (feed chk) = feed chk"
proof -
  have "take_bit 30 (if b then g else 0) = (if b then g else 0)" if "take_bit 30 g = g" for b and g :: "32 word"
    using that by simp
  then show ?thesis by (simp add: feed_def take_bit_xor_32)
qed

lemma polymod_step_30: "take_bit 30 (polymod_step chk v) = polymod_step chk v"
proof -
  have "take_bit 30 (push_bit 5 (take_bit 25 chk)) = push_bit 5 (take_bit 25 chk)"
    by (rule bit_word_eqI) (auto simp: bit_simps)
  moreover have "take_bit 30 (ucast v :: 32 word) = ucast v"
    by (rule bit_word_eqI) (auto simp: bit_simps dest: bit_imp_le_length)
  ultimately show ?thesis by (simp only: polymod_step_feed take_bit_xor_32 feed_30)
qed

lemma polymod_from_30: "take_bit 30 s = s \<Longrightarrow> take_bit 30 (polymod_from s xs) = polymod_from s xs"
  by (induction xs arbitrary: s) (simp_all add: polymod_step_30 polymod_step_30 [THEN trans])

text \<open>Six groups of five bits go into the empty state unchanged.\<close>

lemma groups_val_less: "groups_ok w xs \<Longrightarrow> groups_val w xs < 2 ^ (w * length xs)"
proof (induction xs rule: rev_induct)
  case (snoc x xs)
  then have "groups_val w xs + 1 \<le> 2 ^ (w * length xs)" "unat x < 2 ^ w" by simp_all
  from mult_le_mono1 [OF this(1), of "2 ^ w"] this(2) show ?case
    by (simp add: power_add algebra_simps)
qed simp

lemma polymod_step_small:
  assumes "unat s < 2 ^ 25" "unat v < 2 ^ 5"
  shows "unat (polymod_step s v) = unat s * 2 ^ 5 + unat v"
proof -
  have s: "take_bit 25 s = s"
    using assms(1) by (simp only: word_unat_eq_iff unsigned_take_bit_eq) (simp add: take_bit_nat_eq_self)
  have v: "take_bit 5 v = v"
    using assms(2) by (simp only: word_unat_eq_iff unsigned_take_bit_eq) (simp add: take_bit_nat_eq_self)
  have "push_bit 5 s AND ucast v = 0"
  proof -
    have "bit v n \<Longrightarrow> n < 5" for n using v by (metis bit_take_bit_iff)
    then show ?thesis by (intro bit_word_eqI) (force simp: bit_simps)
  qed
  then have "polymod_step s v = push_bit 5 s + ucast v"
    by (simp add: polymod_step_feed s feed_small disjunctive_add_eq_xor)
  moreover have "push_bit 5 s + ucast v = word_of_nat (unat s * 2 ^ 5 + unat v)"
    by (simp add: push_bit_eq_mult unsigned_ucast_eq [symmetric])
  ultimately have "unat (polymod_step s v) = (unat s * 2 ^ 5 + unat v) mod 2 ^ LENGTH(32)"
    by (simp only: unat_of_nat)
  with assms show ?thesis by simp
qed

lemma polymod_packs: "groups_ok 5 c \<Longrightarrow> length c \<le> 6 \<Longrightarrow> unat (polymod_from 0 c) = groups_val 5 c"
proof (induction c rule: rev_induct)
  case (snoc v c)
  then have ok: "groups_ok 5 c" "unat v < 2 ^ 5" and len: "length c \<le> 5" by simp_all
  have "groups_val 5 c < 2 ^ (5 * length c)" by (rule groups_val_less [OF ok(1)])
  also have "(2 :: nat) ^ (5 * length c) \<le> 2 ^ 25" using len by (intro power_increasing) simp_all
  finally have "groups_val 5 c < 2 ^ 25" .
  with snoc.IH [OF ok(1)] len have "unat (polymod_from 0 c) < 2 ^ 25" "unat (polymod_from 0 c) = groups_val 5 c" by simp_all
  with polymod_step_small [of "polymod_from 0 c" v] ok(2) show ?case by simp
qed simp

lemma checksum_groups: "length (bech32CreateChecksum hrp dat) = 6" "groups_ok 5 (bech32CreateChecksum hrp dat)"
proof -
  have "unat (ucast x AND 0x1f :: byte) < 2 ^ 5" for x :: "32 word"
    using unat_low_bits [of 5 x] by (simp add: push_bit_eq_mult)
  then show "groups_ok 5 (bech32CreateChecksum hrp dat)" by (simp add: bech32CreateChecksum_def Let_def)
qed (simp add: bech32CreateChecksum_def)

text \<open>The checksum packs to the residue it was made from.\<close>

lemma split_group: "m mod 2 ^ (5 * Suc k) = m div 2 ^ (5 * k) mod 32 * 2 ^ (5 * k) + m mod 2 ^ (5 * k)" for m :: nat
proof -
  have "(2 :: nat) ^ (5 * Suc k) = 2 ^ (5 * k) * 32" by (simp add: power_add)
  then show ?thesis by (simp add: mod_mult2_eq)
qed

lemma checksum_packs:
  assumes "take_bit 30 q = (q :: 32 word)"
  shows "groups_val 5 (map (\<lambda>i. ucast (drop_bit (5 * (5 - i)) q) AND 0x1f) [0, 1, 2, 3, 4, 5]) = unat q"
proof -
  have "(ucast (push_bit 5 1 - 1 :: 32 word) :: byte) = 0x1f" by (simp add: push_bit_eq_mult)
  then have u: "unat (ucast (drop_bit k q) AND 0x1f :: byte) = unat q div 2 ^ k mod 32" for k
    using unat_low_bits [of 5 "drop_bit k q"] by (simp add: unat_drop_bit)
  have "unat q = take_bit 30 (unat q)"
    using assms unsigned_take_bit_eq [of 30 q] by simp
  then have q: "unat q mod 2 ^ (5 * Suc 5) = unat q" by (simp add: take_bit_eq_mod)
  have "groups_val 5 [a, b, c, d, e, f] =
      unat a * 2 ^ 25 + unat b * 2 ^ 20 + unat c * 2 ^ 15 + unat d * 2 ^ 10 + unat e * 2 ^ 5 + unat f" for a b c d e f
    by (simp add: groups_val_def)
  then have spelled: "groups_val 5 (map (\<lambda>i. ucast (drop_bit (5 * (5 - i)) q) AND 0x1f) [0, 1, 2, 3, 4, 5]) =
      unat q div 2 ^ 25 mod 32 * 2 ^ 25 + unat q div 2 ^ 20 mod 32 * 2 ^ 20 + unat q div 2 ^ 15 mod 32 * 2 ^ 15 +
      unat q div 2 ^ 10 mod 32 * 2 ^ 10 + unat q div 2 ^ 5 mod 32 * 2 ^ 5 + unat q mod 32"
    using u [of 0] by (simp add: u)
  note groups = split_group [of "unat q" 5] split_group [of "unat q" 4] split_group [of "unat q" 3] split_group [of "unat q" 2]
    split_group [of "unat q" 1] split_group [of "unat q" 0]
  have "unat q mod 2 ^ (5 * Suc 5) = unat q div 2 ^ 25 mod 32 * 2 ^ 25 + unat q div 2 ^ 20 mod 32 * 2 ^ 20 + unat q div 2 ^ 15 mod 32 * 2 ^ 15 +
      unat q div 2 ^ 10 mod 32 * 2 ^ 10 + unat q div 2 ^ 5 mod 32 * 2 ^ 5 + unat q mod 32"
    using groups by simp
  then show ?thesis unfolding spelled q by (rule sym)
qed

lemma xor_swap: "a XOR b = c \<longleftrightarrow> b = a XOR (c :: 32 word)"
proof -
  have "a XOR (a XOR x) = x" for x by (simp flip: xor.assoc)
  then show ?thesis by metis
qed

lemma checksum_unique:
  assumes "length c = 6" "groups_ok 5 c"
  shows "bech32Polymod (bech32HrpExpand hrp @ dat @ c) = 1 \<longleftrightarrow> c = bech32CreateChecksum hrp dat"
proof -
  define s where "s = polymod_from 1 (bech32HrpExpand hrp @ dat)"
  define m where "m = polymod_from s (replicate 6 0)"
  have zeros: "[0, 0, 0, 0, 0, 0] = replicate 6 (0 :: byte)" by (simp add: numeral_eq_Suc)
  have m: "bech32Polymod (bech32HrpExpand hrp @ dat @ [0, 0, 0, 0, 0, 0]) = m"
    unfolding zeros by (simp add: bech32Polymod_from s_def m_def)
  have "take_bit 30 (1 :: 32 word) = 1" by simp
  from polymod_from_30 [OF this] have "take_bit 30 m = m" by (simp add: m_def s_def flip: polymod_from_simps(3))
  then have q: "take_bit 30 (m XOR 1) = m XOR 1" by (simp only: take_bit_xor_32) simp
  let ?d = "bech32CreateChecksum hrp dat"
  have packs: "groups_val 5 ?d = unat (m XOR 1)"
    unfolding bech32CreateChecksum_def m Let_def by (rule checksum_packs [OF q])
  have "bech32Polymod (bech32HrpExpand hrp @ dat @ c) = m XOR polymod_from 0 c"
    using polymod_from_split [of s c] assms(1) by (simp add: bech32Polymod_from s_def m_def)
  also have "m XOR polymod_from 0 c = 1 \<longleftrightarrow> polymod_from 0 c = m XOR 1"
    by (rule xor_swap)
  also have "\<dots> \<longleftrightarrow> groups_val 5 c = groups_val 5 ?d"
    using polymod_packs [of c] assms packs by (simp add: word_unat_eq_iff)
  also have "\<dots> \<longleftrightarrow> c = ?d"
    using groups_val_inj [of c ?d 5] assms checksum_groups [of hrp dat] by auto
  finally show ?thesis .
qed

section \<open>The text form reads back\<close>

lemma charset_values: "i < 32 \<Longrightarrow> charset_value (bech32Charset ! i) = Inr (word_of_nat i)"
proof -
  have "list_all (\<lambda>i. charset_value (bech32Charset ! i) = Inr (word_of_nat i)) [0..<32]" by code_simp
  then show "i < 32 \<Longrightarrow> ?thesis" by (simp add: list_all_iff)
qed

lemma length_charset: "length bech32Charset = 32"
  by (simp add: bech32Charset_def)

lemma charset_value_Inr: "charset_value c = Inr b \<Longrightarrow> unat b < 32 \<and> bech32Charset ! unat b = c"
proof (cases "index_byte c bech32Charset")
  case (Some i)
  assume c: "charset_value c = Inr b"
  from index_byte_Some [OF Some] have i: "i < 32" "bech32Charset ! i = c" by (simp_all add: length_charset)
  moreover have "unat (word_of_nat i :: byte) = i" using i by (simp add: unat_of_nat)
  ultimately show ?thesis using c Some by (auto simp: charset_value_def)
qed (simp add: charset_value_def)

lemma charset_plain: "c \<in> set bech32Charset \<Longrightarrow> c \<noteq> CHR ''1'' \<and> of_char c < (128 :: nat) \<and> lower_char c = c"
  by (auto simp: bech32Charset_def lower_char_def)

definition charset_text :: "bytes \<Rightarrow> string" where
  "charset_text xs = map (\<lambda>b. bech32Charset ! unat b) xs"

lemma charset_text_values: "groups_ok 5 xs \<Longrightarrow> mapE charset_value (charset_text xs) = Inr xs"
  unfolding charset_text_def by (induction xs) (simp_all add: charset_values)

lemma charset_text_of: "mapE charset_value cs = Inr xs \<Longrightarrow> charset_text xs = cs \<and> groups_ok 5 xs"
  unfolding charset_text_def
  by (induction cs arbitrary: xs) (auto simp: bindE_Inr_iff dest!: charset_value_Inr)

lemma set_charset_text: "groups_ok 5 xs \<Longrightarrow> set (charset_text xs) \<subseteq> set bech32Charset"
  by (auto simp: charset_text_def groups_ok_def list_all_iff length_charset intro!: nth_mem)

lemma encode_chars: "groups_ok 5 xs \<Longrightarrow> mapE (\<lambda>b. idx bech32Charset (unat b)) xs = Inr (charset_text xs)"
  by (induction xs) (simp_all add: charset_text_def length_charset)

lemma bech32Encode_text:
  "groups_ok 5 dat \<Longrightarrow> bech32Encode hrp dat = Inr (hrp @ CHR ''1'' # charset_text (dat @ bech32CreateChecksum hrp dat))"
  using encode_chars [of "dat @ bech32CreateChecksum hrp dat"] checksum_groups [of hrp dat] by (simp add: bech32Encode_def)

text \<open>Decoding a text that splits at its last \<open>1\<close>.\<close>

lemma bech32Decode_split:
  assumes "ToLower uni s = hrp @ CHR ''1'' # cs" "CHR ''1'' \<notin> set cs"
  shows "bech32Decode uni s =
    (if s \<noteq> ToLower uni s \<and> s \<noteq> ToUpper uni s then fail ''bech32 string must not be mixed-case''
     else if hrp = [] \<or> length cs < 6 then fail ''invalid bech32 separator position''
     else bindE (mapE charset_value cs) (\<lambda>dat.
       if bech32Polymod (bech32HrpExpand hrp @ dat) \<noteq> 1 then fail ''invalid bech32 checksum''
       else Inr (hrp, take (length dat - 6) dat)))"
proof -
  have "(length hrp < 1 \<or> length hrp + 7 > length (hrp @ CHR ''1'' # cs)) = (hrp = [] \<or> length cs < 6)" by auto
  with assms(1) last_index_byte_append [OF assms(2), of hrp] show ?thesis
    unfolding bech32Decode_def Let_def by (auto intro!: bindE_cong)
qed

lemma bech32Decode_Inr:
  assumes "bech32Decode uni s = Inr (hrp, dat)"
  obtains c where "length c = 6" "groups_ok 5 (dat @ c)" "ToLower uni s = hrp @ CHR ''1'' # charset_text (dat @ c)"
    "hrp \<noteq> []" "s = ToLower uni s \<or> s = ToUpper uni s" "c = bech32CreateChecksum hrp dat"
proof -
  define l where "l = ToLower uni s"
  define u where "u = ToUpper uni s"
  obtain pos where pos: "last_index_byte (CHR ''1'') l = Some pos"
    using assms by (cases "last_index_byte (CHR ''1'') l") (auto simp: bech32Decode_def Let_def l_def [symmetric] split: if_splits)
  note at = last_index_byte_Some [OF pos]
  define cs where "cs = drop (Suc pos) l"
  have split: "l = take pos l @ CHR ''1'' # cs"
    using id_take_nth_drop [OF at(1)] at(2) by (simp add: cs_def)
  have split': "ToLower uni s = take pos l @ CHR ''1'' # cs" using split by (simp only: l_def)
  note dec = assms [unfolded bech32Decode_split [OF split' at(3) [folded cs_def]], folded l_def u_def]
  have cases1: "s = l \<or> s = u"
    by (rule ccontr) (use dec in simp)
  have cases2: "take pos l \<noteq> []"
    by (rule ccontr) (use dec cases1 in \<open>simp split: if_splits\<close>)
  have cases3: "\<not> length cs < 6"
    by (rule ccontr) (use dec cases1 cases2 in \<open>simp split: if_splits\<close>)
  note cases = cases1 cases2 cases3
  with dec have "bindE (mapE charset_value cs) (\<lambda>dat.
       if bech32Polymod (bech32HrpExpand (take pos l) @ dat) \<noteq> 1 then fail ''invalid bech32 checksum''
       else Inr (take pos l, take (length dat - 6) dat)) = Inr (hrp, dat)"
    by (simp only: if_False de_Morgan_disj not_not simp_thms split: if_splits)
  then obtain xs where xs: "mapE charset_value cs = Inr xs" "length cs \<ge> 6" "take pos l \<noteq> []"
      "bech32Polymod (bech32HrpExpand hrp @ xs) = 1" "hrp = take pos l" "dat = take (length xs - 6) xs" "s = l \<or> s = u"
    using cases unfolding bindE_Inr_iff by (auto simp only: not_less split: if_splits)
  define c where "c = drop (length xs - 6) xs"
  have "length xs \<ge> 6" using xs(1,2) mapE_length [OF xs(1)] by simp
  then have c: "xs = dat @ c" "length c = 6" by (simp_all add: xs(6) c_def)
  with charset_text_of [OF xs(1)] have spelled: "charset_text (dat @ c) = cs" "groups_ok 5 (dat @ c)" by simp_all
  with xs(4) c checksum_unique [of c hrp dat] have "c = bech32CreateChecksum hrp dat" by simp
  moreover have "ToLower uni s = hrp @ CHR ''1'' # charset_text (dat @ c)" "hrp \<noteq> []"
    using split' xs(3) by (simp_all only: xs(5) spelled(1) simp_thms)
  moreover have "s = ToLower uni s \<or> s = ToUpper uni s" using xs(7) by (simp only: l_def u_def)
  ultimately show thesis using that [of c] c(2) spelled(2) by blast
qed

lemma bech32_canonical:
  "bech32Decode uni s = Inr (hrp, dat) \<Longrightarrow> bech32Encode hrp dat = Inr (ToLower uni s)"
  by (elim bech32Decode_Inr) (simp add: bech32Encode_text)

definition plain_hrp :: "string \<Rightarrow> bool" where
  "plain_hrp hrp \<longleftrightarrow> hrp \<noteq> [] \<and> is_ascii hrp \<and> map lower_char hrp = hrp"

lemma ToLower_text: "plain_hrp hrp \<Longrightarrow> set cs \<subseteq> set bech32Charset \<Longrightarrow> ToLower uni (hrp @ CHR ''1'' # cs) = hrp @ CHR ''1'' # cs"
proof -
  assume hrp: "plain_hrp hrp" and cs: "set cs \<subseteq> set bech32Charset"
  have "is_ascii (hrp @ CHR ''1'' # cs)"
    using hrp cs charset_plain by (auto simp: plain_hrp_def is_ascii_def list_all_iff)
  moreover have "map lower_char cs = cs"
    using cs charset_plain by (intro map_idI) auto
  ultimately show ?thesis
    using hrp by (simp add: ToLower_def plain_hrp_def) (simp add: lower_char_def)
qed

lemma bech32_roundtrip:
  assumes "plain_hrp hrp" "bech32Encode hrp dat = Inr s"
  shows "bech32Decode uni s = Inr (hrp, dat)"
proof -
  have ok: "groups_ok 5 dat"
  proof -
    have "mapE (\<lambda>b. idx bech32Charset (unat b)) xs = Inr cs \<Longrightarrow> groups_ok 5 xs" for xs cs
      by (induction xs arbitrary: cs) (auto simp: bindE_Inr_iff idx_def length_charset split: if_splits)
    from this [of "dat @ bech32CreateChecksum hrp dat"] assms(2) show ?thesis by (auto simp: bech32Encode_def bindE_Inr_iff)
  qed
  let ?c = "bech32CreateChecksum hrp dat"
  let ?cs = "charset_text (dat @ ?c)"
  have s: "s = hrp @ CHR ''1'' # ?cs" using bech32Encode_text [OF ok] assms(2) by simp
  have all_ok: "groups_ok 5 (dat @ ?c)" using ok checksum_groups by simp
  have "set ?cs \<subseteq> set bech32Charset" by (rule set_charset_text [OF all_ok])
  moreover from this have "CHR ''1'' \<notin> set ?cs" using charset_plain by blast
  moreover have "bech32Polymod (bech32HrpExpand hrp @ dat @ ?c) = 1"
    using checksum_unique checksum_groups by blast
  moreover have "length ?cs = length dat + 6" by (simp add: charset_text_def checksum_groups)
  ultimately show ?thesis
    using bech32Decode_split [OF ToLower_text [OF assms(1)], of ?cs uni] ToLower_text [OF assms(1), of ?cs uni]
      charset_text_values [OF all_ok] assms(1)
    by (simp add: s plain_hrp_def checksum_groups)
qed

section \<open>One wrong character\<close>

text \<open>A state that zeros lead back to zero was zero.\<close>

lemma polymod_step_zero:
  assumes "take_bit 30 t = t" "polymod_step t 0 = 0"
  shows "t = 0"
proof -
  have eq: "push_bit 5 (take_bit 25 t) = feed t"
    using assms(2) by (simp add: polymod_step_feed xor_swap)
  have low: "\<not> bit (feed t) 0" "\<not> bit (feed t) 1" "\<not> bit (feed t) 2" "\<not> bit (feed t) 3" "\<not> bit (feed t) 4"
    unfolding eq [symmetric] by (simp_all add: bit_simps)
  have "\<not> bit t 25 \<and> \<not> bit t 26 \<and> \<not> bit t 27 \<and> \<not> bit t 28 \<and> \<not> bit t 29"
    using low unfolding feed_def by (simp add: bit_xor_iff bit_numeral_word_iff split: if_splits) 
  then have "feed t = 0" by (simp add: feed_def)
  with eq have "push_bit 5 (take_bit 25 t) = 0" by simp
  then have "\<not> bit t n" if "n < 25" for n
    using that by (auto simp: bit_eq_iff bit_simps dest: spec [of _ "n + 5"])
  moreover have "\<not> bit t n" if "30 \<le> n" for n using that assms(1) by (metis bit_take_bit_iff not_le)
  moreover have "n < 25 \<or> n = 25 \<or> n = 26 \<or> n = 27 \<or> n = 28 \<or> n = 29 \<or> 30 \<le> n" for n :: nat by auto
  ultimately show "t = 0"
    using \<open>\<not> bit t 25 \<and> \<not> bit t 26 \<and> \<not> bit t 27 \<and> \<not> bit t 28 \<and> \<not> bit t 29\<close> by (intro bit_word_eqI) (metis bit_0_eq bot_apply bot_bool_def)
qed

lemma polymod_from_nonzero: "take_bit 30 t = t \<Longrightarrow> t \<noteq> 0 \<Longrightarrow> polymod_from t (replicate n 0) \<noteq> 0"
proof (induction n arbitrary: t)
  case (Suc n)
  then have "polymod_step t 0 \<noteq> 0" using polymod_step_zero by blast
  with Suc.IH [OF polymod_step_30] show ?case by simp
qed simp

lemma polymod_one_change:
  assumes "j < length xs" "v \<noteq> xs ! j"
  shows "polymod_from s (xs[j := v]) \<noteq> polymod_from s xs"
proof -
  define e where "e = replicate j 0 @ [xs ! j XOR v] @ replicate (length xs - j - 1) (0 :: byte)"
  have "xs[j := v] = map2 (XOR) xs e"
  proof (rule nth_equalityI)
    show "xs[j := v] ! k = map2 (XOR) xs e ! k" if "k < length (xs[j := v])" for k
      using that assms(1) by (cases k j rule: linorder_cases) (auto simp: e_def nth_append nth_Cons' simp flip: xor.assoc)
  qed (use assms(1) in \<open>simp add: e_def\<close>)
  moreover have len: "length xs = length e" using assms(1) by (simp add: e_def)
  ultimately have "polymod_from s (xs[j := v]) = polymod_from s xs XOR polymod_from 0 e"
    using polymod_from_xor [OF len, of s 0] by simp
  moreover have "polymod_from 0 e \<noteq> 0"
  proof -
    have d: "xs ! j XOR v \<noteq> 0" using assms(2) by (metis xor.assoc xor.right_neutral xor_self_eq)
    have step: "polymod_step 0 d = ucast d" for d by (simp add: polymod_step_feed feed_def)
    have "ucast d \<noteq> (0 :: 32 word)" if "d \<noteq> 0" for d :: byte
      using that unat_ucast_byte [of d] by (metis unsigned_0 unsigned_word_eqI)
    with d step have "polymod_step 0 (xs ! j XOR v) \<noteq> 0" by simp
    from polymod_from_nonzero [OF polymod_step_30 this] show ?thesis by (simp add: e_def)
  qed
  ultimately show ?thesis by (metis xor.right_neutral xor_swap xor_self_eq)
qed

text \<open>Replacing one character after the separator is always noticed.\<close>

lemma bech32_one_error:
  assumes "plain_hrp hrp" "bech32Encode hrp dat = Inr s" "length hrp < i" "i < length s" "c \<in> set bech32Charset" "c \<noteq> s ! i"
  shows "bech32Decode uni (s[i := c]) = fail ''invalid bech32 checksum''"
proof -
  from bech32Decode_Inr [OF bech32_roundtrip [OF assms(1,2), of uni]]
  obtain k where ok: "groups_ok 5 (dat @ k)" and len: "length k = 6"
    and k: "k = bech32CreateChecksum hrp dat" by metis
  define xs where "xs = dat @ k"
  have s: "s = hrp @ CHR ''1'' # charset_text xs"
    using bech32Encode_text [of dat hrp] assms(2) ok by (simp add: xs_def k)
  define j where "j = i - length hrp - 1"
  have j: "j < length xs" "i = length hrp + Suc j" using assms(3,4) by (simp_all add: s j_def charset_text_def)
  obtain n where n: "n < 32" "c = bech32Charset ! n" using assms(5) by (auto simp: in_set_conv_nth length_charset)
  define v :: byte where "v = word_of_nat n"
  have v: "unat v = n" using n(1) by (simp add: v_def unat_of_nat)
  define ys where "ys = xs[j := v]"
  have ys_text: "charset_text ys = (charset_text xs)[j := c]" by (simp add: ys_def charset_text_def map_update v n(2))
  have s': "s[i := c] = hrp @ CHR ''1'' # charset_text ys"
    unfolding ys_text by (simp add: s j(2) list_update_append)
  have "xs ! j \<noteq> v"
    using assms(6) j n v by (auto simp: s charset_text_def nth_append)
  have ys_ok: "groups_ok 5 ys"
    using ok n(1) v set_update_subset_insert [of xs j v] by (auto simp: groups_ok_def list_all_iff ys_def xs_def)
  have "bech32Polymod (bech32HrpExpand hrp @ ys) \<noteq> bech32Polymod (bech32HrpExpand hrp @ xs)"
    using polymod_one_change [OF j(1), of v] \<open>xs ! j \<noteq> v\<close> by (simp add: bech32Polymod_from ys_def)
  moreover have "bech32Polymod (bech32HrpExpand hrp @ xs) = 1"
    using checksum_unique [OF len, of hrp dat] ok k by (simp add: xs_def)
  ultimately have bad: "bech32Polymod (bech32HrpExpand hrp @ ys) \<noteq> 1" by simp
  have "set (charset_text ys) \<subseteq> set bech32Charset" by (rule set_charset_text [OF ys_ok])
  moreover from this have "CHR ''1'' \<notin> set (charset_text ys)" using charset_plain by blast
  moreover have "\<not> length (charset_text ys) < 6" by (simp add: ys_def xs_def len charset_text_def)
  ultimately show ?thesis
    using bech32Decode_split [OF ToLower_text [OF assms(1)], of "charset_text ys" uni] ToLower_text [OF assms(1), of "charset_text ys" uni]
      charset_text_values [OF ys_ok] assms(1) bad
    by (simp add: s' plain_hrp_def)
qed

end
