(* ===== verification/CardanoAddr.thy ===== *)
theory CardanoAddr
  imports Bech32 Info
begin

text \<open>
  Cardano addresses (\<^verbatim>\<open>cardano.go\<close>): the header byte, the three kinds of address the
  code builds, their text form and their parser.
\<close>

definition cardanoTypeBase :: byte where "cardanoTypeBase = 0x0"
definition cardanoTypeEnterprise :: byte where "cardanoTypeEnterprise = 0x6"
definition cardanoTypeReward :: byte where "cardanoTypeReward = 0xe"
definition cardanoNetTestnet :: byte where "cardanoNetTestnet = 0x0"
definition cardanoNetMainnet :: byte where "cardanoNetMainnet = 0x1"

lemmas cardano_consts = cardanoTypeBase_def cardanoTypeEnterprise_def cardanoTypeReward_def cardanoNetTestnet_def cardanoNetMainnet_def

definition CardanoKeyHash :: "'p crypto \<Rightarrow> bytes \<Rightarrow> bytes" where
  "CardanoKeyHash cr pk = chash cr [CardanoHashNew] pk"

definition cardanoNetwork :: "string \<Rightarrow> byte result" where
  "cardanoNetwork network =
     (if network \<in> {'''', ''cardano'', ''cardano-mainnet'', ''mainnet''} then Inr cardanoNetMainnet
      else if network \<in> {''cardano-testnet'', ''testnet''} then Inr cardanoNetTestnet
      else fail ''unsupported cardano network %q'')"

definition cardanoHRP :: "byte \<Rightarrow> byte \<Rightarrow> string" where
  "cardanoHRP typ net =
     (let hrp = (if typ = cardanoTypeReward then ''stake'' else ''addr'') in
      if net = cardanoNetTestnet then hrp @ ''_test'' else hrp)"

definition cardanoEncodeAddress :: "bytes \<Rightarrow> string result" where
  "cardanoEncodeAddress payload =
     (if length payload = 0 then fail ''empty cardano address payload''
      else
        bindE (idx payload 0) (\<lambda>h.
        let hrp = cardanoHRP (drop_bit 4 h) (h AND 0x0f) in
        bindE (cardanoConvertBits payload 8 5 True) (\<lambda>dat. bech32Encode hrp dat)))"

definition CardanoEnterpriseAddress :: "bytes \<Rightarrow> string \<Rightarrow> string result" where
  "CardanoEnterpriseAddress paymentKeyHash network =
     (if length paymentKeyHash \<noteq> 28 then fail ''cardano payment key hash must be 28 bytes, got %d''
      else
        bindE (cardanoNetwork network) (\<lambda>net.
        let header = push_bit 4 cardanoTypeEnterprise OR net in
        cardanoEncodeAddress ([header] @ paymentKeyHash)))"

definition CardanoBaseAddress :: "bytes \<Rightarrow> bytes \<Rightarrow> string \<Rightarrow> string result" where
  "CardanoBaseAddress paymentKeyHash stakeKeyHash network =
     (if length paymentKeyHash \<noteq> 28 then fail ''cardano payment key hash must be 28 bytes, got %d''
      else if length stakeKeyHash \<noteq> 28 then fail ''cardano stake key hash must be 28 bytes, got %d''
      else
        bindE (cardanoNetwork network) (\<lambda>net.
        let header = push_bit 4 cardanoTypeBase OR net in
        cardanoEncodeAddress ([header] @ paymentKeyHash @ stakeKeyHash)))"

definition CardanoRewardAddress :: "bytes \<Rightarrow> string \<Rightarrow> string result" where
  "CardanoRewardAddress stakeKeyHash network =
     (if length stakeKeyHash \<noteq> 28 then fail ''cardano stake key hash must be 28 bytes, got %d''
      else
        bindE (cardanoNetwork network) (\<lambda>net.
        let header = push_bit 4 cardanoTypeReward OR net in
        cardanoEncodeAddress ([header] @ stakeKeyHash)))"

text \<open>The checks of the parser on the prefix and the payload.\<close>

definition cardano_length :: "byte \<Rightarrow> nat result" where
  "cardano_length typ =
     (if typ = cardanoTypeBase then Inr (1 + 28 + 28)
      else if typ = cardanoTypeEnterprise \<or> typ = cardanoTypeReward then Inr (1 + 28)
      else fail ''unsupported cardano address type %d'')"

definition has_suffix :: "string \<Rightarrow> string \<Rightarrow> bool" where
  "has_suffix s t \<longleftrightarrow> drop (length s - length t) s = t"

definition check_cardano :: "string \<Rightarrow> bytes \<Rightarrow> string list result" where
  "check_cardano hrp payload =
     bindE (idx payload 0) (\<lambda>header.
     let typ = drop_bit 4 header; net = header AND 0x0f in
     if net \<noteq> cardanoNetMainnet \<and> net \<noteq> cardanoNetTestnet then fail ''unsupported cardano network id %d''
     else
       bindE (cardano_length typ) (\<lambda>wantLen.
       if length payload \<noteq> wantLen then fail ''invalid cardano address length %d for type %d''
       else if (hrp = ''stake'' \<or> hrp = ''stake_test'') \<noteq> (typ = cardanoTypeReward)
       then fail ''cardano address prefix %q does not match header type %d''
       else if net \<noteq> (if has_suffix hrp ''_test'' then cardanoNetTestnet else cardanoNetMainnet)
       then fail ''cardano address prefix %q does not match header network id %d''
       else Inr (if net = cardanoNetTestnet then [''cardano-testnet''] else [''cardano''])))"

definition ParseCardanoAddress :: "go_unicode \<Rightarrow> string \<Rightarrow> out result" where
  "ParseCardanoAddress uni address =
     bindE (wrapE ''failed to decode cardano address: %w'' (bech32Decode uni address)) (\<lambda>(hrp, dat).
     if hrp \<notin> {''addr'', ''addr_test'', ''stake'', ''stake_test''} then fail ''unsupported cardano address prefix %q''
     else
       bindE (wrapE ''failed to decode cardano address payload: %w'' (cardanoConvertBits dat 5 8 False)) (\<lambda>payload.
       if length payload = 0 then fail ''empty cardano address payload''
       else
         bindE (check_cardano hrp payload) (\<lambda>flags.
         Inr \<lparr>Name = ''cardano'', Script = hex_encode payload, Flags = flags, raw = payload\<rparr>)))"

definition cardanoAddressFromOut :: "bytes \<Rightarrow> string \<Rightarrow> string result" where
  "cardanoAddressFromOut r network =
     (if length r = 0 then fail ''empty cardano out''
      else
        bindE (cardanoNetwork network) (\<lambda>net.
        bindE (idx r 0) (\<lambda>h. cardanoEncodeAddress (r[0 := (h AND 0xf0) OR net]))))"

section \<open>Payloads\<close>

text \<open>A payload of one of the three kinds on one of the two networks.\<close>

definition cardano_payload :: "bytes \<Rightarrow> bool" where
  "cardano_payload p \<longleftrightarrow>
     p \<noteq> [] \<and> (hd p AND 0x0f = cardanoNetMainnet \<or> hd p AND 0x0f = cardanoNetTestnet) \<and>
     (if drop_bit 4 (hd p) = cardanoTypeBase then length p = 57
      else (drop_bit 4 (hd p) = cardanoTypeEnterprise \<or> drop_bit 4 (hd p) = cardanoTypeReward) \<and> length p = 29)"

definition cardano_flag :: "bytes \<Rightarrow> string" where
  "cardano_flag p = (if hd p AND 0x0f = cardanoNetTestnet then ''cardano-testnet'' else ''cardano'')"

definition cardano_hrp :: "bytes \<Rightarrow> string" where
  "cardano_hrp p = cardanoHRP (drop_bit 4 (hd p)) (hd p AND 0x0f)"

definition cardano_out :: "bytes \<Rightarrow> out" where
  "cardano_out p = \<lparr>Name = ''cardano'', Script = hex_encode p, Flags = [cardano_flag p], raw = p\<rparr>"

lemma check_cardano_iff:
  assumes "hrp \<in> {''addr'', ''addr_test'', ''stake'', ''stake_test''}" "p \<noteq> []"
  shows "check_cardano hrp p = Inr fs \<longleftrightarrow> cardano_payload p \<and> hrp = cardano_hrp p \<and> fs = [cardano_flag p]"
proof -
  define ty where "ty = drop_bit 4 (hd p)"
  define net where "net = hd p AND 0x0f"
  have "check_cardano hrp p = Inr fs \<longleftrightarrow> cardano_payload p \<and>
      (hrp = ''stake'' \<or> hrp = ''stake_test'') = (ty = cardanoTypeReward) \<and> has_suffix hrp ''_test'' = (net = cardanoNetTestnet) \<and> fs = [cardano_flag p]"
    using assms(2)
    by (auto simp: check_cardano_def cardano_payload_def cardano_flag_def cardano_length_def ty_def net_def hd_conv_nth Let_def cardano_consts
        bindE_Inr_iff split: if_splits)
  also have "\<dots> \<longleftrightarrow> cardano_payload p \<and> hrp = cardano_hrp p \<and> fs = [cardano_flag p]"
    using assms(1) by (auto simp: has_suffix_def cardano_hrp_def cardanoHRP_def Let_def ty_def net_def)
  finally show ?thesis .
qed

lemma cardano_hrp_cases: "cardano_hrp p \<in> {''addr'', ''addr_test'', ''stake'', ''stake_test''}"
  by (simp add: cardano_hrp_def cardanoHRP_def Let_def)

lemma plain_cardano_hrp: "plain_hrp (cardano_hrp p)"
  by (simp add: cardano_hrp_def cardanoHRP_def Let_def plain_hrp_def is_ascii_def lower_char_def)

lemma cardanoEncodeAddress_iff:
  "p \<noteq> [] \<Longrightarrow> cardanoEncodeAddress p = bindE (cardanoConvertBits p 8 5 True) (bech32Encode (cardano_hrp p))"
  by (simp add: cardanoEncodeAddress_def cardano_hrp_def hd_conv_nth)

lemma cardanoEncodeAddress_total: "p \<noteq> [] \<Longrightarrow> \<exists>a. cardanoEncodeAddress p = Inr a"
  using convert_8_5_total [of p] bits_roundtrip(2) [of p] bech32Encode_text by (auto simp: cardanoEncodeAddress_iff)

lemma ParseCardanoAddress_iff:
  "ParseCardanoAddress uni s = Inr o' \<longleftrightarrow>
    (\<exists>p. cardano_payload p \<and> o' = cardano_out p \<and>
      (\<exists>dat. bech32Decode uni s = Inr (cardano_hrp p, dat) \<and> cardanoConvertBits p 8 5 True = Inr dat))"
proof
  assume "ParseCardanoAddress uni s = Inr o'"
  then obtain hrp dat p fs where "bech32Decode uni s = Inr (hrp, dat)" "hrp \<in> {''addr'', ''addr_test'', ''stake'', ''stake_test''}"
      "cardanoConvertBits dat 5 8 False = Inr p" "p \<noteq> []" "check_cardano hrp p = Inr fs"
      "o' = \<lparr>Name = ''cardano'', Script = hex_encode p, Flags = fs, raw = p\<rparr>"
    by (auto simp: ParseCardanoAddress_def bindE_Inr_iff split: if_splits)
  then show "\<exists>p. cardano_payload p \<and> o' = cardano_out p \<and>
      (\<exists>dat. bech32Decode uni s = Inr (cardano_hrp p, dat) \<and> cardanoConvertBits p 8 5 True = Inr dat)"
    using check_cardano_iff [of hrp p fs] bits_canonical(1) [of dat p] by (auto simp: cardano_out_def)
next
  assume "\<exists>p. cardano_payload p \<and> o' = cardano_out p \<and>
      (\<exists>dat. bech32Decode uni s = Inr (cardano_hrp p, dat) \<and> cardanoConvertBits p 8 5 True = Inr dat)"
  then obtain p dat where p: "cardano_payload p" "o' = cardano_out p" "bech32Decode uni s = Inr (cardano_hrp p, dat)"
      "cardanoConvertBits p 8 5 True = Inr dat" by blast
  from p(1) have "p \<noteq> []" by (simp add: cardano_payload_def)
  moreover from this p(1) have "check_cardano (cardano_hrp p) p = Inr [cardano_flag p]"
    using check_cardano_iff [OF cardano_hrp_cases, of p p] by simp
  ultimately show "ParseCardanoAddress uni s = Inr o'"
    using p bits_roundtrip(1) [OF p(4)] cardano_hrp_cases [of p] by (simp add: ParseCardanoAddress_def cardano_out_def)
qed

lemma cardano_encoded_parses:
  assumes "cardano_payload p" "cardanoEncodeAddress p = Inr a"
  shows "ParseCardanoAddress uni a = Inr (cardano_out p)"
proof -
  have "p \<noteq> []" using assms(1) by (simp add: cardano_payload_def)
  with assms(2) obtain dat where dat: "cardanoConvertBits p 8 5 True = Inr dat" "bech32Encode (cardano_hrp p) dat = Inr a"
    by (auto simp: cardanoEncodeAddress_iff bindE_Inr_iff)
  with bech32_roundtrip [OF plain_cardano_hrp dat(2)] assms(1) show ?thesis
    by (auto simp: ParseCardanoAddress_iff)
qed

lemma header_nibbles: "(h AND 0xf0) OR (h AND 0x0f) = (h :: byte)"
proof -
  have "(0xf0 :: byte) OR 0x0f = - 1" by simp
  then show ?thesis by (metis and.right_neutral bit.conj_disj_distrib)
qed

lemma cardano_flag_network: "cardano_payload p \<Longrightarrow> cardanoNetwork (cardano_flag p) = Inr (hd p AND 0x0f)"
  by (auto simp: cardano_payload_def cardano_flag_def cardanoNetwork_def cardano_consts)

lemma cardano_from_out: "cardano_payload p \<Longrightarrow> cardanoAddressFromOut p (cardano_flag p) = cardanoEncodeAddress p"
proof -
  assume ok: "cardano_payload p"
  then obtain h t where p: "p = h # t" by (cases p) (auto simp: cardano_payload_def)
  with cardano_flag_network [OF ok] header_nibbles [of h] show ?thesis
    by (simp add: cardanoAddressFromOut_def)
qed

lemma network_cases: "cardanoNetwork network = Inr n \<Longrightarrow> n = 0 \<or> n = 1"
  by (auto simp: cardanoNetwork_def cardano_consts split: if_splits)

lemma cardano_headers:
  assumes "n = 0 \<or> n = 1"
  shows "length t = 56 \<Longrightarrow> cardano_payload (n # t)" "length t = 28 \<Longrightarrow> cardano_payload ((0x60 OR n) # t)"
    "length t = 28 \<Longrightarrow> cardano_payload ((0xe0 OR n) # t)"
  using assms by (auto simp: cardano_payload_def cardano_consts drop_bit_eq_div)

text \<open>Parsing and encoding again gives the lower-case form of the text.\<close>

lemma cardano_parsed_encodes:
  assumes "ParseCardanoAddress uni s = Inr o'"
  shows "cardano_payload (raw o') \<and> cardanoAddressFromOut (raw o') (hd (Flags o')) = Inr (ToLower uni s)"
proof -
  from assms obtain p dat where p: "cardano_payload p" "o' = cardano_out p" "bech32Decode uni s = Inr (cardano_hrp p, dat)"
      "cardanoConvertBits p 8 5 True = Inr dat" by (auto simp: ParseCardanoAddress_iff)
  from p(1) have "p \<noteq> []" by (simp add: cardano_payload_def)
  with p bech32_canonical [OF p(3)] have "cardanoEncodeAddress p = Inr (ToLower uni s)"
    by (simp add: cardanoEncodeAddress_iff)
  with cardano_from_out [OF p(1)] p(1,2) show ?thesis by (simp add: cardano_out_def)
qed

section \<open>Properties\<close>

text \<open>
  C20: from key hashes of 28 bytes and a known network the three builders always give an address, and
  parsing it gives exactly the header and the hashes it was built from.
\<close>

theorem cardano_address_roundtrip:
  assumes "length pay = 28" "length stake = 28" "cardanoNetwork network = Inr n"
  shows "bindE (CardanoBaseAddress pay stake network) (ParseCardanoAddress uni) = Inr (cardano_out (n # pay @ stake)) \<and>
    bindE (CardanoEnterpriseAddress pay network) (ParseCardanoAddress uni) = Inr (cardano_out ((0x60 OR n) # pay)) \<and>
    bindE (CardanoRewardAddress stake network) (ParseCardanoAddress uni) = Inr (cardano_out ((0xe0 OR n) # stake))"
proof -
  note n = network_cases [OF assms(3)]
  have read: "bindE (cardanoEncodeAddress p) (ParseCardanoAddress uni) = Inr (cardano_out p)" if "cardano_payload p" for p
    using that cardanoEncodeAddress_total [of p] cardano_encoded_parses [OF that] by (auto simp: cardano_payload_def)
  have "push_bit 4 cardanoTypeBase OR n = n" "push_bit 4 cardanoTypeEnterprise OR n = 0x60 OR n" "push_bit 4 cardanoTypeReward OR n = 0xe0 OR n"
    by (simp_all add: cardano_consts)
  then show "bindE (CardanoBaseAddress pay stake network) (ParseCardanoAddress uni) = Inr (cardano_out (n # pay @ stake)) \<and>
    bindE (CardanoEnterpriseAddress pay network) (ParseCardanoAddress uni) = Inr (cardano_out ((0x60 OR n) # pay)) \<and>
    bindE (CardanoRewardAddress stake network) (ParseCardanoAddress uni) = Inr (cardano_out ((0xe0 OR n) # stake))"
    using assms read cardano_headers [OF n]
    by (simp_all add: CardanoBaseAddress_def CardanoEnterpriseAddress_def CardanoRewardAddress_def)
qed

definition ascii_only :: go_unicode where
  "ascii_only = \<lparr>lower_text = (\<lambda>s. s), upper_text = (\<lambda>s. s)\<rparr>"

theorem cardano_address_roundtrip_witness:
  "bindE (CardanoBaseAddress (replicate 28 7) (replicate 28 9) ''mainnet'') (ParseCardanoAddress ascii_only) =
     Inr (cardano_out (1 # replicate 28 7 @ replicate 28 9)) \<and>
   bindE (CardanoEnterpriseAddress (replicate 28 7) ''mainnet'') (ParseCardanoAddress ascii_only) = Inr (cardano_out ((0x60 OR 1) # replicate 28 7)) \<and>
   bindE (CardanoRewardAddress (replicate 28 9) ''mainnet'') (ParseCardanoAddress ascii_only) = Inr (cardano_out ((0xe0 OR 1) # replicate 28 9))"
proof -
  have n: "cardanoNetwork ''mainnet'' = Inr 1" by (simp add: cardanoNetwork_def cardano_consts)
  show ?thesis by (rule cardano_address_roundtrip [OF _ _ n]) simp_all
qed

text \<open>
  C40: whatever Cardano address the parser accepts, its header names one of the three kinds and one of
  the two networks, agrees with the prefix, and encoding the parsed output again gives the lower-case
  form of the very same text.
\<close>

theorem cardano_parse_canonical:
  assumes "ParseCardanoAddress uni s = Inr o'"
  shows "cardano_payload (raw o') \<and> cardanoAddressFromOut (raw o') (hd (Flags o')) = Inr (ToLower uni s)"
  using assms by (rule cardano_parsed_encodes)

theorem cardano_parse_canonical_witness:
  "\<exists>s o'. ParseCardanoAddress ascii_only s = Inr o' \<and> cardano_payload (raw o') \<and>
    cardanoAddressFromOut (raw o') (hd (Flags o')) = Inr (ToLower ascii_only s)"
proof -
  have ok: "cardano_payload (1 # replicate 56 7)" by (rule cardano_headers) simp_all
  then obtain a where "cardanoEncodeAddress (1 # replicate 56 7) = Inr a" using cardanoEncodeAddress_total by blast
  from cardano_encoded_parses [OF ok this] cardano_parse_canonical [OF cardano_encoded_parses [OF ok this]] show ?thesis
    by blast
qed

text \<open>
  C24: an address with any one character after the separator replaced by another character of the
  alphabet is refused.
\<close>

theorem cardano_typo_detected:
  assumes "cardano_payload p" "cardanoEncodeAddress p = Inr a"
    and "length (cardano_hrp p) < i" "i < length a" "c \<in> set bech32Charset" "c \<noteq> a ! i"
  shows "ParseCardanoAddress uni (a[i := c]) = fail ''failed to decode cardano address: %w''"
proof -
  have "p \<noteq> []" using assms(1) by (simp add: cardano_payload_def)
  with assms(2) obtain dat where "bech32Encode (cardano_hrp p) dat = Inr a"
    by (auto simp: cardanoEncodeAddress_iff bindE_Inr_iff)
  from bech32_one_error [OF plain_cardano_hrp this assms(3-6)] show ?thesis
    by (simp add: ParseCardanoAddress_def)
qed

theorem cardano_typo_detected_witness:
  "\<exists>a. cardanoEncodeAddress (1 # replicate 56 7) = Inr a \<and>
    ParseCardanoAddress ascii_only (a[5 := (if a ! 5 = CHR ''q'' then CHR ''p'' else CHR ''q'')]) =
      fail ''failed to decode cardano address: %w''"
proof -
  have ok: "cardano_payload (1 # replicate 56 7)" by (rule cardano_headers) simp_all
  then obtain a where a: "cardanoEncodeAddress (1 # replicate 56 7) = Inr a" using cardanoEncodeAddress_total by blast
  have hrp: "cardano_hrp (1 # replicate 56 7) = ''addr''" by (simp add: cardano_hrp_def cardanoHRP_def cardano_consts drop_bit_eq_div)
  obtain dat where "bech32Encode ''addr'' dat = Inr a"
    using a hrp by (auto simp: cardanoEncodeAddress_iff bindE_Inr_iff)
  then have "length a \<ge> 11" by (auto simp: bech32Encode_def bindE_Inr_iff dest!: mapE_length simp: checksum_groups)
  moreover have "(if a ! 5 = CHR ''q'' then CHR ''p'' else CHR ''q'') \<noteq> a ! 5" by simp
  moreover have "(if a ! 5 = CHR ''q'' then CHR ''p'' else CHR ''q'') \<in> set bech32Charset" by (simp add: bech32Charset_def)
  ultimately have "ParseCardanoAddress ascii_only (a[5 := (if a ! 5 = CHR ''q'' then CHR ''p'' else CHR ''q'')]) =
      fail ''failed to decode cardano address: %w''"
    by (intro cardano_typo_detected [OF ok a]) (simp_all add: hrp)
  with a show ?thesis by blast
qed

end
