(* ===== verification/CardanoKey.thy ===== *)
theory CardanoKey
  imports Prelude
begin

text \<open>
  Cardano extended keys: construction, signing (\<^verbatim>\<open>cardano_extkey.go\<close>) and BIP32-Ed25519
  derivation (\<^verbatim>\<open>cardano_derive.go\<close>). Arrays of 32 bytes are lists of that length; the
  curve, the hash functions and PBKDF2 are parameters.
\<close>

record 'g ed_lib =
  hmac512 :: "bytes \<Rightarrow> bytes \<Rightarrow> bytes"
  sha512 :: "bytes \<Rightarrow> bytes"
  pbkdf2_key :: "bytes \<Rightarrow> bytes \<Rightarrow> nat \<Rightarrow> nat \<Rightarrow> bytes"
  ScReduce :: "bytes \<Rightarrow> bytes"
  ScMulAdd :: "bytes \<Rightarrow> bytes \<Rightarrow> bytes \<Rightarrow> bytes"
  GeScalarMultBase :: "bytes \<Rightarrow> 'g"
  ge_Add :: "'g \<Rightarrow> 'g \<Rightarrow> 'g"
  ge_ToBytes :: "'g \<Rightarrow> bytes"
  ge_FromBytes :: "bytes \<Rightarrow> 'g option"

record cardano_key =
  kScalar :: bytes
  kNonce :: bytes
  kPub :: bytes
  kChain :: bytes
  hasChain :: bool

record cardano_pub =
  xPub :: bytes
  xChain :: bytes

section \<open>Extended keys\<close>

definition cardanoReduceScalar :: "'g ed_lib \<Rightarrow> bytes \<Rightarrow> bytes" where
  "cardanoReduceScalar lib s = ScReduce lib (s @ replicate 32 0)"

definition cardanoScalarBasePub :: "'g ed_lib \<Rightarrow> bytes \<Rightarrow> bytes" where
  "cardanoScalarBasePub lib s = ge_ToBytes lib (GeScalarMultBase lib (cardanoReduceScalar lib s))"

definition NewCardanoExtendedKey :: "'g ed_lib \<Rightarrow> bytes \<Rightarrow> cardano_key result" where
  "NewCardanoExtendedKey lib xprv =
     (if length xprv \<noteq> 64 \<and> length xprv \<noteq> 96 then fail ''cardano xprv must be 64 or 96 bytes, got %d''
      else
        bindE (slice_to xprv 32) (\<lambda>s.
        bindE (subslice xprv 32 64) (\<lambda>n.
        bindE (if length xprv = 96 then subslice xprv 64 96 else Inr (replicate 32 0)) (\<lambda>c.
        Inr \<lparr>kScalar = s, kNonce = n, kPub = cardanoScalarBasePub lib s, kChain = c, hasChain = (length xprv = 96)\<rparr>))))"

definition CardanoKey_ChainCode :: "cardano_key \<Rightarrow> bytes option" where
  "CardanoKey_ChainCode ek = (if \<not> hasChain ek then None else Some (kChain ek))"

definition CardanoPublicKey :: "cardano_key \<Rightarrow> bytes" where
  "CardanoPublicKey ek = kPub ek"

definition CardanoKey_Bytes :: "cardano_key \<Rightarrow> bytes" where
  "CardanoKey_Bytes ek = kScalar ek @ kNonce ek @ (if hasChain ek then kChain ek else [])"

definition SignCardano :: "'g ed_lib \<Rightarrow> cardano_key \<Rightarrow> bytes \<Rightarrow> bytes" where
  "SignCardano lib ek message =
     (let a = cardanoReduceScalar lib (kScalar ek);
          r = ScReduce lib (sha512 lib (kNonce ek @ message));
          R = ge_ToBytes lib (GeScalarMultBase lib r);
          hram = ScReduce lib (sha512 lib (R @ kPub ek @ message));
          s = ScMulAdd lib hram a r
      in R @ s)"

section \<open>Byte arithmetic\<close>

text \<open>The loops of the two additions: 16-bit sums, the carry in the high byte.\<close>

fun add_carry :: "nat \<Rightarrow> bytes \<Rightarrow> bytes \<Rightarrow> 16 word \<Rightarrow> bytes \<times> 16 word" where
  "add_carry k (x # xs) (y # ys) carry =
     (let r = ucast x + push_bit k (ucast y) + carry;
          (out, carry) = add_carry k xs ys (drop_bit 8 r)
      in (ucast r # out, carry))"
| "add_carry k _ _ carry = ([], carry)"

fun carry_on :: "bytes \<Rightarrow> 16 word \<Rightarrow> bytes" where
  "carry_on [] carry = []"
| "carry_on (x # xs) carry = (let r = ucast x + carry in ucast r # carry_on xs (drop_bit 8 r))"

definition cardanoAdd28Mul8 :: "bytes \<Rightarrow> bytes \<Rightarrow> bytes" where
  "cardanoAdd28Mul8 x y =
     (let (out, carry) = add_carry 3 (take 28 x) (take 28 y) 0 in out @ carry_on (drop 28 x) carry)"

definition cardanoAdd256 :: "bytes \<Rightarrow> bytes \<Rightarrow> bytes" where
  "cardanoAdd256 x y = fst (add_carry 0 x y 0)"

definition cardanoLE32 :: "32 word \<Rightarrow> bytes" where
  "cardanoLE32 i = [ucast i, ucast (drop_bit 8 i), ucast (drop_bit 16 i), ucast (drop_bit 24 i)]"

section \<open>Derivation\<close>

definition CardanoHardened :: "32 word" where
  "CardanoHardened = 0x80000000"

definition CardanoHarden :: "32 word \<Rightarrow> 32 word" where
  "CardanoHarden index = index OR CardanoHardened"

definition CardanoIcarusMasterKey :: "'g ed_lib \<Rightarrow> bytes \<Rightarrow> bytes \<Rightarrow> cardano_key result" where
  "CardanoIcarusMasterKey lib entropy password =
     (if length entropy = 0 then fail ''cardano: empty entropy''
      else
        let xprv = pbkdf2_key lib password entropy 4096 96 in
        bindE (idx xprv 0) (\<lambda>b0.
        bindE (idx xprv 31) (\<lambda>b31.
        NewCardanoExtendedKey lib (xprv[0 := b0 AND 0xf8, 31 := (b31 AND 0x1f) OR 0x40]))))"

text \<open>The two HMAC outputs of a step: their halves are \<open>zl\<close>, \<open>zr\<close> and the new chain code.\<close>

definition derive_macs :: "'g ed_lib \<Rightarrow> bytes \<Rightarrow> byte \<Rightarrow> byte \<Rightarrow> bytes \<Rightarrow> (bytes \<times> bytes \<times> bytes) result" where
  "derive_macs lib chain ztag itag body =
     (let zout = hmac512 lib chain (ztag # body); iout = hmac512 lib chain (itag # body) in
      bindE (slice_to zout 32) (\<lambda>zl.
      bindE (subslice zout 32 64) (\<lambda>zr.
      bindE (subslice iout 32 64) (\<lambda>cc. Inr (zl, zr, cc)))))"

definition DeriveChild :: "'g ed_lib \<Rightarrow> cardano_key \<Rightarrow> 32 word \<Rightarrow> cardano_key result" where
  "DeriveChild lib ek index =
     (if \<not> hasChain ek then fail ''cardano: extended key has no chain code; cannot derive''
      else
        let seri = cardanoLE32 index in
        bindE (if index \<ge> CardanoHardened then derive_macs lib (kChain ek) 0x00 0x01 (kScalar ek @ kNonce ek @ seri)
               else derive_macs lib (kChain ek) 0x02 0x03 (kPub ek @ seri)) (\<lambda>(zl, zr, cc).
        let s = cardanoAdd28Mul8 (kScalar ek) zl in
        Inr \<lparr>kScalar = s, kNonce = cardanoAdd256 (kNonce ek) zr, kPub = cardanoScalarBasePub lib s, kChain = cc, hasChain = True\<rparr>))"

fun DerivePath :: "'g ed_lib \<Rightarrow> cardano_key \<Rightarrow> 32 word list \<Rightarrow> cardano_key result" where
  "DerivePath lib ek [] = Inr ek"
| "DerivePath lib ek (index # indices) =
     bindE (wrapE ''cardano: deriving index %d (step %d): %w'' (DeriveChild lib ek index)) (\<lambda>next'. DerivePath lib next' indices)"

definition ExtendedPublicKey :: "cardano_key \<Rightarrow> cardano_pub option" where
  "ExtendedPublicKey ek = (if \<not> hasChain ek then None else Some \<lparr>xPub = kPub ek, xChain = kChain ek\<rparr>)"

definition NewCardanoExtendedPubKey :: "bytes \<Rightarrow> bytes \<Rightarrow> cardano_pub result" where
  "NewCardanoExtendedPubKey pk chainCode =
     (if length pk \<noteq> 32 then fail ''cardano public key must be 32 bytes, got %d''
      else if length chainCode \<noteq> 32 then fail ''cardano chain code must be 32 bytes, got %d''
      else Inr \<lparr>xPub = pk, xChain = chainCode\<rparr>)"

definition cardanoPointAddBase :: "'g ed_lib \<Rightarrow> bytes \<Rightarrow> bytes \<Rightarrow> bytes result" where
  "cardanoPointAddBase lib pk s =
     (case ge_FromBytes lib pk of
        None \<Rightarrow> fail ''cardano: invalid parent public key point''
      | Some a \<Rightarrow> Inr (ge_ToBytes lib (ge_Add lib a (GeScalarMultBase lib (cardanoReduceScalar lib s)))))"

definition XPub_DeriveChild :: "'g ed_lib \<Rightarrow> cardano_pub \<Rightarrow> 32 word \<Rightarrow> cardano_pub result" where
  "XPub_DeriveChild lib xp index =
     (if index \<ge> CardanoHardened then fail ''cardano: cannot derive a hardened child from a public key''
      else
        bindE (derive_macs lib (xChain xp) 0x02 0x03 (xPub xp @ cardanoLE32 index)) (\<lambda>(zl, _, cc).
        bindE (cardanoPointAddBase lib (xPub xp) (cardanoAdd28Mul8 (replicate 32 0) zl)) (\<lambda>childPub.
        Inr \<lparr>xPub = childPub, xChain = cc\<rparr>)))"

fun XPub_DerivePath :: "'g ed_lib \<Rightarrow> cardano_pub \<Rightarrow> 32 word list \<Rightarrow> cardano_pub result" where
  "XPub_DerivePath lib xp [] = Inr xp"
| "XPub_DerivePath lib xp (index # indices) =
     bindE (wrapE ''cardano: deriving index %d (step %d): %w'' (XPub_DeriveChild lib xp index)) (\<lambda>next'. XPub_DerivePath lib next' indices)"

section \<open>The additions are exact\<close>

lemma unat_carry:
  fixes x y :: byte and carry :: "16 word"
  assumes "k \<le> 3" "unat carry \<le> 8"
  defines "r \<equiv> ucast x + push_bit k (ucast y) + carry :: 16 word"
  shows "unat r = unat x + 2 ^ k * unat y + unat carry" "unat (drop_bit 8 r) \<le> 8"
    "unat (ucast r :: byte) + 256 * unat (drop_bit 8 r) = unat x + 2 ^ k * unat y + unat carry"
proof -
  have "(2 :: nat) ^ k \<le> 2 ^ 3" using assms(1) by (intro power_increasing) simp_all
  then have "2 ^ k * unat y \<le> 8 * 255" using mult_le_mono [of "2 ^ k" 8 "unat y" 255] unat_byte_less [of y] by simp
  then have bound: "unat x + 2 ^ k * unat y + unat carry \<le> 2303"
    using unat_byte_less [of x] assms(2) by linarith
  have "r = word_of_nat (unat x + 2 ^ k * unat y + unat carry)"
    by (simp add: r_def push_bit_eq_mult unsigned_ucast_eq [symmetric] mult.commute)
  then have "unat r = (unat x + 2 ^ k * unat y + unat carry) mod 2 ^ LENGTH(16)" by (simp only: unat_of_nat)
  with bound show r: "unat r = unat x + 2 ^ k * unat y + unat carry" by simp
  have d: "unat (drop_bit 8 r) = unat r div 256"
    unfolding unat_drop_bit by simp
  show "unat (drop_bit 8 r) \<le> 8" unfolding d r using bound by linarith
  have "unat (ucast r :: byte) = unat r mod 256" by (simp add: unsigned_ucast_eq take_bit_eq_mod)
  then show "unat (ucast r :: byte) + 256 * unat (drop_bit 8 r) = unat x + 2 ^ k * unat y + unat carry"
    unfolding d r [symmetric] by simp
qed

lemma add_carry_spec:
  assumes "k \<le> 3" "unat carry \<le> 8" "length xs = length ys"
  shows "case add_carry k xs ys carry of (out, c) \<Rightarrow>
    length out = length xs \<and> unat c \<le> 8 \<and>
    le_decode out + 256 ^ length xs * unat c = le_decode xs + 2 ^ k * le_decode ys + unat carry"
  using assms(3,2)
proof (induction xs ys arbitrary: carry rule: list_induct2)
  case (Cons x xs y ys)
  define r where "r = (ucast x + push_bit k (ucast y) + carry :: 16 word)"
  note c = unat_carry [OF assms(1) Cons.prems, of x y, folded r_def]
  obtain out cc where rest: "add_carry k xs ys (drop_bit 8 r) = (out, cc)" by (cases "add_carry k xs ys (drop_bit 8 r)")
  then have "add_carry k (x # xs) (y # ys) carry = (ucast r # out, cc)" by (simp add: r_def Let_def)
  moreover have "le_decode out + 256 ^ length xs * unat cc = le_decode xs + 2 ^ k * le_decode ys + unat (drop_bit 8 r)"
    and "length out = length xs" "unat cc \<le> 8" using Cons.IH [OF c(2)] rest by simp_all
  moreover have "unat (ucast r :: byte) + 256 * (le_decode out + 256 ^ length xs * unat cc) =
      unat x + 2 ^ k * unat y + unat carry + 256 * (le_decode xs + 2 ^ k * le_decode ys)"
    using c(3) calculation(2) by simp
  ultimately show ?case by (simp add: algebra_simps)
qed simp

lemma mod_low: "l < m \<Longrightarrow> (l + m * q) mod (m * n) = m * (q mod n) + l" for l m q n :: nat
  by (simp add: mod_mult2_eq)

lemma carry_on_spec:
  "unat carry \<le> 8 \<Longrightarrow> length (carry_on xs carry) = length xs \<and>
    le_decode (carry_on xs carry) = (le_decode xs + unat carry) mod 256 ^ length xs"
proof (induction xs arbitrary: carry)
  case (Cons x xs)
  define r where "r = (ucast x + carry :: 16 word)"
  have c: "unat (drop_bit 8 r) \<le> 8" "unat (ucast r :: byte) + 256 * unat (drop_bit 8 r) = unat x + unat carry"
    using unat_carry(2,3) [of 0 carry x 0] Cons.prems by (simp_all add: r_def)
  have "(le_decode (x # xs) + unat carry) mod 256 ^ Suc (length xs) =
      (unat (ucast r :: byte) + 256 * (unat (drop_bit 8 r) + le_decode xs)) mod (256 * 256 ^ length xs)"
  proof -
    have "le_decode (x # xs) + unat carry = unat (ucast r :: byte) + 256 * (unat (drop_bit 8 r) + le_decode xs)"
      using c(2) by simp
    then show ?thesis by (simp only: power_Suc)
  qed
  also have "\<dots> = 256 * ((unat (drop_bit 8 r) + le_decode xs) mod 256 ^ length xs) + unat (ucast r :: byte)"
    by (rule mod_low) (rule unat_byte_less)
  finally have "(le_decode (x # xs) + unat carry) mod 256 ^ Suc (length xs) =
      256 * ((unat (drop_bit 8 r) + le_decode xs) mod 256 ^ length xs) + unat (ucast r :: byte)" .
  moreover have "carry_on (x # xs) carry = ucast r # carry_on xs (drop_bit 8 r)" by (simp add: r_def Let_def)
  ultimately show ?case
    using Cons.IH [OF c(1)] by (simp add: add.commute)
qed simp

lemma cardanoAdd256_exact:
  "length x = 32 \<Longrightarrow> length y = 32 \<Longrightarrow> length (cardanoAdd256 x y) = 32 \<and>
    le_decode (cardanoAdd256 x y) = (le_decode x + le_decode y) mod 2 ^ 256"
proof -
  assume len: "length x = 32" "length y = 32"
  obtain out c where oc: "add_carry 0 x y 0 = (out, c)" by (cases "add_carry 0 x y 0")
  with add_carry_spec [of 0 0 x y] len
  have l: "length out = 32" and v: "le_decode out + 256 ^ 32 * unat c = le_decode x + le_decode y" by simp_all
  from arg_cong [OF v, of "\<lambda>n. n mod 256 ^ 32"] le_decode_less [of out] l
  have "le_decode out = (le_decode x + le_decode y) mod 256 ^ 32" by simp
  with oc l show ?thesis by (simp add: cardanoAdd256_def)
qed

lemma cardanoAdd28Mul8_exact:
  "length x = 32 \<Longrightarrow> length y = 32 \<Longrightarrow> length (cardanoAdd28Mul8 x y) = 32 \<and>
    le_decode (cardanoAdd28Mul8 x y) = (le_decode x + 8 * le_decode (take 28 y)) mod 2 ^ 256"
proof -
  assume len: "length x = 32" "length y = 32"
  obtain out c where oc: "add_carry 3 (take 28 x) (take 28 y) 0 = (out, c)" by (cases "add_carry 3 (take 28 x) (take 28 y) 0")
  with add_carry_spec [of 3 0 "take 28 x" "take 28 y"] len
  have l: "length out = 28" "unat c \<le> 8"
    and v: "le_decode out + 256 ^ 28 * unat c = le_decode (take 28 x) + 8 * le_decode (take 28 y)" by simp_all
  note t = carry_on_spec [OF l(2), of "drop 28 x"]
  have x: "le_decode x = le_decode (take 28 x) + 256 ^ 28 * le_decode (drop 28 x)"
    using le_decode_append [of "take 28 x" "drop 28 x"] len by simp
  have "le_decode x + 8 * le_decode (take 28 y) = le_decode out + 256 ^ 28 * (le_decode (drop 28 x) + unat c)"
    unfolding x using v by (simp add: algebra_simps)
  moreover have "le_decode out < 256 ^ 28" using le_decode_less [of out] l by simp
  moreover have "(2 :: nat) ^ 256 = 256 ^ 28 * 256 ^ 4" by simp
  ultimately have "(le_decode x + 8 * le_decode (take 28 y)) mod 2 ^ 256 =
      256 ^ 28 * ((le_decode (drop 28 x) + unat c) mod 256 ^ 4) + le_decode out"
    by (simp only: mod_low)
  with t oc l len show ?thesis
    by (simp add: cardanoAdd28Mul8_def le_decode_append)
qed

section \<open>What the code relies on\<close>

text \<open>
  Hash outputs have their lengths, scalars are reduced modulo the group order, multiples of the base
  point add up, and encoded points decode.
\<close>

definition group_order :: nat where
  "group_order = 2 ^ 252 + 27742317777372353535851937790883648493"

definition base_point :: "'g ed_lib \<Rightarrow> nat \<Rightarrow> 'g" where
  "base_point lib n = GeScalarMultBase lib (le_encode 32 (n mod group_order))"

definition ed_ok :: "'g ed_lib \<Rightarrow> bool" where
  "ed_ok lib \<longleftrightarrow>
     (\<forall>k m. length (hmac512 lib k m) = 64) \<and> (\<forall>m. length (sha512 lib m) = 64) \<and>
     (\<forall>p s n l. length (pbkdf2_key lib p s n l) = l) \<and>
     (\<forall>w. length w = 64 \<longrightarrow> ScReduce lib w = le_encode 32 (le_decode w mod group_order)) \<and>
     (\<forall>a b c. length a = 32 \<longrightarrow> length b = 32 \<longrightarrow> length c = 32 \<longrightarrow>
        ScMulAdd lib a b c = le_encode 32 ((le_decode a * le_decode b + le_decode c) mod group_order)) \<and>
     (\<forall>x y. ge_Add lib (base_point lib x) (base_point lib y) = base_point lib (x + y)) \<and>
     (\<forall>n. length (ge_ToBytes lib (base_point lib n)) = 32 \<and>
        ge_FromBytes lib (ge_ToBytes lib (base_point lib n)) = Some (base_point lib n))"

lemma ed_okD:
  assumes "ed_ok lib"
  shows "length (hmac512 lib k m) = 64" "length (sha512 lib m) = 64" "length (pbkdf2_key lib p s i l) = l"
    "length w = 64 \<Longrightarrow> ScReduce lib w = le_encode 32 (le_decode w mod group_order)"
    "length a = 32 \<Longrightarrow> length b = 32 \<Longrightarrow> length c = 32 \<Longrightarrow>
      ScMulAdd lib a b c = le_encode 32 ((le_decode a * le_decode b + le_decode c) mod group_order)"
    "ge_Add lib (base_point lib x) (base_point lib y) = base_point lib (x + y)"
    "length (ge_ToBytes lib (base_point lib n)) = 32" "ge_FromBytes lib (ge_ToBytes lib (base_point lib n)) = Some (base_point lib n)"
  using assms by (simp_all add: ed_ok_def)

lemma group_order_fits: "n mod group_order < 256 ^ 32"
proof -
  have "n mod group_order < group_order" by (simp add: group_order_def)
  also have "group_order < 256 ^ 32" by (simp add: group_order_def)
  finally show ?thesis .
qed

lemma reduced_scalar:
  assumes "ed_ok lib" "length s = 32"
  shows "cardanoReduceScalar lib s = le_encode 32 (le_decode s mod group_order)"
    "GeScalarMultBase lib (cardanoReduceScalar lib s) = base_point lib (le_decode s)"
    "cardanoScalarBasePub lib s = ge_ToBytes lib (base_point lib (le_decode s))"
proof -
  show r: "cardanoReduceScalar lib s = le_encode 32 (le_decode s mod group_order)"
    using ed_okD(4) [OF assms(1), of "s @ replicate 32 0"] assms(2) by (simp add: cardanoReduceScalar_def le_decode_append)
  show "GeScalarMultBase lib (cardanoReduceScalar lib s) = base_point lib (le_decode s)"
    "cardanoScalarBasePub lib s = ge_ToBytes lib (base_point lib (le_decode s))"
    by (simp_all add: cardanoScalarBasePub_def r base_point_def)
qed

section \<open>Well-formed keys\<close>

definition wf_key :: "'g ed_lib \<Rightarrow> cardano_key \<Rightarrow> bool" where
  "wf_key lib ek \<longleftrightarrow>
     length (kScalar ek) = 32 \<and> length (kNonce ek) = 32 \<and> length (kChain ek) = 32 \<and>
     kPub ek = cardanoScalarBasePub lib (kScalar ek)"

lemma wf_new_key: "NewCardanoExtendedKey lib xprv = Inr ek \<Longrightarrow>
    wf_key lib ek \<and> kScalar ek = take 32 xprv \<and> hasChain ek = (length xprv = 96) \<and> CardanoKey_Bytes ek = xprv"
proof -
  assume new: "NewCardanoExtendedKey lib xprv = Inr ek"
  have split: "take 32 xs @ take 32 (drop 32 xs) @ drop 64 xs = xs" for xs :: bytes
    using append_take_drop_id [of 32 "drop 32 xs"] by simp
  from new split [of xprv] show ?thesis
    by (auto simp: NewCardanoExtendedKey_def wf_key_def CardanoKey_Bytes_def bindE_Inr_iff split: if_splits)
qed

lemma derive_macs_total:
  assumes "ed_ok lib"
  obtains zl zr cc where "derive_macs lib chain zt it body = Inr (zl, zr, cc)" "length zl = 32" "length zr = 32" "length cc = 32"
  using ed_okD(1) [OF assms] by (simp add: derive_macs_def Let_def)

text \<open>A child's scalar is its parent's plus eight times a 224-bit number, unless 256 bits overflow.\<close>

lemma DeriveChild_step:
  assumes "ed_ok lib" "wf_key lib ek" "hasChain ek" "le_decode (kScalar ek) + 2 ^ 227 \<le> 2 ^ 256"
  obtains child t where "DeriveChild lib ek index = Inr child" "wf_key lib child" "hasChain child" "t < 2 ^ 224"
    "le_decode (kScalar child) = le_decode (kScalar ek) + 8 * t"
    "index < CardanoHardened \<Longrightarrow>
      XPub_DeriveChild lib \<lparr>xPub = kPub ek, xChain = kChain ek\<rparr> index = Inr \<lparr>xPub = kPub child, xChain = kChain child\<rparr>"
proof -
  define soft where "soft \<longleftrightarrow> index < CardanoHardened"
  obtain zl zr cc where macs: "(if index \<ge> CardanoHardened then derive_macs lib (kChain ek) 0x00 0x01 (kScalar ek @ kNonce ek @ cardanoLE32 index)
      else derive_macs lib (kChain ek) 0x02 0x03 (kPub ek @ cardanoLE32 index)) = Inr (zl, zr, cc)"
    and len: "length zl = 32" "length zr = 32" "length cc = 32"
    by (cases "index \<ge> CardanoHardened"; simp only: if_True if_False; rule derive_macs_total [OF assms(1)]) blast+
  define s where "s = cardanoAdd28Mul8 (kScalar ek) zl"
  define t where "t = le_decode (take 28 zl)"
  have t: "t < 2 ^ 224" using le_decode_less [of "take 28 zl"] len by (simp add: t_def)
  have wf: "length (kScalar ek) = 32" "length (kNonce ek) = 32" "kPub ek = cardanoScalarBasePub lib (kScalar ek)"
    using assms(2) by (simp_all add: wf_key_def)
  have "le_decode (kScalar ek) + 8 * t < 2 ^ 256" using t assms(4) by simp
  with cardanoAdd28Mul8_exact [OF wf(1) len(1)] have s: "length s = 32" "le_decode s = le_decode (kScalar ek) + 8 * t"
    by (simp_all add: s_def t_def)
  define child where "child = \<lparr>kScalar = s, kNonce = cardanoAdd256 (kNonce ek) zr, kPub = cardanoScalarBasePub lib s, kChain = cc, hasChain = True\<rparr>"
  show thesis
  proof (rule that [of child t])
    show "DeriveChild lib ek index = Inr child"
      using assms(3) unfolding DeriveChild_def Let_def macs by (simp add: child_def s_def)
    show "wf_key lib child"
      using s(1) len(3) cardanoAdd256_exact [OF wf(2) len(2)] by (simp add: wf_key_def child_def)
    show "XPub_DeriveChild lib \<lparr>xPub = kPub ek, xChain = kChain ek\<rparr> index = Inr \<lparr>xPub = kPub child, xChain = kChain child\<rparr>"
      if "index < CardanoHardened"
    proof -
      let ?tw = "cardanoAdd28Mul8 (replicate 32 0) zl"
      have "8 * t < 2 ^ 256" using t by simp
      with cardanoAdd28Mul8_exact [of "replicate 32 0" zl] len have tw: "length ?tw = 32" "le_decode ?tw = 8 * t"
        by (simp_all add: t_def)
      have "cardanoPointAddBase lib (kPub ek) ?tw = Inr (kPub child)"
        using ed_okD(6) [OF assms(1)] ed_okD(8) [OF assms(1)] reduced_scalar [OF assms(1) wf(1)] reduced_scalar [OF assms(1) tw(1)]
          reduced_scalar [OF assms(1) s(1)]
        by (simp add: cardanoPointAddBase_def wf(3) child_def tw(2) s(2))
      with that macs show ?thesis
        by (simp add: XPub_DeriveChild_def child_def not_le [symmetric])
    qed
  qed (use t in \<open>simp_all add: child_def s(2)\<close>)
qed

lemma DerivePath_step:
  assumes "ed_ok lib" "wf_key lib ek" "hasChain ek" "le_decode (kScalar ek) + length is * 2 ^ 227 \<le> 2 ^ 256"
  shows "\<exists>c. DerivePath lib ek is = Inr c \<and> wf_key lib c \<and> hasChain c \<and>
    le_decode (kScalar ek) \<le> le_decode (kScalar c) \<and> le_decode (kScalar c) \<le> le_decode (kScalar ek) + length is * 2 ^ 227 \<and>
    le_decode (kScalar c) mod 8 = le_decode (kScalar ek) mod 8 \<and>
    (list_all (\<lambda>i. i < CardanoHardened) is \<longrightarrow>
      XPub_DerivePath lib \<lparr>xPub = kPub ek, xChain = kChain ek\<rparr> is = Inr \<lparr>xPub = kPub c, xChain = kChain c\<rparr>)"
  using assms(2-4)
proof (induction "is" arbitrary: ek)
  case (Cons i "is")
  have "le_decode (kScalar ek) + 2 ^ 227 \<le> 2 ^ 256" using Cons.prems(3) by simp
  then obtain child t where c: "DeriveChild lib ek i = Inr child" "wf_key lib child" "hasChain child" "t < 2 ^ 224"
    "le_decode (kScalar child) = le_decode (kScalar ek) + 8 * t"
    "i < CardanoHardened \<Longrightarrow>
      XPub_DeriveChild lib \<lparr>xPub = kPub ek, xChain = kChain ek\<rparr> i = Inr \<lparr>xPub = kPub child, xChain = kChain child\<rparr>"
    using DeriveChild_step [OF assms(1) Cons.prems(1,2)] by metis
  have "le_decode (kScalar child) + length is * 2 ^ 227 \<le> 2 ^ 256"
    using Cons.prems(3) c(4,5) by simp
  from Cons.IH [OF c(2,3) this] obtain d where d: "DerivePath lib child is = Inr d" "wf_key lib d" "hasChain d"
    "le_decode (kScalar child) \<le> le_decode (kScalar d)" "le_decode (kScalar d) \<le> le_decode (kScalar child) + length is * 2 ^ 227"
    "le_decode (kScalar d) mod 8 = le_decode (kScalar child) mod 8"
    "list_all (\<lambda>i. i < CardanoHardened) is \<longrightarrow>
      XPub_DerivePath lib \<lparr>xPub = kPub child, xChain = kChain child\<rparr> is = Inr \<lparr>xPub = kPub d, xChain = kChain d\<rparr>" by blast
  show ?case
  proof (intro exI [of _ d] conjI impI)
    show "le_decode (kScalar d) \<le> le_decode (kScalar ek) + length (i # is) * 2 ^ 227" using d(5) c(4,5) by simp
    show "le_decode (kScalar d) mod 8 = le_decode (kScalar ek) mod 8" using d(6) c(5) by simp
  qed (use c d in simp_all)
qed simp

section \<open>Master keys\<close>

text \<open>Icarus keys are clamped: a multiple of 8 from \<open>2 ^ 254\<close> up to \<open>3 * 2 ^ 253\<close>.\<close>

lemma clamp_low: "unat ((b :: byte) AND 0xf8) mod 8 = 0"
proof -
  have "take_bit 3 (0xf8 :: byte) = 0" by code_simp
  then have "take_bit 3 (b AND 0xf8) = 0" by (simp only: take_bit_and and_zero_eq)
  then have "unat (take_bit 3 (b AND 0xf8)) = 0" by simp
  then show ?thesis by (simp only: unsigned_take_bit_eq) (simp add: take_bit_eq_mod)
qed

lemma clamp_high: "64 \<le> unat (((b :: byte) AND 0x1f) OR 0x40)" "unat (((b :: byte) AND 0x1f) OR 0x40) < 96"
proof -
  have t: "b AND 0x1f = take_bit 5 b" by (simp add: take_bit_eq_mask mask_eq_exp_minus_1)
  have u: "unat (take_bit 5 b) = unat b mod 32" by (simp only: unsigned_take_bit_eq) (simp add: take_bit_eq_mod)
  have "take_bit 5 b AND 0x40 = 0" by (rule bit_word_eqI) (auto simp: bit_simps less_Suc_eq numeral_eq_Suc)
  then have "(b AND 0x1f) OR 0x40 = take_bit 5 b + 0x40" unfolding t by (simp add: disjunctive_add_eq_or)
  also have "\<dots> = word_of_nat (unat b mod 32 + 64)" by (simp flip: u)
  finally have "unat ((b AND 0x1f) OR 0x40) = (unat b mod 32 + 64) mod 2 ^ LENGTH(8)" by (simp only: unat_of_nat)
  moreover have "unat b mod 32 < 32" by simp
  ultimately show "64 \<le> unat ((b AND 0x1f) OR 0x40)" "unat ((b AND 0x1f) OR 0x40) < 96" by simp_all
qed

lemma scalar_bounds:
  assumes "length s = 32" "64 \<le> unat (s ! 31)" "unat (s ! 31) < 96"
  shows "2 ^ 254 \<le> le_decode s" "le_decode s < 3 * 2 ^ 253"
proof -
  have "s = take 31 s @ [s ! 31]" using take_Suc_conv_app_nth [of 31 s] assms(1) by simp
  then have v: "le_decode s = le_decode (take 31 s) + 256 ^ 31 * unat (s ! 31)"
    using le_decode_append [of "take 31 s" "[s ! 31]"] assms(1) by simp
  have "le_decode (take 31 s) < 256 ^ 31" using le_decode_less [of "take 31 s"] assms(1) by simp
  with v assms(2,3) show "2 ^ 254 \<le> le_decode s" "le_decode s < 3 * 2 ^ 253" by simp_all
qed

lemma le_decode_mod8: "s \<noteq> [] \<Longrightarrow> le_decode s mod 8 = unat (s ! 0) mod 8"
proof (cases s)
  case (Cons b t)
  have "(unat b + 256 * le_decode t) mod 8 = unat b mod 8"
    using mod_mult_self2 [of "unat b" 8 "32 * le_decode t"] by simp
  with Cons show ?thesis by simp
qed simp

lemma icarus_master:
  assumes "ed_ok lib" "CardanoIcarusMasterKey lib entropy password = Inr ek"
  shows "wf_key lib ek \<and> hasChain ek \<and> 2 ^ 254 \<le> le_decode (kScalar ek) \<and> le_decode (kScalar ek) < 3 * 2 ^ 253 \<and> le_decode (kScalar ek) mod 8 = 0"
proof -
  define x where "x = pbkdf2_key lib password entropy 4096 96"
  have len: "length x = 96" unfolding x_def by (rule ed_okD(3) [OF assms(1)])
  define y where "y = x[0 := x ! 0 AND 0xf8, 31 := (x ! 31 AND 0x1f) OR 0x40]"
  have new: "NewCardanoExtendedKey lib y = Inr ek"
    using assms(2) len by (auto simp: CardanoIcarusMasterKey_def x_def [symmetric] y_def split: if_splits)
  note wf = wf_new_key [OF new]
  have y: "length y = 96" "take 32 y ! 31 = (x ! 31 AND 0x1f) OR 0x40" "take 32 y ! 0 = x ! 0 AND 0xf8"
    using len by (simp_all add: y_def)
  then have "2 ^ 254 \<le> le_decode (take 32 y)" "le_decode (take 32 y) < 3 * 2 ^ 253"
    using clamp_high by (intro scalar_bounds; simp)+
  moreover have "le_decode (take 32 y) mod 8 = 0"
  proof -
    have "take 32 y \<noteq> []" using y(1) by auto
    from le_decode_mod8 [OF this] show ?thesis unfolding y(3) by (simp only: clamp_low)
  qed
  ultimately show ?thesis using wf y(1) by auto
qed

section \<open>Verification\<close>

text \<open>The check of RFC 8032 on a signature: \<open>S B = R + k A\<close>.\<close>

primrec ed_times :: "'g ed_lib \<Rightarrow> nat \<Rightarrow> 'g \<Rightarrow> 'g" where
  "ed_times lib 0 P = base_point lib 0"
| "ed_times lib (Suc n) P = ge_Add lib P (ed_times lib n P)"

definition ed_verifies :: "'g ed_lib \<Rightarrow> bytes \<Rightarrow> bytes \<Rightarrow> bytes \<Rightarrow> bool" where
  "ed_verifies lib pk msg sig \<longleftrightarrow>
     length sig = 64 \<and> le_decode (drop 32 sig) < group_order \<and>
     (case (ge_FromBytes lib pk, ge_FromBytes lib (take 32 sig)) of
        (Some A, Some R) \<Rightarrow>
          base_point lib (le_decode (drop 32 sig)) =
            ge_Add lib R (ed_times lib (le_decode (sha512 lib (take 32 sig @ pk @ msg)) mod group_order) A)
      | _ \<Rightarrow> False)"

lemma ed_times_base: "ed_ok lib \<Longrightarrow> ed_times lib n (base_point lib a) = base_point lib (n * a)"
  by (induction n) (simp_all add: ed_okD(6))

lemma base_point_mod: "base_point lib (n mod group_order) = base_point lib n"
  by (simp add: base_point_def)

lemma decode_reduced: "le_decode (le_encode 32 (n mod group_order)) = n mod group_order"
  using group_order_fits [of n] by (simp add: le_decode_encode)

lemma SignCardano_valid:
  assumes "ed_ok lib" "wf_key lib ek"
  shows "ed_verifies lib (kPub ek) msg (SignCardano lib ek msg)"
proof -
  have wf: "length (kScalar ek) = 32" "kPub ek = ge_ToBytes lib (base_point lib (le_decode (kScalar ek)))"
    using assms reduced_scalar(3) by (auto simp: wf_key_def)
  define a where "a = le_decode (kScalar ek)"
  define r where "r = le_decode (sha512 lib (kNonce ek @ msg))"
  define R where "R = ge_ToBytes lib (base_point lib r)"
  define h where "h = le_decode (sha512 lib (R @ kPub ek @ msg))"
  define sg where "sg = le_encode 32 ((h mod group_order * (a mod group_order) + r mod group_order) mod group_order)"
  have "GeScalarMultBase lib (ScReduce lib (sha512 lib (kNonce ek @ msg))) = base_point lib r"
    using ed_okD(2,4) [OF assms(1)] by (simp add: base_point_def r_def)
  then have sig: "SignCardano lib ek msg = R @ sg"
    using ed_okD(2,4,5) [OF assms(1)] reduced_scalar(1) [OF assms(1) wf(1)]
    by (simp add: SignCardano_def Let_def R_def sg_def h_def a_def r_def decode_reduced)
  have sg: "length sg = 32" "le_decode sg = (h mod group_order * (a mod group_order) + r mod group_order) mod group_order"
    by (simp_all add: sg_def decode_reduced)
  have "base_point lib (le_decode sg) = base_point lib (h mod group_order * a + r)"
    unfolding sg(2) by (metis base_point_mod mod_add_eq mod_mult_right_eq mod_mod_trivial)
  also have "\<dots> = ge_Add lib (base_point lib r) (ed_times lib (h mod group_order) (base_point lib a))"
    by (simp add: ed_times_base [OF assms(1)] ed_okD(6) [OF assms(1)] add.commute)
  finally have eq: "base_point lib (le_decode sg) = ge_Add lib (base_point lib r) (ed_times lib (h mod group_order) (base_point lib a))" .
  have R: "length R = 32" "ge_FromBytes lib R = Some (base_point lib r)"
    using ed_okD(7,8) [OF assms(1)] by (simp_all add: R_def)
  have A: "ge_FromBytes lib (kPub ek) = Some (base_point lib a)"
    using ed_okD(8) [OF assms(1)] by (simp add: wf(2) a_def)
  have "le_decode sg < group_order" unfolding sg(2) by (rule mod_less_divisor) (simp add: group_order_def)
  then show ?thesis
    using eq R A sg(1) by (simp add: ed_verifies_def sig h_def)
qed

section \<open>Properties\<close>

definition toy_ed :: "nat ed_lib" where
  "toy_ed =
     \<lparr>hmac512 = (\<lambda>k m. take 64 (m @ replicate 64 1)), sha512 = (\<lambda>m. take 64 (m @ replicate 64 2)),
      pbkdf2_key = (\<lambda>p s n l. take l (s @ p @ replicate l 3)),
      ScReduce = (\<lambda>w. le_encode 32 (le_decode w mod group_order)),
      ScMulAdd = (\<lambda>a b c. le_encode 32 ((le_decode a * le_decode b + le_decode c) mod group_order)),
      GeScalarMultBase = le_decode, ge_Add = (\<lambda>x y. (x + y) mod group_order),
      ge_ToBytes = le_encode 32, ge_FromBytes = (\<lambda>b. Some (le_decode b))\<rparr>"

lemma toy_ed_ok: "ed_ok toy_ed"
proof -
  have "base_point toy_ed n = n mod group_order" for n
    by (simp add: base_point_def decode_reduced) (simp add: toy_ed_def decode_reduced)
  moreover have "length (take l (s @ p @ replicate l 3)) = l" for s p :: bytes and l by (simp add: min_def)
  moreover have "min a n + (n - a) = n" for a n :: nat by simp
  ultimately show ?thesis
    unfolding ed_ok_def by (simp add: decode_reduced) (simp add: toy_ed_def decode_reduced mod_simps)
qed

text \<open>
  C6: the public keys a watcher derives from the extended public key of an account are those of the
  private keys the owner derives: from an Icarus master key and any path to the account, for soft
  indices, as long as the whole path has at most \<open>5 * 2 ^ 26\<close> steps, which keep the scalar
  from overflowing its 256 bits.
\<close>

theorem cardano_watch_only:
  assumes "ed_ok lib" "CardanoIcarusMasterKey lib entropy password = Inr master" "DerivePath lib master path = Inr acct"
    and "list_all (\<lambda>i. i < CardanoHardened) soft" "length path + length soft \<le> 5 * 2 ^ 26"
  shows "\<exists>xp c. ExtendedPublicKey acct = Some xp \<and> DerivePath lib acct soft = Inr c \<and>
    XPub_DerivePath lib xp soft = Inr \<lparr>xPub = CardanoPublicKey c, xChain = kChain c\<rparr> \<and>
    CardanoPublicKey c = cardanoScalarBasePub lib (kScalar c)"
proof -
  note m = icarus_master [OF assms(1,2)]
  have "(length path + length soft) * 2 ^ 227 \<le> 5 * 2 ^ 26 * 2 ^ 227"
    using assms(5) by (intro mult_le_mono1) simp
  with m have room: "le_decode (kScalar master) + length path * 2 ^ 227 + length soft * 2 ^ 227 \<le> 2 ^ 256"
    by (simp add: algebra_simps)
  then have "le_decode (kScalar master) + length path * 2 ^ 227 \<le> 2 ^ 256" by simp
  from DerivePath_step [OF assms(1) _ _ this] m assms(3) have acct: "wf_key lib acct" "hasChain acct"
    "le_decode (kScalar acct) \<le> le_decode (kScalar master) + length path * 2 ^ 227" by auto
  with room have "le_decode (kScalar acct) + length soft * 2 ^ 227 \<le> 2 ^ 256" by simp
  from DerivePath_step [OF assms(1) acct(1,2) this] assms(4) acct(2) show ?thesis
    by (auto simp: ExtendedPublicKey_def CardanoPublicKey_def wf_key_def)
qed

theorem cardano_watch_only_witness:
  "\<exists>master acct xp c. CardanoIcarusMasterKey toy_ed [1, 2, 3] [] = Inr master \<and> DerivePath toy_ed master [CardanoHarden 1852] = Inr acct \<and>
    ExtendedPublicKey acct = Some xp \<and> DerivePath toy_ed acct [0, 5] = Inr c \<and>
    XPub_DerivePath toy_ed xp [0, 5] = Inr \<lparr>xPub = CardanoPublicKey c, xChain = kChain c\<rparr>"
proof -
  have len: "length (pbkdf2_key toy_ed [] [1, 2, 3] 4096 96) = 96" by (rule ed_okD(3) [OF toy_ed_ok])
  have "\<exists>master. CardanoIcarusMasterKey toy_ed [1, 2, 3] [] = Inr master"
    using len by (simp add: CardanoIcarusMasterKey_def NewCardanoExtendedKey_def Let_def)
  then obtain master where m: "CardanoIcarusMasterKey toy_ed [1, 2, 3] [] = Inr master" by blast
  note facts = icarus_master [OF toy_ed_ok m]
  then have "le_decode (kScalar master) + length [CardanoHarden 1852] * 2 ^ 227 \<le> 2 ^ 256" by simp
  from DerivePath_step [OF toy_ed_ok _ _ this] facts obtain acct where a: "DerivePath toy_ed master [CardanoHarden 1852] = Inr acct"
    by blast
  have "list_all (\<lambda>i. i < CardanoHardened) [0, 5]" by (simp add: CardanoHardened_def)
  from cardano_watch_only [OF toy_ed_ok m a this] m a show ?thesis by auto
qed

text \<open>
  C33: the signature of a well-formed extended key, clamped or derived, is an ordinary Ed25519
  signature of the message under its public key.
\<close>

theorem cardano_signature_valid:
  assumes "ed_ok lib" "wf_key lib ek"
  shows "ed_verifies lib (CardanoPublicKey ek) msg (SignCardano lib ek msg)"
  using SignCardano_valid [OF assms] by (simp add: CardanoPublicKey_def)

theorem cardano_signature_valid_witness:
  "\<exists>ek. NewCardanoExtendedKey toy_ed (replicate 64 7) = Inr ek \<and>
    ed_verifies toy_ed (CardanoPublicKey ek) [1, 2] (SignCardano toy_ed ek [1, 2])"
proof -
  obtain ek where ek: "NewCardanoExtendedKey toy_ed (replicate 64 7) = Inr ek"
    by (simp add: NewCardanoExtendedKey_def)
  with cardano_signature_valid [OF toy_ed_ok, of ek] wf_new_key [OF ek] show ?thesis by blast
qed

end
