(* ===== verification/Address.thy ===== *)
theory Address
  imports CardanoAddr
begin

text \<open>
  Text addresses (\<^verbatim>\<open>address.go\<close>, \<^verbatim>\<open>tron.go\<close>, \<^verbatim>\<open>massa.go\<close>,
  \<^verbatim>\<open>solana.go\<close>): parsing them into an output and writing an output as an address. Base58,
  CashAddr and SegWit texts belong to libraries; a decoder whose error is only tested gives an
  option. Hash outputs have at least 4 bytes, so their checksum is \<open>take 4\<close>.
\<close>

record addr_lib =
  b58_encode :: "bytes \<Rightarrow> string"
  b58_decode :: "string \<Rightarrow> bytes option"
  CashAddrEncode :: "string \<Rightarrow> nat \<Rightarrow> bytes \<Rightarrow> string result"
  CashAddrDecode :: "string \<Rightarrow> string \<Rightarrow> (nat \<times> bytes) option"
  SegwitAddrEncode :: "string \<Rightarrow> nat \<Rightarrow> bytes \<Rightarrow> string result"
  SegwitAddrDecode :: "string \<Rightarrow> string \<Rightarrow> (nat \<times> bytes) option"

abbreviation checksum4 :: "'p crypto \<Rightarrow> bytes \<Rightarrow> bytes" where
  "checksum4 cr buf \<equiv> take 4 (chash cr [Sha256New, Sha256New] buf)"

section \<open>Accounts\<close>

definition ParseEvmAddress :: "go_unicode \<Rightarrow> 'p crypto \<Rightarrow> string \<Rightarrow> out result" where
  "ParseEvmAddress uni cr address =
     (if length address \<noteq> 42 \<or> \<not> has_prefix address ''0x''
      then fail ''EVM addresses must be 42 characters long and start with 0x''
      else
        bindE (wrapE ''failed to parse ethereum address: %w'' (hex_decode (drop 2 address))) (\<lambda>dat.
        let ok = Inr \<lparr>Name = ''eth'', Script = hex_encode dat, Flags = [''evm''], raw = dat\<rparr> in
        if address \<noteq> ToLower uni address then
          bindE (eip55 cr dat) (\<lambda>e. if address \<noteq> e then fail ''bad checksum on ethereum address'' else ok)
        else ok))"

definition tronAddressPrefix :: byte where
  "tronAddressPrefix = 0x41"

definition EncodeTronAddress :: "addr_lib \<Rightarrow> 'p crypto \<Rightarrow> bytes \<Rightarrow> string" where
  "EncodeTronAddress lib cr r = b58_encode lib (r @ checksum4 cr r)"

definition DecodeTronAddress :: "addr_lib \<Rightarrow> 'p crypto \<Rightarrow> string \<Rightarrow> bytes result" where
  "DecodeTronAddress lib cr address =
     (case b58_decode lib address of
        None \<Rightarrow> fail ''failed to decode tron address: %w''
      | Some buf \<Rightarrow>
          if length buf \<noteq> 25 then fail ''invalid tron address length %d, expected 25''
          else
            let payload = take 21 buf; chk = drop 21 buf in
            if checksum4 cr payload \<noteq> chk then fail ''bad checksum on tron address''
            else if payload ! 0 \<noteq> tronAddressPrefix then fail ''invalid tron address prefix 0x%02x, expected 0x41''
            else Inr payload)"

definition ParseTronAddress :: "addr_lib \<Rightarrow> 'p crypto \<Rightarrow> string \<Rightarrow> out result" where
  "ParseTronAddress lib cr address =
     bindE (DecodeTronAddress lib cr address) (\<lambda>r.
     Inr \<lparr>Name = ''tron'', Script = hex_encode r, Flags = [''tron''], raw = r\<rparr>)"

definition ParseMassaAddress :: "addr_lib \<Rightarrow> 'p crypto \<Rightarrow> string \<Rightarrow> out result" where
  "ParseMassaAddress lib cr address =
     (if \<not> has_prefix address ''AU'' \<and> \<not> has_prefix address ''AS'' then fail ''massa address must start with AU or AS''
      else
        let typ = (if address ! 1 = CHR ''S'' then 1 else 0) :: byte in
        case b58_decode lib (drop 2 address) of
          None \<Rightarrow> fail ''failed to decode massa address: %w''
        | Some buf \<Rightarrow>
            if length buf < 4 then fail ''massa address too short''
            else
              let chk = drop (length buf - 4) buf; buf = take (length buf - 4) buf in
              if checksum4 cr buf \<noteq> chk then fail ''bad checksum on massa address''
              else Inr \<lparr>Name = ''massa'', Script = hex_encode (typ # buf), Flags = [''massa''], raw = typ # buf\<rparr>)"

definition ParseSolanaAddress :: "addr_lib \<Rightarrow> string \<Rightarrow> out result" where
  "ParseSolanaAddress lib address =
     (case b58_decode lib address of
        None \<Rightarrow> fail ''failed to decode solana address: %w''
      | Some buf \<Rightarrow>
          if length buf \<noteq> 32 then fail ''invalid solana address: expected 32 bytes, got %d''
          else Inr \<lparr>Name = ''solana'', Script = hex_encode buf, Flags = [''solana''], raw = buf\<rparr>)"

section \<open>Bitcoin and its relatives\<close>

definition p2pkh_out :: "bytes \<Rightarrow> string list \<Rightarrow> out" where
  "p2pkh_out buf flags = makeOut ''p2pkh'' ([0x76, 0xa9] @ PushBytes buf @ [0x88, 0xac]) flags"

definition p2sh_out :: "bytes \<Rightarrow> string list \<Rightarrow> out" where
  "p2sh_out buf flags = makeOut ''p2sh'' ([0xa9] @ PushBytes buf @ [0x87]) flags"

definition cash_out :: "nat \<times> bytes \<Rightarrow> out result" where
  "cash_out tb =
     (case tb of (typ, buf) \<Rightarrow>
        if typ = 0 then Inr (p2pkh_out buf [''bitcoin-cash''])
        else if typ = 1 then Inr (p2sh_out buf [''bitcoin-cash''])
        else fail ''unsupported bitcoincash address type %d'')"

definition segwit_net :: "string \<Rightarrow> string option" where
  "segwit_net hrp =
     map_of [(''ltc'', ''litecoin''), (''nc'', ''namecoin''), (''bc'', ''bitcoin''), (''tb'', ''bitcoin-testnet''),
             (''mona'', ''monacoin''), (''ep'', ''electraproto'')] hrp"

definition segwit_out :: "string \<Rightarrow> string \<Rightarrow> nat \<Rightarrow> bytes \<Rightarrow> out result" where
  "segwit_out network hrp typ buf =
     (case segwit_net hrp of
        None \<Rightarrow> fail ''unsupported hrp value %s''
      | Some net \<Rightarrow>
          if net \<noteq> network \<and> network \<noteq> ''auto'' then fail ''got a %s address where we expected a %s address''
          else if typ = 1 \<and> (net = ''bitcoin'' \<or> net = ''bitcoin-testnet'') \<and> length buf = 32
          then Inr (makeOut ''p2tr'' ([0x51] @ PushBytes buf) [net])
          else if typ \<noteq> 0 then fail ''unsupported segwit type %d''
          else if length buf = 20 then Inr (makeOut ''p2wpkh'' ([0x00] @ PushBytes buf) [net])
          else if length buf = 32 then Inr (makeOut ''p2wsh'' ([0x00] @ PushBytes buf) [net])
          else fail ''invalid segwit address length %d'')"

text \<open>
  The version bytes: for each the kind of output and its flags. A network whose switch has no default
  branch goes on to the next attempt (\<open>Inr None\<close>).
\<close>

datatype addr_kind = PKH | SH

definition kind_out :: "addr_kind \<Rightarrow> bytes \<Rightarrow> string list \<Rightarrow> out" where
  "kind_out k buf flags = (case k of PKH \<Rightarrow> p2pkh_out buf flags | SH \<Rightarrow> p2sh_out buf flags)"

definition auto_versions :: "(byte \<times> addr_kind \<times> string list) list" where
  "auto_versions =
     [(0x00, PKH, [''bitcoin'', ''bitcoin-cash'']), (0x05, SH, [''bitcoin'', ''bitcoin-cash'']), (0x0d, SH, [''namecoin'']),
      (0x10, SH, [''dash'']), (0x16, SH, [''dogecoin'']), (0x1e, PKH, [''dogecoin'']), (0x30, PKH, [''litecoin'']),
      (0x32, SH, [''litecoin'']), (0x34, PKH, [''namecoin'']), (0x37, SH, [''monacoin'']), (0x4c, PKH, [''dash'']),
      (0x6f, PKH, [''bitcoin-testnet'']), (0x89, SH, [''electraproto'']), (0xc4, SH, [''bitcoin-testnet''])]"

definition net_versions :: "(string \<times> (byte \<times> addr_kind) list) list" where
  "net_versions =
     [(''bitcoin'', [(0x00, PKH), (0x05, SH)]), (''bitcoin-cash'', [(0x00, PKH), (0x05, SH)]),
      (''bitcoin-testnet'', [(0x6f, PKH), (0xc4, SH)]), (''litecoin'', [(0x30, PKH), (0x32, SH)]),
      (''namecoin'', [(0x34, PKH), (0x0d, SH)]), (''dogecoin'', [(0x16, SH), (0x1e, PKH)]),
      (''monacoin'', [(0x32, PKH), (0x37, SH)]), (''electraproto'', [(0x37, PKH), (0x89, SH)]),
      (''dash'', [(0x4c, PKH), (0x10, SH)])]"

definition strict_nets :: "string list" where
  "strict_nets = [''bitcoin'', ''bitcoin-cash'', ''bitcoin-testnet'', ''litecoin'', ''namecoin'']"

definition base58_out :: "string \<Rightarrow> byte \<Rightarrow> bytes \<Rightarrow> out option result" where
  "base58_out network vers payload =
     (if network = ''auto'' then
        (case map_of auto_versions vers of
           Some (k, flags) \<Rightarrow> Inr (Some (kind_out k payload flags))
         | None \<Rightarrow> fail ''unsupported base58 address version=%x'')
      else
        case map_of net_versions network of
          None \<Rightarrow> fail ''unsupported %s network for address parsing''
        | Some vs \<Rightarrow>
            (case map_of vs vers of
               Some k \<Rightarrow> Inr (Some (kind_out k payload [network]))
             | None \<Rightarrow>
                 if network \<in> set strict_nets then fail ''unsupported %s base58 address version=%x'' else Inr None))"

text \<open>The attempt at base58: \<open>Inr None\<close> when the text is not base58 or its checksum is wrong.\<close>

definition parse_base58 :: "addr_lib \<Rightarrow> 'p crypto \<Rightarrow> string \<Rightarrow> string \<Rightarrow> out option result" where
  "parse_base58 lib cr network address =
     (case b58_decode lib address of
        None \<Rightarrow> Inr None
      | Some buf \<Rightarrow>
          if length buf < 5 then fail ''address too short''
          else
            let chk = drop (length buf - 4) buf; buf = take (length buf - 4) buf in
            if checksum4 cr buf \<noteq> chk then Inr None
            else if length buf \<noteq> 21 then fail ''invalid base58 address payload length %d''
            else bindE (idx buf 0) (\<lambda>vers. bindE (slice_from buf 1) (\<lambda>payload. base58_out network vers payload)))"

definition parse_bare_cash :: "addr_lib \<Rightarrow> string \<Rightarrow> string \<Rightarrow> out result" where
  "parse_bare_cash lib network address =
     (if network = ''auto'' \<or> network = ''bitcoin-cash'' then
        (case CashAddrDecode lib ''bitcoincash:'' (''bitcoincash:'' @ address) of
           Some tb \<Rightarrow> cash_out tb
         | None \<Rightarrow> fail ''unsupported address %s'')
      else fail ''unsupported address %s'')"

definition segwit_attempt :: "addr_lib \<Rightarrow> string \<Rightarrow> (string \<times> nat \<times> bytes) option" where
  "segwit_attempt lib address =
     (case last_index_byte (CHR ''1'') address of
        Some pos \<Rightarrow>
          if pos > 0 then
            map_option (\<lambda>tb. (take pos address, tb)) (SegwitAddrDecode lib (take pos address) address)
          else None
      | None \<Rightarrow> None)"

definition ParseBitcoinBasedAddress :: "addr_lib \<Rightarrow> 'p crypto \<Rightarrow> string \<Rightarrow> string \<Rightarrow> out result" where
  "ParseBitcoinBasedAddress lib cr network address =
     (if has_prefix address ''bitcoincash:'' then
        if network \<noteq> ''bitcoin-cash'' \<and> network \<noteq> ''auto'' then fail ''bitcoincash address provided while expecting a %s address''
        else
          (case CashAddrDecode lib ''bitcoincash:'' address of
             None \<Rightarrow> fail ''failed to parse bitcoin cash address: %s''
           | Some tb \<Rightarrow> cash_out tb)
      else
        case segwit_attempt lib address of
          Some (hrp, typ, buf) \<Rightarrow> segwit_out network hrp typ buf
        | None \<Rightarrow>
            bindE (parse_base58 lib cr network address) (\<lambda>r.
            case r of Some o' \<Rightarrow> Inr o' | None \<Rightarrow> parse_bare_cash lib network address))"

definition ParseBitcoinAddress :: "addr_lib \<Rightarrow> 'p crypto \<Rightarrow> string \<Rightarrow> out result" where
  "ParseBitcoinAddress lib cr address = ParseBitcoinBasedAddress lib cr ''auto'' address"

section \<open>Writing addresses\<close>

definition baseName :: "out \<Rightarrow> string" where
  "baseName o' = (case index_byte (CHR '':'') (Name o') of Some pos \<Rightarrow> take pos (Name o') | None \<Rightarrow> Name o')"

definition encodeBase58addr :: "addr_lib \<Rightarrow> 'p crypto \<Rightarrow> byte \<Rightarrow> bytes \<Rightarrow> string" where
  "encodeBase58addr lib cr vers buf = (let buf = [vers] @ buf in b58_encode lib (buf @ checksum4 cr buf))"

definition pkh_versions :: "(string \<times> byte) list" where
  "pkh_versions =
     [(''litecoin'', 0x30), (''namecoin'', 0x34), (''dogecoin'', 0x1e), (''monacoin'', 0x32), (''electraproto'', 0x37),
      (''dash'', 0x4c), (''bitcoin-testnet'', 0x6f), (''bitcoin'', 0)]"

definition sh_versions :: "(string \<times> byte) list" where
  "sh_versions =
     [(''litecoin'', 0x32), (''namecoin'', 0x0d), (''dogecoin'', 0x16), (''monacoin'', 0x37), (''electraproto'', 0x89),
      (''dash'', 0x10), (''bitcoin-testnet'', 0xc4), (''bitcoin'', 0x05)]"

definition hash_address :: "addr_lib \<Rightarrow> 'p crypto \<Rightarrow> (string \<times> byte) list \<Rightarrow> nat \<Rightarrow> string \<Rightarrow> bytes option \<Rightarrow> string \<Rightarrow> string result" where
  "hash_address lib cr versions cash msg buf net =
     (case buf of
        None \<Rightarrow> fail ''invalid script for address type''
      | Some buf \<Rightarrow>
          if net \<in> {''bitcoin-cash'', ''bitcoincash''} then CashAddrEncode lib ''bitcoincash:'' cash buf
          else
            (case map_of versions net of
               Some vers \<Rightarrow> Inr (encodeBase58addr lib cr vers buf)
             | None \<Rightarrow> fail msg))"

definition segwit_hrps :: "(string \<times> string) list" where
  "segwit_hrps =
     [(''litecoin'', ''ltc''), (''namecoin'', ''nc''), (''bitcoin'', ''bc''), (''bitcoin-testnet'', ''tb''), (''monacoin'', ''mona''),
      (''electraproto'', ''ep'')]"

definition witness_address :: "addr_lib \<Rightarrow> (string \<times> string) list \<Rightarrow> nat \<Rightarrow> bytes \<Rightarrow> string \<Rightarrow> string result" where
  "witness_address lib hrps vers r net =
     bindE (slice_from r 1) (\<lambda>t.
     let buf = (case fst (ParsePushBytes t) of Some b \<Rightarrow> b | None \<Rightarrow> []) in
     case map_of hrps net of
       Some hrp \<Rightarrow> SegwitAddrEncode lib hrp vers buf
     | None \<Rightarrow> fail ''could not transform outscript of format %s'')"

definition massa_address :: "addr_lib \<Rightarrow> 'p crypto \<Rightarrow> bytes \<Rightarrow> string result" where
  "massa_address lib cr r =
     bindE (idx r 0) (\<lambda>typ.
     bindE (slice_from r 1) (\<lambda>buf.
     let text = b58_encode lib (buf @ checksum4 cr buf) in
     if typ = 0 then Inr (''AU'' @ text)
     else if typ = 1 then Inr (''AS'' @ text)
     else fail ''unsupported value for massa address type: %d''))"

definition Out_Address :: "addr_lib \<Rightarrow> 'p crypto \<Rightarrow> out \<Rightarrow> string list \<Rightarrow> string result" where
  "Out_Address lib cr o' flags =
     (let flags = flags @ Flags o'; net = (case flags of [] \<Rightarrow> '''' | f # _ \<Rightarrow> f); r = raw o'; name = baseName o' in
      if name = ''solana'' then Inr (b58_encode lib r)
      else if name = ''cardano'' then cardanoAddressFromOut r net
      else if name \<in> {''eth'', ''evm''} then eip55 cr r
      else if name = ''tron'' then Inr (EncodeTronAddress lib cr r)
      else if name = ''massa_pubkey'' then Inr (''P'' @ b58_encode lib (r @ checksum4 cr r))
      else if name = ''massa'' then massa_address lib cr r
      else if name \<in> {''p2pkh'', ''p2pukh''} then
        bindE (subslice r 2 (length r - 2)) (\<lambda>buf.
        hash_address lib cr pkh_versions 0 ''unsupported network %q for p2pkh address'' (fst (ParsePushBytes buf)) net)
      else if name = ''p2sh'' then
        bindE (subslice r 1 (length r - 1)) (\<lambda>buf.
        hash_address lib cr sh_versions 1 ''unsupported network %q for p2sh address'' (fst (ParsePushBytes buf)) net)
      else if name \<in> {''p2wpkh'', ''p2wsh''} then witness_address lib segwit_hrps 0 r net
      else if name = ''p2tr'' then witness_address lib [(''bitcoin'', ''bc''), (''bitcoin-testnet'', ''tb'')] 1 r net
      else fail ''could not transform outscript of format %s'')"

definition Script_Address :: "addr_lib \<Rightarrow> 'p crypto \<Rightarrow> string \<Rightarrow> string list \<Rightarrow> script \<Rightarrow> string result \<times> script" where
  "Script_Address lib cr name flags s =
     (let (r, s) = Script_Out cr name s in (bindE r (\<lambda>o'. Out_Address lib cr o' flags), s))"

section \<open>What the code relies on\<close>

text \<open>
  The libraries decode what they encode; base58 has no colon, a CashAddr text starts with its prefix
  and a SegWit text is its prefix, a separator and characters other than \<open>1\<close>.
\<close>

definition addr_ok :: "addr_lib \<Rightarrow> bool" where
  "addr_ok lib \<longleftrightarrow>
     (\<forall>b. b58_decode lib (b58_encode lib b) = Some b \<and> CHR '':'' \<notin> set (b58_encode lib b)) \<and>
     (\<forall>p t b a. CashAddrEncode lib p t b = Inr a \<longrightarrow> has_prefix a p \<and> CashAddrDecode lib p a = Some (t, b)) \<and>
     (\<forall>hrp v b a. SegwitAddrEncode lib hrp v b = Inr a \<longrightarrow>
        SegwitAddrDecode lib hrp a = Some (v, b) \<and> (\<exists>d. a = hrp @ CHR ''1'' # d \<and> CHR ''1'' \<notin> set d))"

definition checksums_ok :: "'p crypto \<Rightarrow> bool" where
  "checksums_ok cr \<longleftrightarrow> (\<forall>b. 4 \<le> length (chash cr [Sha256New, Sha256New] b))"

lemma addr_okD:
  assumes "addr_ok lib"
  shows "b58_decode lib (b58_encode lib b) = Some b" "CHR '':'' \<notin> set (b58_encode lib b)"
    "CashAddrEncode lib p t b = Inr a \<Longrightarrow> has_prefix a p \<and> CashAddrDecode lib p a = Some (t, b)"
    "SegwitAddrEncode lib hrp v b = Inr a \<Longrightarrow>
      SegwitAddrDecode lib hrp a = Some (v, b) \<and> (\<exists>d. a = hrp @ CHR ''1'' # d \<and> CHR ''1'' \<notin> set d)"
  using assms by (simp_all add: addr_ok_def)

lemma length_checksum: "checksums_ok cr \<Longrightarrow> length (checksum4 cr b) = 4"
  by (simp add: checksums_ok_def)

section \<open>Hash addresses\<close>

lemma base58_not_cash: "addr_ok lib \<Longrightarrow> \<not> has_prefix (b58_encode lib b) ''bitcoincash:''"
proof
  assume ok: "addr_ok lib" and "has_prefix (b58_encode lib b) ''bitcoincash:''"
  then have "take (length ''bitcoincash:'') (b58_encode lib b) = ''bitcoincash:''" by (simp only: has_prefix_def)
  moreover have "CHR '':'' \<in> set ''bitcoincash:''" by simp
  ultimately have "CHR '':'' \<in> set (take (length ''bitcoincash:'') (b58_encode lib b))" by (simp only:)
  then have "CHR '':'' \<in> set (b58_encode lib b)" by (rule in_set_takeD)
  with addr_okD(2) [OF ok] show False by blast
qed

lemma parse_encoded_base58:
  assumes "addr_ok lib" "checksums_ok cr" "length h = 20" "segwit_attempt lib (encodeBase58addr lib cr vers h) = None"
  shows "ParseBitcoinBasedAddress lib cr network (encodeBase58addr lib cr vers h) =
    bindE (base58_out network vers h) (\<lambda>r.
      case r of Some o' \<Rightarrow> Inr o' | None \<Rightarrow> parse_bare_cash lib network (encodeBase58addr lib cr vers h))"
proof -
  have "parse_base58 lib cr network (encodeBase58addr lib cr vers h) = base58_out network vers h"
    using assms(1,3) length_checksum [OF assms(2), of "vers # h"] addr_okD(1) [OF assms(1)]
    by (simp add: parse_base58_def encodeBase58addr_def Let_def)
  with assms(4) base58_not_cash [OF assms(1)] show ?thesis
    by (simp add: ParseBitcoinBasedAddress_def) (simp add: encodeBase58addr_def)
qed

lemma parse_push_of_hash: "length h = 20 \<Longrightarrow> ParsePushBytes (PushBytes h) = (Some h, 21)"
  using ParsePushBytes_PushBytes_append [of h "[]"] by (simp add: length_PushBytes)

definition kind_versions :: "addr_kind \<Rightarrow> (string \<times> byte) list" where
  "kind_versions k = (case k of PKH \<Rightarrow> pkh_versions | SH \<Rightarrow> sh_versions)"

lemma kind_address:
  assumes "length h = 20"
  shows "Out_Address lib cr (kind_out k h [net]) [] =
    (if net \<in> {''bitcoin-cash'', ''bitcoincash''} then CashAddrEncode lib ''bitcoincash:'' (case k of PKH \<Rightarrow> 0 | SH \<Rightarrow> 1) h
     else case map_of (kind_versions k) net of
       Some vers \<Rightarrow> Inr (encodeBase58addr lib cr vers h)
     | None \<Rightarrow> fail (case k of PKH \<Rightarrow> ''unsupported network %q for p2pkh address'' | SH \<Rightarrow> ''unsupported network %q for p2sh address''))"
proof -
  have "length (PushBytes h) = 21" using assms by (simp add: length_PushBytes)
  with parse_push_of_hash [OF assms] show ?thesis
    by (cases k) (simp_all add: Out_Address_def kind_out_def p2pkh_out_def p2sh_out_def makeOut_def baseName_def hash_address_def
        kind_versions_def Let_def split: option.splits)
qed

lemma versions_agree:
  assumes "map_of (kind_versions k) net = Some vers" "net \<noteq> ''bitcoin-cash''"
  shows "base58_out net vers h = Inr (Some (kind_out k h [net]))"
  using assms
  by (cases k) (auto simp: kind_versions_def pkh_versions_def sh_versions_def base58_out_def net_versions_def split: if_splits)

end
