(* ===== verification/AddressProps.thy ===== *)
theory AddressProps
  imports Address
begin

text \<open>
  What addresses promise: an output written as an address parses back to the output, for every
  network, kind and account type; what automatic detection of the network may mistake; no parser
  panics.
\<close>

section \<open>Outputs with an address\<close>

definition witness_out :: "string \<Rightarrow> bytes \<Rightarrow> string \<Rightarrow> out" where
  "witness_out name h net = makeOut name ((if name = ''p2tr'' then 0x51 else 0x00) # PushBytes h) [net]"

lemma fields_witness: "Name (witness_out n h net) = n" "Flags (witness_out n h net) = [net]"
  by (simp_all add: witness_out_def makeOut_def)

inductive standard_out :: "out \<Rightarrow> string \<Rightarrow> bool" where
  hash_kind: "length h = 20 \<Longrightarrow> net \<noteq> ''bitcoincash'' \<Longrightarrow> standard_out (kind_out k h [net]) net"
| p2wpkh: "length h = 20 \<Longrightarrow> standard_out (witness_out ''p2wpkh'' h net) net"
| p2wsh: "length h = 32 \<Longrightarrow> standard_out (witness_out ''p2wsh'' h net) net"
| p2tr: "length h = 32 \<Longrightarrow> standard_out (witness_out ''p2tr'' h net) net"

text \<open>A base58 address that happens to be a valid SegWit text as well is taken for the latter.\<close>

definition not_segwit :: "addr_lib \<Rightarrow> string \<Rightarrow> bool" where
  "not_segwit lib a \<longleftrightarrow> has_prefix a ''bitcoincash:'' \<or> segwit_attempt lib a = None"

lemma cash_roundtrip:
  assumes "addr_ok lib" "CashAddrEncode lib ''bitcoincash:'' (case k of PKH \<Rightarrow> 0 | SH \<Rightarrow> 1) h = Inr a" "network \<in> {''bitcoin-cash'', ''auto''}"
  shows "ParseBitcoinBasedAddress lib cr network a = Inr (kind_out k h [''bitcoin-cash''])"
  using addr_okD(3) [OF assms(1,2)] assms(3)
  by (cases k) (auto simp: ParseBitcoinBasedAddress_def cash_out_def kind_out_def)

lemma kind_roundtrip:
  assumes "addr_ok lib" "checksums_ok cr" "length h = 20" "net \<noteq> ''bitcoincash''"
    and "Out_Address lib cr (kind_out k h [net]) [] = Inr a" "not_segwit lib a"
  shows "ParseBitcoinBasedAddress lib cr net a = Inr (kind_out k h [net])"
proof (cases "net = ''bitcoin-cash''")
  case True
  with assms(5) have "CashAddrEncode lib ''bitcoincash:'' (case k of PKH \<Rightarrow> 0 | SH \<Rightarrow> 1) h = Inr a"
    unfolding kind_address [OF assms(3)] by simp
  with True show ?thesis by (simp add: cash_roundtrip [OF assms(1)])
next
  case False
  with assms(4,5) obtain vers where v: "map_of (kind_versions k) net = Some vers" "a = encodeBase58addr lib cr vers h"
    unfolding kind_address [OF assms(3)] by (auto split: option.splits)
  have "segwit_attempt lib (encodeBase58addr lib cr vers h) = None"
    using assms(6) base58_not_cash [OF assms(1)] v(2) by (auto simp: not_segwit_def encodeBase58addr_def)
  from parse_encoded_base58 [OF assms(1-3) this] versions_agree [OF v(1) False] v(2) show ?thesis by simp
qed

lemma segwit_nets:
  "map_of segwit_hrps net = Some hrp \<Longrightarrow>
    segwit_net hrp = Some net \<and> hrp \<noteq> [] \<and> net \<noteq> ''auto'' \<and> \<not> has_prefix (hrp @ CHR ''1'' # t) ''bitcoincash:''"
  by (auto simp: segwit_hrps_def segwit_net_def has_prefix_def split: if_splits)

lemma segwit_roundtrip:
  assumes "addr_ok lib" "map_of segwit_hrps net = Some hrp" "SegwitAddrEncode lib hrp v b = Inr a"
  shows "ParseBitcoinBasedAddress lib cr network a = segwit_out network hrp v b"
proof -
  from addr_okD(4) [OF assms(1,3)] obtain d where dec: "SegwitAddrDecode lib hrp a = Some (v, b)" "a = hrp @ CHR ''1'' # d"
    "CHR ''1'' \<notin> set d" by blast
  with segwit_nets [OF assms(2), of d] last_index_byte_append [of _ d hrp] show ?thesis
    by (simp add: ParseBitcoinBasedAddress_def segwit_attempt_def)
qed

lemma push_of_program: "length h \<le> 75 \<Longrightarrow> fst (ParsePushBytes (PushBytes h)) = Some h"
  using ParsePushBytes_PushBytes_append [of h "[]"] by simp

lemma witness_out_address:
  assumes "name \<in> {''p2wpkh'', ''p2wsh'', ''p2tr''}" "length h \<le> 75"
  shows "Out_Address lib cr (witness_out name h net) [] =
    (case map_of (if name = ''p2tr'' then [(''bitcoin'', ''bc''), (''bitcoin-testnet'', ''tb'')] else segwit_hrps) net of
       Some hrp \<Rightarrow> SegwitAddrEncode lib hrp (if name = ''p2tr'' then 1 else 0) h
     | None \<Rightarrow> fail ''could not transform outscript of format %s'')"
proof -
  have push: "fst (ParsePushBytes (PushBytes h)) = Some h" by (rule push_of_program [OF assms(2)])
  from assms(1) consider "name = ''p2wpkh''" | "name = ''p2wsh''" | "name = ''p2tr''" by blast
  then show ?thesis
    by cases (simp_all add: Out_Address_def witness_out_def makeOut_def baseName_def witness_address_def Let_def push split: option.split)
qed

lemma p2tr_nets: "map_of [(''bitcoin'', ''bc''), (''bitcoin-testnet'', ''tb'')] net = Some hrp \<Longrightarrow>
    map_of segwit_hrps net = Some hrp \<and> (net = ''bitcoin'' \<or> net = ''bitcoin-testnet'')"
  by (auto simp: segwit_hrps_def split: if_splits)

lemma witness_roundtrip:
  assumes "addr_ok lib" "Out_Address lib cr (witness_out name h net) [] = Inr a" "network = net \<or> network = ''auto''"
    and "name = ''p2wpkh'' \<and> length h = 20 \<or> name = ''p2wsh'' \<and> length h = 32 \<or> name = ''p2tr'' \<and> length h = 32"
  shows "ParseBitcoinBasedAddress lib cr network a = Inr (witness_out name h net)"
proof -
  have name: "name \<in> {''p2wpkh'', ''p2wsh'', ''p2tr''}" "length h \<le> 75" using assms(4) by auto
  note addr = assms(2) [unfolded witness_out_address [OF name]]
  obtain hrp where hrp: "map_of segwit_hrps net = Some hrp" "SegwitAddrEncode lib hrp (if name = ''p2tr'' then 1 else 0) h = Inr a"
    "name = ''p2tr'' \<Longrightarrow> net = ''bitcoin'' \<or> net = ''bitcoin-testnet''"
    using addr p2tr_nets [of net] by (cases "name = ''p2tr''") (auto split: option.splits)
  have net: "segwit_net hrp = Some net" using segwit_nets [OF hrp(1)] by blast
  have "segwit_out network hrp (if name = ''p2tr'' then 1 else 0) h = Inr (witness_out name h net)"
    using assms(3,4) hrp(3) by (elim disjE conjE) (simp_all add: segwit_out_def witness_out_def net)
  then show ?thesis by (simp add: segwit_roundtrip [OF assms(1) hrp(1,2)])
qed

section \<open>Example libraries\<close>

text \<open>Hexadecimal text with another letter for the digit \<open>1\<close>.\<close>

definition toy_text :: "bytes \<Rightarrow> string" where
  "toy_text b = map (\<lambda>c. if c = CHR ''1'' then CHR ''z'' else c) (hex_encode b)"

definition toy_untext :: "string \<Rightarrow> bytes option" where
  "toy_untext s =
     (case hex_decode (map (\<lambda>c. if c = CHR ''z'' then CHR ''1'' else c) s) of Inr b \<Rightarrow> Some b | Inl e \<Rightarrow> None)"

definition toy_addr :: addr_lib where
  "toy_addr =
     \<lparr>b58_encode = toy_text, b58_decode = toy_untext,
      CashAddrEncode = (\<lambda>p t b. if t < 256 then Inr (p @ toy_text (word_of_nat t # b)) else fail ''version''),
      CashAddrDecode = (\<lambda>p a. case toy_untext (drop (length p) a) of Some (t # b) \<Rightarrow> Some (unat t, b) | _ \<Rightarrow> None),
      SegwitAddrEncode = (\<lambda>hrp v b. if v < 256 then Inr (hrp @ CHR ''1'' # toy_text (word_of_nat v # b)) else fail ''version''),
      SegwitAddrDecode = (\<lambda>hrp a. case toy_untext (drop (Suc (length hrp)) a) of Some (v # b) \<Rightarrow> Some (unat v, b) | _ \<Rightarrow> None)\<rparr>"

lemma hex_digit_chars: "n < 16 \<Longrightarrow> hex_digit n \<noteq> CHR '':'' \<and> hex_digit n \<noteq> CHR ''z''"
proof -
  assume "n < 16"
  then have "n \<in> {0,1,2,3,4,5,6,7,8,9,10,11,12,13,14,15}" by (simp, arith)
  then show ?thesis by (elim insertE) (simp_all add: hex_digit_def)
qed

lemma hex_encode_chars: "CHR '':'' \<notin> set (hex_encode b) \<and> CHR ''z'' \<notin> set (hex_encode b)"
proof (induction b)
  case (Cons x b)
  have "unat x div 16 < 16" using unat_byte_less [of x] by linarith
  with Cons hex_digit_chars [of "unat x div 16"] hex_digit_chars [of "unat x mod 16"] show ?case by auto
qed simp

lemma toy_untext_text [simp]: "toy_untext (toy_text b) = Some b"
proof -
  have "map ((\<lambda>c. if c = CHR ''z'' then CHR ''1'' else c) \<circ> (\<lambda>c. if c = CHR ''1'' then CHR ''z'' else c)) (hex_encode b) = hex_encode b"
    using hex_encode_chars [of b] by (intro map_idI) auto
  then show ?thesis by (simp add: toy_untext_def toy_text_def)
qed

lemma toy_text_chars: "CHR ''1'' \<notin> set (toy_text b)" "CHR '':'' \<notin> set (toy_text b)"
  using hex_encode_chars [of b] by (auto simp: toy_text_def)

lemma toy_addr_ok: "addr_ok toy_addr"
  using toy_text_chars
  by (auto simp: addr_ok_def toy_addr_def has_prefix_def unat_of_nat take_bit_eq_mod split: if_splits)

lemma toy_checksums_ok: "checksums_ok toy_crypto"
  by (auto simp: checksums_ok_def toy_crypto_def min_def)

lemma toy_not_segwit: "not_segwit toy_addr (encodeBase58addr toy_addr cr vers h)"
  using index_byte_None [of "CHR ''1''" "rev (toy_text t)" for t] toy_text_chars(1)
  by (simp add: not_segwit_def segwit_attempt_def encodeBase58addr_def toy_addr_def last_index_byte_def Let_def)

section \<open>Round trips\<close>

lemma standard_address_back:
  assumes "addr_ok lib" "checksums_ok cr" "standard_out o' net" "Out_Address lib cr o' [] = Inr a"
    and "Name o' \<in> {''p2pkh'', ''p2sh''} \<longrightarrow> not_segwit lib a"
  shows "ParseBitcoinBasedAddress lib cr net a = Inr o'"
  using assms(3)
proof cases
  case (hash_kind h k)
  have "Name (kind_out k h [net]) \<in> {''p2pkh'', ''p2sh''}"
    by (cases k) (simp_all add: kind_out_def p2pkh_out_def p2sh_out_def makeOut_def)
  with hash_kind assms kind_roundtrip show ?thesis by blast
next
  case (p2wpkh h)
  with assms(4) show ?thesis by (simp add: witness_roundtrip [OF assms(1)])
next
  case (p2wsh h)
  with assms(4) show ?thesis by (simp add: witness_roundtrip [OF assms(1)])
next
  case (p2tr h)
  with assms(4) show ?thesis by (simp add: witness_roundtrip [OF assms(1)])
qed

text \<open>
  C9: an output of a standard kind, written as the address of its network, parses for that network
  back to the very same output: the version bytes, prefixes and kinds of the writer and the parser
  agree for all nine networks.
\<close>

theorem btc_address_roundtrip:
  assumes "addr_ok lib" "checksums_ok cr" "standard_out o' net" "Out_Address lib cr o' [] = Inr a"
    and "Name o' \<in> {''p2pkh'', ''p2sh''} \<longrightarrow> not_segwit lib a"
  shows "ParseBitcoinBasedAddress lib cr net a = Inr o'"
  using assms by (rule standard_address_back)

theorem btc_address_roundtrip_witness:
  "\<exists>a b c. Out_Address toy_addr toy_crypto (kind_out PKH (replicate 20 7) [''dogecoin'']) [] = Inr a \<and>
    ParseBitcoinBasedAddress toy_addr toy_crypto ''dogecoin'' a = Inr (kind_out PKH (replicate 20 7) [''dogecoin'']) \<and>
    Out_Address toy_addr toy_crypto (kind_out SH (replicate 20 7) [''bitcoin-cash'']) [] = Inr b \<and>
    ParseBitcoinBasedAddress toy_addr toy_crypto ''bitcoin-cash'' b = Inr (kind_out SH (replicate 20 7) [''bitcoin-cash'']) \<and>
    Out_Address toy_addr toy_crypto (witness_out ''p2tr'' (replicate 32 7) ''bitcoin'') [] = Inr c \<and>
    ParseBitcoinBasedAddress toy_addr toy_crypto ''bitcoin'' c = Inr (witness_out ''p2tr'' (replicate 32 7) ''bitcoin'')"
proof -
  note rt = btc_address_roundtrip [OF toy_addr_ok toy_checksums_ok]
  let ?a = "encodeBase58addr toy_addr toy_crypto 0x1e (replicate 20 7)"
  have a: "Out_Address toy_addr toy_crypto (kind_out PKH (replicate 20 7) [''dogecoin'']) [] = Inr ?a"
    unfolding kind_address [OF length_replicate] by (simp add: kind_versions_def pkh_versions_def)
  let ?b = "''bitcoincash:'' @ toy_text (1 # replicate 20 7)"
  have b: "Out_Address toy_addr toy_crypto (kind_out SH (replicate 20 7) [''bitcoin-cash'']) [] = Inr ?b"
    unfolding kind_address [OF length_replicate] by (simp add: toy_addr_def)
  let ?c = "''bc1'' @ toy_text (1 # replicate 32 7)"
  have c: "Out_Address toy_addr toy_crypto (witness_out ''p2tr'' (replicate 32 7) ''bitcoin'') [] = Inr ?c"
    by (subst witness_out_address) (simp_all add: toy_addr_def)
  have "ParseBitcoinBasedAddress toy_addr toy_crypto ''dogecoin'' ?a = Inr (kind_out PKH (replicate 20 7) [''dogecoin''])"
    by (rule rt [OF _ a]) (simp_all add: standard_out.hash_kind toy_not_segwit)
  moreover have "not_segwit toy_addr ?b" by (simp add: not_segwit_def has_prefix_def)
  then have "ParseBitcoinBasedAddress toy_addr toy_crypto ''bitcoin-cash'' ?b = Inr (kind_out SH (replicate 20 7) [''bitcoin-cash''])"
    by (intro rt [OF _ b]) (simp_all only: standard_out.hash_kind length_replicate, simp_all add: standard_out.hash_kind)
  moreover have "ParseBitcoinBasedAddress toy_addr toy_crypto ''bitcoin'' ?c = Inr (witness_out ''p2tr'' (replicate 32 7) ''bitcoin'')"
    by (rule rt [OF _ c]) (simp_all add: standard_out.p2tr fields_witness)
  ultimately show ?thesis using a b c by blast
qed

text \<open>
  C32: without a network the parser finds the output and one of its networks, except where two networks
  share a version byte: a Monacoin key hash is taken for a Litecoin script hash, and an Electraproto
  key hash for a Monacoin script hash.
\<close>

theorem auto_detects_network:
  assumes "addr_ok lib" "checksums_ok cr" "standard_out o' net" "Out_Address lib cr o' [] = Inr a"
    and "Name o' \<in> {''p2pkh'', ''p2sh''} \<longrightarrow> not_segwit lib a"
  shows "\<exists>d. ParseBitcoinAddress lib cr a = Inr d \<and>
    (if Name o' = ''p2pkh'' \<and> net = ''monacoin'' then Name d = ''p2sh'' \<and> Flags d = [''litecoin'']
     else if Name o' = ''p2pkh'' \<and> net = ''electraproto'' then Name d = ''p2sh'' \<and> Flags d = [''monacoin'']
     else Name d = Name o' \<and> raw d = raw o' \<and> net \<in> set (Flags d))"
  using assms(3)
proof cases
  case (hash_kind h k)
  have kind: "Name o' \<in> {''p2pkh'', ''p2sh''}"
    unfolding hash_kind(1) by (cases k) (simp_all add: kind_out_def p2pkh_out_def p2sh_out_def makeOut_def)
  note addr = assms(4) [unfolded hash_kind(1) kind_address [OF hash_kind(2)]]
  show ?thesis
  proof (cases "net = ''bitcoin-cash''")
    case True
    with addr have "CashAddrEncode lib ''bitcoincash:'' (case k of PKH \<Rightarrow> 0 | SH \<Rightarrow> 1) h = Inr a" by simp
    with True show ?thesis
      by (simp add: ParseBitcoinAddress_def cash_roundtrip [OF assms(1)] hash_kind(1))
        (cases k; simp add: kind_out_def p2pkh_out_def p2sh_out_def makeOut_def)
  next
    case False
    with addr hash_kind(3) obtain vers where v: "map_of (kind_versions k) net = Some vers" "a = encodeBase58addr lib cr vers h"
      by (auto split: option.splits)
    have "segwit_attempt lib (encodeBase58addr lib cr vers h) = None"
      using assms(5) kind base58_not_cash [OF assms(1)] v(2) by (auto simp: not_segwit_def encodeBase58addr_def)
    note parse = parse_encoded_base58 [OF assms(1,2) hash_kind(2) this, of "''auto''", folded v(2)]
    obtain k' flags where auto: "map_of auto_versions vers = Some (k', flags)"
      "if k = PKH \<and> net = ''monacoin'' then k' = SH \<and> flags = [''litecoin'']
       else if k = PKH \<and> net = ''electraproto'' then k' = SH \<and> flags = [''monacoin'']
       else k' = k \<and> net \<in> set flags"
      using v(1) by (cases k) (auto simp: kind_versions_def pkh_versions_def sh_versions_def auto_versions_def split: if_splits)
    have "ParseBitcoinAddress lib cr a = Inr (kind_out k' h flags)"
      by (simp add: ParseBitcoinAddress_def parse base58_out_def auto(1))
    with auto(2) show ?thesis
      by (cases k; cases k') (auto simp: hash_kind(1) kind_out_def p2pkh_out_def p2sh_out_def makeOut_def split: if_splits)
  qed
qed (use assms(4) in \<open>simp_all add: ParseBitcoinAddress_def witness_roundtrip [OF assms(1)] fields_witness\<close>)

theorem auto_detects_network_witness:
  "\<exists>a d. Out_Address toy_addr toy_crypto (kind_out PKH (replicate 20 7) [''monacoin'']) [] = Inr a \<and>
    ParseBitcoinAddress toy_addr toy_crypto a = Inr d \<and> Name d = ''p2sh'' \<and> Flags d = [''litecoin'']"
proof -
  let ?a = "encodeBase58addr toy_addr toy_crypto 0x32 (replicate 20 7)"
  have a: "Out_Address toy_addr toy_crypto (kind_out PKH (replicate 20 7) [''monacoin'']) [] = Inr ?a"
    unfolding kind_address [OF length_replicate] by (simp add: kind_versions_def pkh_versions_def)
  have std: "standard_out (kind_out PKH (replicate 20 7) [''monacoin'']) ''monacoin''" by (rule standard_out.hash_kind) simp_all
  have "Name (kind_out PKH (replicate 20 7) [''monacoin'']) = ''p2pkh''" by (simp add: kind_out_def p2pkh_out_def makeOut_def)
  with auto_detects_network [OF toy_addr_ok toy_checksums_ok std a] a toy_not_segwit show ?thesis by auto
qed

section \<open>Accounts\<close>

text \<open>
  The account outputs with their parsers. An EVM address is checksummed with a hash of at least its own
  length.
\<close>

abbreviation account_out :: "string \<Rightarrow> string \<Rightarrow> bytes \<Rightarrow> out" where
  "account_out name flag r \<equiv> \<lparr>Name = name, Script = hex_encode r, Flags = [flag], raw = r\<rparr>"

inductive account_parser :: "go_unicode \<Rightarrow> addr_lib \<Rightarrow> 'p crypto \<Rightarrow> out \<Rightarrow> (string \<Rightarrow> out result) \<Rightarrow> bool"
  for uni lib cr where
  evm: "length r = 20 \<Longrightarrow> 20 \<le> length (chash cr [Keccak256New] (str_bytes (hex_encode r))) \<Longrightarrow>
    account_parser uni lib cr (account_out ''eth'' ''evm'' r) (ParseEvmAddress uni cr)"
| tron: "length r = 20 \<Longrightarrow> account_parser uni lib cr (account_out ''tron'' ''tron'' (0x41 # r)) (ParseTronAddress lib cr)"
| massa: "t \<le> 1 \<Longrightarrow> account_parser uni lib cr (account_out ''massa'' ''massa'' (t # r)) (ParseMassaAddress lib cr)"
| solana: "length r = 32 \<Longrightarrow> account_parser uni lib cr (account_out ''solana'' ''solana'' r) (ParseSolanaAddress lib)"

lemma hex_decode_length: "hex_decode s = Inr b \<Longrightarrow> length s = 2 * length b"
  by (induction s arbitrary: b rule: hex_decode.induct) (auto split: option.splits simp: bindE_Inr_iff)

lemma evm_address_roundtrip:
  assumes "length r = 20" "20 \<le> length (chash cr [Keccak256New] (str_bytes (hex_encode r)))"
  shows "\<exists>a. eip55 cr r = Inr a \<and> ParseEvmAddress uni cr a = Inr (account_out ''eth'' ''evm'' r)"
proof -
  from eip55_hex [of r cr] assms obtain s where s: "eip55 cr r = Inr (''0x'' @ s)" "hex_decode s = Inr r" by auto
  from hex_decode_length [OF s(2)] s assms(1) show ?thesis
    by (intro exI [of _ "''0x'' @ s"]) (simp add: ParseEvmAddress_def has_prefix_def Let_def wrapE_Inr_iff)
qed

text \<open>
  C31: an account is written as an address, and the parser of its chain reads the same account back:
  EVM with its mixed-case checksum, Tron with prefix and checksum, both kinds of Massa addresses and
  Solana.
\<close>

theorem account_address_roundtrip:
  assumes "addr_ok lib" "checksums_ok cr" "account_parser uni lib cr o' parse"
  shows "\<exists>a. Out_Address lib cr o' [] = Inr a \<and> parse a = Inr o'"
  using assms(3)
proof cases
  case (evm r)
  with evm_address_roundtrip [of r cr uni] show ?thesis by (auto simp: Out_Address_def baseName_def Let_def)
next
  case (tron r)
  then show ?thesis
    using addr_okD(1) [OF assms(1)] length_checksum [OF assms(2), of "0x41 # r"]
    by (simp add: Out_Address_def baseName_def EncodeTronAddress_def ParseTronAddress_def DecodeTronAddress_def tronAddressPrefix_def)
next
  case (massa t r)
  then have "unat t \<le> 1" by (simp add: word_le_nat_alt)
  then have "unat t = 0 \<or> unat t = 1" by linarith
  then have "t = 0 \<or> t = 1" by (simp add: word_unat_eq_iff)
  then show ?thesis unfolding massa
    using addr_okD(1) [OF assms(1)] length_checksum [OF assms(2), of r]
    by (auto simp: Out_Address_def baseName_def massa_address_def ParseMassaAddress_def has_prefix_def Let_def)
next
  case (solana r)
  then show ?thesis
    using addr_okD(1) [OF assms(1)] by (simp add: Out_Address_def baseName_def ParseSolanaAddress_def)
qed

theorem account_address_roundtrip_witness:
  "\<exists>a b c d. Out_Address toy_addr toy_crypto (account_out ''eth'' ''evm'' (replicate 20 7)) [] = Inr a \<and>
    ParseEvmAddress ascii_only toy_crypto a = Inr (account_out ''eth'' ''evm'' (replicate 20 7)) \<and>
    Out_Address toy_addr toy_crypto (account_out ''tron'' ''tron'' (0x41 # replicate 20 7)) [] = Inr b \<and>
    ParseTronAddress toy_addr toy_crypto b = Inr (account_out ''tron'' ''tron'' (0x41 # replicate 20 7)) \<and>
    Out_Address toy_addr toy_crypto (account_out ''massa'' ''massa'' [1, 7, 8]) [] = Inr c \<and>
    ParseMassaAddress toy_addr toy_crypto c = Inr (account_out ''massa'' ''massa'' [1, 7, 8]) \<and>
    Out_Address toy_addr toy_crypto (account_out ''solana'' ''solana'' (replicate 32 7)) [] = Inr d \<and>
    ParseSolanaAddress toy_addr d = Inr (account_out ''solana'' ''solana'' (replicate 32 7))"
proof -
  note rt = account_address_roundtrip [OF toy_addr_ok toy_checksums_ok]
  have "20 \<le> length (chash toy_crypto [Keccak256New] (str_bytes (hex_encode (replicate 20 7))))"
    by (simp add: toy_crypto_def)
  then show ?thesis
    using rt [OF account_parser.evm [where r = "replicate 20 7" and uni = ascii_only]] rt [OF account_parser.tron [where r = "replicate 20 7"]]
      rt [OF account_parser.massa [where t = 1 and r = "[7, 8]"]] rt [OF account_parser.solana [where r = "replicate 32 7"]] by simp
qed

end
