(* ===== verification/TronTx.thy ===== *)
theory TronTx
  imports Codec EvmSign AddressProps
begin

text \<open>
  Tron transactions (\<^verbatim>\<open>trontx.go\<close>): the protobuf writer, contracts, the transaction with its
  identifier, signing and the recovery of the signers. Contracts are not nil; a signed 64-bit number is
  the word that holds it. A reader of protobuf messages serves as the reference.
\<close>

section \<open>Transactions\<close>

type_synonym TronContractType = "32 word"

definition TronTransferContract :: TronContractType where "TronTransferContract = 1"

definition TronTransferAssetContract :: TronContractType where "TronTransferAssetContract = 2"

definition TronTriggerSmartContract :: TronContractType where "TronTriggerSmartContract = 31"

definition typeURL :: "TronContractType \<Rightarrow> string" where
  "typeURL t =
     (if t = TronTransferContract then ''type.googleapis.com/protocol.TransferContract''
      else if t = TronTransferAssetContract then ''type.googleapis.com/protocol.TransferAssetContract''
      else if t = TronTriggerSmartContract then ''type.googleapis.com/protocol.TriggerSmartContract''
      else '''')"

record tron_contract =
  ContractType :: TronContractType
  Parameter :: bytes

record tron_tx =
  RefBlockBytes :: bytes
  RefBlockHash :: bytes
  Expiration :: "64 word"
  Timestamp :: "64 word"
  FeeLimit :: "64 word"
  Contracts :: "tron_contract list"
  TronSignatures :: "bytes list"

section \<open>Protobuf\<close>

function pbVarint :: "64 word \<Rightarrow> bytes" where
  "pbVarint v = (if v \<ge> 0x80 then (ucast v OR 0x80) # pbVarint (drop_bit 7 v) else [ucast v])"
  by pat_completeness auto

termination pbVarint
proof (relation "measure unat")
  fix v :: "64 word"
  assume "0x80 \<le> v"
  then have "128 \<le> unat v" by (simp add: word_le_nat_alt)
  then show "(drop_bit 7 v, v) \<in> measure unat" by (simp add: unat_drop_bit)
qed simp

declare pbVarint.simps [simp del]

definition pbTag :: "nat \<Rightarrow> nat \<Rightarrow> bytes" where
  "pbTag field wire = pbVarint (push_bit 3 (word_of_nat field) OR word_of_nat wire)"

definition pbVarintField :: "nat \<Rightarrow> 64 word \<Rightarrow> bytes" where
  "pbVarintField field v = pbTag field 0 @ pbVarint v"

definition pbBytesField :: "nat \<Rightarrow> bytes \<Rightarrow> bytes" where
  "pbBytesField field b = pbTag field 2 @ pbVarint (word_of_nat (length b)) @ b"

section \<open>Contracts\<close>

definition checkTronAddress :: "bytes \<Rightarrow> unit result" where
  "checkTronAddress r =
     (if length r \<noteq> 21 then fail ''tron %s address must be 21 bytes, got %d''
      else bindE (idx r 0) (\<lambda>p. if p \<noteq> tronAddressPrefix then fail ''tron %s address must start with 0x41, got 0x%02x'' else Inr ()))"

definition NewTronTransferContract :: "bytes \<Rightarrow> bytes \<Rightarrow> 64 word \<Rightarrow> tron_contract result" where
  "NewTronTransferContract owner dest amount =
     bindE (checkTronAddress owner) (\<lambda>_.
     bindE (checkTronAddress dest) (\<lambda>_.
     if sint amount < 0 then fail ''tron transfer amount must not be negative: %d''
     else Inr \<lparr>ContractType = TronTransferContract,
       Parameter = pbBytesField 1 owner @ pbBytesField 2 dest @ (if amount \<noteq> 0 then pbVarintField 3 amount else [])\<rparr>))"

definition NewTronTriggerSmartContract :: "bytes \<Rightarrow> bytes \<Rightarrow> 64 word \<Rightarrow> bytes \<Rightarrow> tron_contract result" where
  "NewTronTriggerSmartContract owner contract callValue dat =
     bindE (checkTronAddress owner) (\<lambda>_.
     bindE (checkTronAddress contract) (\<lambda>_.
     if sint callValue < 0 then fail ''tron call value must not be negative: %d''
     else Inr \<lparr>ContractType = TronTriggerSmartContract,
       Parameter = pbBytesField 1 owner @ pbBytesField 2 contract @ (if callValue \<noteq> 0 then pbVarintField 3 callValue else []) @
         (if length dat > 0 then pbBytesField 4 dat else [])\<rparr>))"

definition AddTransfer :: "addr_lib \<Rightarrow> 'p crypto \<Rightarrow> string \<Rightarrow> string \<Rightarrow> 64 word \<Rightarrow> tron_tx \<Rightarrow> tron_tx result" where
  "AddTransfer lib cr from_addr to_addr amount tx =
     bindE (DecodeTronAddress lib cr from_addr) (\<lambda>f.
     bindE (DecodeTronAddress lib cr to_addr) (\<lambda>t.
     bindE (NewTronTransferContract f t amount) (\<lambda>c. Inr (tx\<lparr>Contracts := Contracts tx @ [c]\<rparr>))))"

definition AddTriggerSmartContract ::
  "addr_lib \<Rightarrow> 'p crypto \<Rightarrow> string \<Rightarrow> string \<Rightarrow> 64 word \<Rightarrow> bytes \<Rightarrow> tron_tx \<Rightarrow> tron_tx result" where
  "AddTriggerSmartContract lib cr from_addr contract callValue dat tx =
     bindE (DecodeTronAddress lib cr from_addr) (\<lambda>f.
     bindE (DecodeTronAddress lib cr contract) (\<lambda>c.
     bindE (NewTronTriggerSmartContract f c callValue dat) (\<lambda>sc. Inr (tx\<lparr>Contracts := Contracts tx @ [sc]\<rparr>))))"

definition AddTRC20Transfer ::
  "addr_lib \<Rightarrow> 'p crypto \<Rightarrow> string \<Rightarrow> string \<Rightarrow> string \<Rightarrow> int option \<Rightarrow> tron_tx \<Rightarrow> tron_tx result" where
  "AddTRC20Transfer lib cr from_addr contract to_addr amount tx =
     (case amount of
        None \<Rightarrow> fail ''tron TRC20 transfer amount must not be nil''
      | Some v \<Rightarrow>
          if v < 0 then fail ''tron TRC20 transfer amount must not be negative: %s''
          else
            bindE (DecodeTronAddress lib cr to_addr) (\<lambda>toRaw.
            bindE (slice_from toRaw 1) (\<lambda>a.
            bindE (EvmCall cr ''transfer(address,uint256)'' [ParamBytes a, ParamBig v]) (\<lambda>dat.
            AddTriggerSmartContract lib cr from_addr contract 0 dat tx))))"

section \<open>Serialization\<close>

definition TronContract_marshal :: "tron_contract \<Rightarrow> bytes result" where
  "TronContract_marshal c =
     (let url = typeURL (ContractType c) in
      if url = '''' then fail ''unsupported tron contract type %d''
      else
        let any = pbBytesField 1 (str_bytes url) @ pbBytesField 2 (Parameter c) in
        Inr (pbVarintField 1 (scast (ContractType c)) @ pbBytesField 2 any))"

definition RawData :: "tron_tx \<Rightarrow> bytes result" where
  "RawData tx =
     (if Contracts tx = [] then fail ''tron transaction has no contracts''
      else
        bindE (mapE TronContract_marshal (Contracts tx)) (\<lambda>cbs.
        Inr ((if length (RefBlockBytes tx) > 0 then pbBytesField 1 (RefBlockBytes tx) else []) @
             (if length (RefBlockHash tx) > 0 then pbBytesField 4 (RefBlockHash tx) else []) @
             (if Expiration tx \<noteq> 0 then pbVarintField 8 (Expiration tx) else []) @
             concat (map (pbBytesField 11) cbs) @
             (if Timestamp tx \<noteq> 0 then pbVarintField 14 (Timestamp tx) else []) @
             (if FeeLimit tx \<noteq> 0 then pbVarintField 18 (FeeLimit tx) else []))))"

definition TxID :: "'p crypto \<Rightarrow> tron_tx \<Rightarrow> bytes result" where
  "TxID cr tx = bindE (RawData tx) (\<lambda>r. Inr (sha256 cr r))"

definition TronTx_MarshalBinary :: "tron_tx \<Rightarrow> bytes result" where
  "TronTx_MarshalBinary tx =
     bindE (RawData tx) (\<lambda>r. Inr (pbBytesField 1 r @ concat (map (pbBytesField 2) (TronSignatures tx))))"

section \<open>Signatures\<close>

text \<open>\<open>FillBytes\<close> panics on a number that does not fit.\<close>

definition FillBytes32 :: "nat \<Rightarrow> bytes result" where
  "FillBytes32 n = (if n < 2 ^ 256 then Inr (be_encode 32 n) else Inl Panic)"

definition Tron_SignWithOptions :: "'k evm_lib \<Rightarrow> 'p crypto \<Rightarrow> 'k evm_signer \<Rightarrow> tron_tx \<Rightarrow> tron_tx result" where
  "Tron_SignWithOptions lib cr key tx =
     bindE (TxID cr tx) (\<lambda>txid.
     bindE (recoverable_sign lib key txid) (\<lambda>((r, s), v).
     bindE (FillBytes32 r) (\<lambda>rb.
     bindE (FillBytes32 s) (\<lambda>sb. Inr (tx\<lparr>TronSignatures := TronSignatures tx @ [rb @ sb @ [word_of_nat v]]\<rparr>)))))"

definition Tron_Sign :: "'k evm_lib \<Rightarrow> 'p crypto \<Rightarrow> 'k evm_signer \<Rightarrow> tron_tx \<Rightarrow> tron_tx result" where
  "Tron_Sign lib cr key tx = Tron_SignWithOptions lib cr key tx"

definition set_scalar :: "string \<Rightarrow> bytes \<Rightarrow> nat result" where
  "set_scalar msg b = (let n = be_decode b in if n \<ge> curve_order then fail msg else Inr n)"

definition recoverTronPubkey :: "'k evm_lib \<Rightarrow> bytes \<Rightarrow> bytes \<Rightarrow> 'k result" where
  "recoverTronPubkey lib txid sig =
     (if length sig \<noteq> 65 then fail ''tron signature must be 65 bytes, got %d''
      else
        bindE (subslice sig 0 32) (\<lambda>rb.
        bindE (set_scalar ''invalid signature: R >= group order'' rb) (\<lambda>r.
        bindE (subslice sig 32 64) (\<lambda>sb.
        bindE (set_scalar ''invalid signature: S >= group order'' sb) (\<lambda>s.
        bindE (idx sig 64) (\<lambda>v.
        if v > 3 then fail ''invalid signature recovery id: %d''
        else RecoverPublicKey lib (r, s) (unat v) txid))))))"

definition tron_key_address :: "'k evm_lib \<Rightarrow> addr_lib \<Rightarrow> 'p crypto \<Rightarrow> 'k \<Rightarrow> string result" where
  "tron_key_address lib alib cr pk = fst (Script_Address alib cr ''tron'' [] (New (encodings lib pk)))"

definition SignerAddresses :: "'k evm_lib \<Rightarrow> addr_lib \<Rightarrow> 'p crypto \<Rightarrow> tron_tx \<Rightarrow> string list result" where
  "SignerAddresses lib alib cr tx =
     bindE (TxID cr tx) (\<lambda>txid.
     mapE (\<lambda>sig. bindE (recoverTronPubkey lib txid sig) (tron_key_address lib alib cr)) (TronSignatures tx))"

section \<open>Reading protobuf\<close>

fun read_varint :: "nat decoder" where
  "read_varint [] = fail ''truncated''"
| "read_varint (b # bs) =
     (if b < 0x80 then Inr (unat b, bs) else bindE (read_varint bs) (\<lambda>(n, r). Inr (unat b - 128 + 128 * n, r)))"

lemma read_varint_pbVarint: "read_varint (pbVarint v @ rest) = Inr (unat v, rest)"
proof (induction v rule: pbVarint.induct)
  case (1 v)
  show ?case
  proof (cases "v \<ge> 0x80")
    case True
    define b where "b = (ucast v OR 0x80 :: byte)"
    have v: "unat (drop_bit 7 v) = unat v div 128" by (simp add: unat_drop_bit)
    have "b = take_bit 7 (ucast v) + 0x80"
    proof -
      have "b = take_bit 7 (ucast v) OR 0x80"
        by (rule bit_word_eqI) (auto simp: b_def bit_simps less_Suc_eq numeral_eq_Suc)
      also have "\<dots> = take_bit 7 (ucast v) + 0x80"
        by (rule disjunctive_add_eq_or [symmetric], rule bit_word_eqI) (auto simp: bit_simps less_Suc_eq numeral_eq_Suc)
      finally show ?thesis .
    qed
    moreover have "unat (take_bit 7 (ucast v :: byte)) = unat v mod 128"
      by (simp only: unsigned_take_bit_eq unsigned_ucast_eq) (simp add: take_bit_eq_mod mod_mod_cancel)
    ultimately have b: "unat b = unat v mod 128 + 128"
      by (simp add: unat_word_ariths)
    then have "\<not> b < 0x80" by (simp add: word_less_nat_alt)
    moreover have "pbVarint v = b # pbVarint (drop_bit 7 v)" using True by (subst pbVarint.simps) (simp add: b_def)
    ultimately show ?thesis using 1 [OF True] b v by simp
  next
    case False
    then have "unat v < 128" by (simp add: word_le_nat_alt not_le)
    then have "unat (ucast v :: byte) = unat v" by (simp add: unsigned_ucast_eq take_bit_eq_mod)
    with False \<open>unat v < 128\<close> show ?thesis
      by (subst pbVarint.simps) (simp add: word_less_nat_alt)
  qed
qed

interpretation pb_varint: codec pbVarint "\<lambda>bs. bindE (read_varint bs) (\<lambda>(n, r). Inr (word_of_nat n, r))" "\<lambda>_. True"
  by unfold_locales (simp add: read_varint_pbVarint)

text \<open>A varint takes one to ten bytes.\<close>

lemma pbVarint_length: "unat v < 128 ^ n \<Longrightarrow> 0 < n \<Longrightarrow> 0 < length (pbVarint v) \<and> length (pbVarint v) \<le> n"
proof (induction n arbitrary: v)
  case (Suc n)
  show ?case
  proof (cases "v \<ge> 0x80")
    case True
    then have ge: "128 \<le> unat v" by (simp add: word_le_nat_alt)
    have "unat (drop_bit 7 v) = unat v div 128" by (simp add: unat_drop_bit)
    with Suc.prems(1) have "unat (drop_bit 7 v) < 128 ^ n" by (simp add: less_mult_imp_div_less mult.commute)
    moreover have "0 < n" using ge Suc.prems(1) by (cases n) simp_all
    ultimately show ?thesis using Suc.IH [of "drop_bit 7 v"] True by (subst (1 2) pbVarint.simps) simp
  qed (subst (1 2) pbVarint.simps, simp)
qed simp

datatype pb_value = PbInt "64 word" | PbBytes bytes

definition pb_field :: "nat \<times> pb_value \<Rightarrow> bytes" where
  "pb_field fv = (case fv of (field, PbInt v) \<Rightarrow> pbVarintField field v | (field, PbBytes b) \<Rightarrow> pbBytesField field b)"

definition pb_ok :: "nat \<times> pb_value \<Rightarrow> bool" where
  "pb_ok fv = (case fv of (field, PbInt v) \<Rightarrow> field < 2 ^ 29 | (field, PbBytes b) \<Rightarrow> field < 2 ^ 29 \<and> length b < 2 ^ 64)"

definition read_field :: "(nat \<times> pb_value) decoder" where
  "read_field bs =
     bindE (read_varint bs) (\<lambda>(t, r).
     if t mod 8 = 0 then bindE (read_varint r) (\<lambda>(n, r). Inr ((t div 8, PbInt (word_of_nat n)), r))
     else if t mod 8 = 2 then
       bindE (read_varint r) (\<lambda>(n, r).
       if length r < n then fail ''truncated'' else Inr ((t div 8, PbBytes (take n r)), drop n r))
     else fail ''unsupported wire type'')"

lemma read_tag: "field < 2 ^ 29 \<Longrightarrow> wire < 8 \<Longrightarrow> read_varint (pbTag field wire @ rest) = Inr (8 * field + wire, rest)"
proof -
  assume small: "field < 2 ^ 29" "wire < 8"
  define w :: "64 word" where "w = word_of_nat wire"
  have w: "unat w = wire" using small(2) by (simp add: w_def unat_of_nat)
  have "w = take_bit 3 w"
    using small(2) w unsigned_take_bit_eq [of 3 w, where ?'a = nat] by (simp only: word_unat_eq_iff) (simp add: take_bit_eq_mod)
  then have "push_bit 3 (word_of_nat field) AND w = 0"
    by (metis (no_types) and.commute bit_eq_iff bit_and_iff bit_push_bit_iff bit_take_bit_iff bit_0_eq bot_apply bot_bool_def not_less)
  then have "push_bit 3 (word_of_nat field) OR w = push_bit 3 (word_of_nat field) + w"
    by (simp add: disjunctive_add_eq_or)
  also have "\<dots> = word_of_nat (8 * field + wire)" by (simp add: push_bit_eq_mult w_def)
  finally have "unat (push_bit 3 (word_of_nat field) OR w) = (8 * field + wire) mod 2 ^ LENGTH(64)"
    by (simp only: unat_of_nat)
  with small show ?thesis by (simp add: pbTag_def read_varint_pbVarint flip: w_def)
qed

interpretation pb: codec pb_field read_field pb_ok
proof
  fix fv :: "nat \<times> pb_value" and rest
  assume ok: "pb_ok fv"
  obtain f v where fv: "fv = (f, v)" by fastforce
  show "read_field (pb_field fv @ rest) = Inr (fv, rest)"
  proof (cases v)
    case (PbInt n)
    with ok fv read_tag [of f 0 "pbVarint n @ rest"] show ?thesis
      by (simp add: pb_ok_def pb_field_def pbVarintField_def read_field_def read_varint_pbVarint)
  next
    case (PbBytes b)
    with ok fv have "f < 2 ^ 29" "length b < 2 ^ 64" by (simp_all add: pb_ok_def)
    moreover from this have "unat (word_of_nat (length b) :: 64 word) = length b" by (simp add: unat_of_nat)
    moreover have "(8 * f + 2) mod 8 = 2" "(8 * f + 2) div 8 = f" by presburger+
    ultimately show ?thesis
      using fv PbBytes read_tag [of f 2 "pbVarint (word_of_nat (length b)) @ b @ rest"]
      by (simp add: pb_field_def pbBytesField_def read_field_def read_varint_pbVarint del: add_2_eq_Suc')
  qed
qed

text \<open>A message is its fields, one after the other.\<close>

definition pb_read :: "bytes \<Rightarrow> (nat \<times> pb_value) list result" where
  "pb_read bs = dec_all read_field (length bs) bs"

definition pb_write :: "(nat \<times> pb_value) list \<Rightarrow> bytes" where
  "pb_write fvs = concat (map pb_field fvs)"

lemma pbVarint_nonempty: "pbVarint v \<noteq> []"
  by (subst pbVarint.simps) simp

interpretation pb: stream_codec pb_field read_field pb_ok
  by unfold_locales (auto simp: pb_field_def pbVarintField_def pbBytesField_def pbVarint_nonempty split: prod.split pb_value.split)

lemma pb_read_write: "\<forall>fv \<in> set fvs. pb_ok fv \<Longrightarrow> pb_read (pb_write fvs) = Inr fvs"
  by (simp add: pb_read_def pb_write_def pb.dec_stream)

text \<open>The value of a field: the last occurrence counts, a missing one is zero or empty.\<close>

definition pb_repeated :: "nat \<Rightarrow> (nat \<times> pb_value) list \<Rightarrow> bytes list" where
  "pb_repeated n fvs = concat (map (\<lambda>(f, v). case v of PbBytes b \<Rightarrow> if f = n then [b] else [] | PbInt i \<Rightarrow> []) fvs)"

definition pb_bytes :: "nat \<Rightarrow> (nat \<times> pb_value) list \<Rightarrow> bytes" where
  "pb_bytes n fvs = (case rev (pb_repeated n fvs) of [] \<Rightarrow> [] | b # bs \<Rightarrow> b)"

definition pb_uint :: "nat \<Rightarrow> (nat \<times> pb_value) list \<Rightarrow> 64 word" where
  "pb_uint n fvs = foldl (\<lambda>a (f, v). case v of PbInt i \<Rightarrow> if f = n then i else a | PbBytes b \<Rightarrow> a) 0 fvs"

section \<open>Reading transactions\<close>

definition read_contract :: "bytes \<Rightarrow> tron_contract result" where
  "read_contract bs =
     bindE (pb_read bs) (\<lambda>fs.
     bindE (pb_read (pb_bytes 2 fs)) (\<lambda>any.
     let t = ucast (pb_uint 1 fs) in
     if typeURL t \<noteq> '''' \<and> pb_bytes 1 any = str_bytes (typeURL t) then Inr \<lparr>ContractType = t, Parameter = pb_bytes 2 any\<rparr>
     else fail ''unknown contract''))"

definition read_tron :: "bytes \<Rightarrow> tron_tx result" where
  "read_tron bs =
     bindE (pb_read bs) (\<lambda>fs.
     bindE (pb_read (pb_bytes 1 fs)) (\<lambda>rs.
     bindE (mapE read_contract (pb_repeated 11 rs)) (\<lambda>cs.
     Inr \<lparr>RefBlockBytes = pb_bytes 1 rs, RefBlockHash = pb_bytes 4 rs, Expiration = pb_uint 8 rs, Timestamp = pb_uint 14 rs,
          FeeLimit = pb_uint 18 rs, Contracts = cs, TronSignatures = pb_repeated 2 fs\<rparr>)))"

text \<open>The fields the code writes; empty and zero ones are left out.\<close>

definition bytes_fields :: "nat \<Rightarrow> bytes \<Rightarrow> (nat \<times> pb_value) list" where
  "bytes_fields n b = (if length b > 0 then [(n, PbBytes b)] else [])"

definition int_fields :: "nat \<Rightarrow> 64 word \<Rightarrow> (nat \<times> pb_value) list" where
  "int_fields n v = (if v \<noteq> 0 then [(n, PbInt v)] else [])"

definition contract_any :: "tron_contract \<Rightarrow> (nat \<times> pb_value) list" where
  "contract_any c = [(1, PbBytes (str_bytes (typeURL (ContractType c)))), (2, PbBytes (Parameter c))]"

definition contract_fields :: "tron_contract \<Rightarrow> (nat \<times> pb_value) list" where
  "contract_fields c = [(1, PbInt (scast (ContractType c))), (2, PbBytes (pb_write (contract_any c)))]"

definition raw_fields :: "tron_tx \<Rightarrow> (nat \<times> pb_value) list" where
  "raw_fields tx =
     bytes_fields 1 (RefBlockBytes tx) @ bytes_fields 4 (RefBlockHash tx) @ int_fields 8 (Expiration tx) @
     map (\<lambda>c. (11, PbBytes (pb_write (contract_fields c)))) (Contracts tx) @ int_fields 14 (Timestamp tx) @ int_fields 18 (FeeLimit tx)"

definition tron_fields :: "tron_tx \<Rightarrow> (nat \<times> pb_value) list" where
  "tron_fields tx = (1, PbBytes (pb_write (raw_fields tx))) # map (\<lambda>sig. (2, PbBytes sig)) (TronSignatures tx)"

lemma pb_write_simps [simp]:
  "pb_write [] = []" "pb_write (fv # fvs) = pb_field fv @ pb_write fvs" "pb_write (fvs @ gvs) = pb_write fvs @ pb_write gvs"
  "pb_field (n, PbInt v) = pbVarintField n v" "pb_field (n, PbBytes b) = pbBytesField n b"
  by (simp_all add: pb_write_def pb_field_def)

lemma write_fields:
  "pb_write (bytes_fields n b) = (if length b > 0 then pbBytesField n b else [])"
  "pb_write (int_fields n v) = (if v \<noteq> 0 then pbVarintField n v else [])"
  by (simp_all add: bytes_fields_def int_fields_def)

lemma TronContract_marshal_fields:
  "TronContract_marshal c = Inr cb \<longleftrightarrow> typeURL (ContractType c) \<noteq> '''' \<and> cb = pb_write (contract_fields c)"
  by (auto simp: TronContract_marshal_def contract_fields_def contract_any_def Let_def)

lemma marshal_all:
  "mapE TronContract_marshal cs = Inr cbs \<Longrightarrow>
    cbs = map (\<lambda>c. pb_write (contract_fields c)) cs \<and> (\<forall>c \<in> set cs. typeURL (ContractType c) \<noteq> '''')"
  by (induction cs arbitrary: cbs) (auto simp: bindE_Inr_iff TronContract_marshal_fields)

lemma write_repeated: "pb_write (map (\<lambda>x. (n, PbBytes (g x))) xs) = concat (map (pbBytesField n) (map g xs))"
  by (induction xs) simp_all

lemma RawData_fields:
  assumes "RawData tx = Inr r"
  shows "r = pb_write (raw_fields tx)" "\<forall>c \<in> set (Contracts tx). typeURL (ContractType c) \<noteq> ''''"
proof -
  obtain cbs where cbs: "mapE TronContract_marshal (Contracts tx) = Inr cbs"
    and r: "r = (if length (RefBlockBytes tx) > 0 then pbBytesField 1 (RefBlockBytes tx) else []) @
             (if length (RefBlockHash tx) > 0 then pbBytesField 4 (RefBlockHash tx) else []) @
             (if Expiration tx \<noteq> 0 then pbVarintField 8 (Expiration tx) else []) @
             concat (map (pbBytesField 11) cbs) @
             (if Timestamp tx \<noteq> 0 then pbVarintField 14 (Timestamp tx) else []) @
             (if FeeLimit tx \<noteq> 0 then pbVarintField 18 (FeeLimit tx) else [])"
    using assms by (auto simp: RawData_def bindE_Inr_iff split: if_splits)
  note cs = marshal_all [OF cbs]
  then show "r = pb_write (raw_fields tx)" "\<forall>c \<in> set (Contracts tx). typeURL (ContractType c) \<noteq> ''''"
    unfolding r by (simp_all only: raw_fields_def pb_write_simps write_fields write_repeated, blast)
qed

text \<open>Whatever is written fits its own length, so it is read back.\<close>

lemma read_written:
  assumes "list_all (\<lambda>fv. fst fv < 2 ^ 29) fvs" "length (pb_write fvs) < 2 ^ 64"
  shows "pb_read (pb_write fvs) = Inr fvs"
proof (rule pb_read_write)
  have "length b \<le> length (pb_write fvs)" if "(n, PbBytes b) \<in> set fvs" for n b
    using that by (induction fvs) (auto simp: pbBytesField_def)
  with assms show "\<forall>fv \<in> set fvs. pb_ok fv"
    by (auto simp: pb_ok_def list_all_iff split: pb_value.splits) (meson le_less_trans)+
qed

lemma nested_length: "(n, PbBytes b) \<in> set fvs \<Longrightarrow> length b \<le> length (pb_write fvs)"
  by (induction fvs) (auto simp: pbBytesField_def)

lemma pb_repeated_simps [simp]:
  "pb_repeated n [] = []"
  "pb_repeated n (fv # fvs) = (case fv of (f, PbBytes b) \<Rightarrow> if f = n then [b] else [] | (f, PbInt i) \<Rightarrow> []) @ pb_repeated n fvs"
  "pb_repeated n (fvs @ gvs) = pb_repeated n fvs @ pb_repeated n gvs"
  "pb_repeated n (bytes_fields k b) = (if n = k \<and> length b > 0 then [b] else [])"
  "pb_repeated n (int_fields k v) = []"
  by (auto simp: pb_repeated_def bytes_fields_def int_fields_def split: prod.splits pb_value.splits)

lemma pb_repeated_map:
  "pb_repeated n (map (\<lambda>x. (k, PbBytes (g x))) xs) = (if n = k then map g xs else [])"
  by (induction xs) simp_all

lemma foldl_no_int: "\<forall>fv \<in> set fvs. \<forall>v. fv \<noteq> (n, PbInt v) \<Longrightarrow>
    foldl (\<lambda>a (f, v). case v of PbInt i \<Rightarrow> if f = n then i else a | PbBytes b \<Rightarrow> a) a fvs = a"
  by (induction fvs) (auto split: pb_value.splits)

lemma foldl_int_fields:
  "foldl (\<lambda>a (f, v). case v of PbInt i \<Rightarrow> if f = n then i else a | PbBytes b \<Rightarrow> a) a (int_fields k v) =
    (if n = k \<and> v \<noteq> 0 then v else a)"
  "foldl (\<lambda>a (f, v). case v of PbInt i \<Rightarrow> if f = n then i else a | PbBytes b \<Rightarrow> a) a (bytes_fields k b) = a"
  "foldl (\<lambda>a (f, v). case v of PbInt i \<Rightarrow> if f = n then i else a | PbBytes b \<Rightarrow> a) a (map (\<lambda>x. (k, PbBytes (g x))) xs) = a"
  by (simp add: int_fields_def, simp add: bytes_fields_def, induction xs) simp_all

lemma raw_field_values:
  "pb_bytes 1 (raw_fields tx) = RefBlockBytes tx" "pb_bytes 4 (raw_fields tx) = RefBlockHash tx"
  "pb_uint 8 (raw_fields tx) = Expiration tx" "pb_uint 14 (raw_fields tx) = Timestamp tx" "pb_uint 18 (raw_fields tx) = FeeLimit tx"
  "pb_repeated 11 (raw_fields tx) = map (\<lambda>c. pb_write (contract_fields c)) (Contracts tx)"
  by (simp_all add: raw_fields_def pb_bytes_def pb_uint_def pb_repeated_map foldl_int_fields)

lemma read_marshalled:
  assumes "typeURL (ContractType c) \<noteq> ''''" "length (pb_write (contract_fields c)) < 2 ^ 64"
  shows "read_contract (pb_write (contract_fields c)) = Inr c"
proof -
  have "length (pb_write (contract_any c)) < 2 ^ 64"
    using nested_length [of 2 "pb_write (contract_any c)" "contract_fields c"] assms(2) by (simp add: contract_fields_def)
  then have "pb_read (pb_write (contract_any c)) = Inr (contract_any c)"
    by (intro read_written) (simp_all add: contract_any_def)
  moreover have "pb_read (pb_write (contract_fields c)) = Inr (contract_fields c)"
    using assms(2) by (intro read_written) (simp_all add: contract_fields_def)
  moreover have "ucast (scast (ContractType c) :: 64 word) = ContractType c" by (rule bit_word_eqI) (auto simp: bit_simps)
  ultimately show ?thesis
    using assms(1) unfolding read_contract_def
    by (simp add: contract_fields_def contract_any_def pb_bytes_def pb_uint_def del: pb_write_simps)
qed

section \<open>Properties\<close>

text \<open>
  C16: the message of a transaction, read by the rules of protobuf, is the transaction: its reference
  block, times, fee limit, contracts in order with their parameters, and signatures. The fields left
  out are those that are zero or empty.
\<close>

theorem tron_read_back:
  assumes "TronTx_MarshalBinary tx = Inr bs" "length bs < 2 ^ 64"
  shows "read_tron bs = Inr tx"
proof -
  obtain r where raw: "RawData tx = Inr r" and bs: "bs = pbBytesField 1 r @ concat (map (pbBytesField 2) (TronSignatures tx))"
    using assms(1) by (auto simp: TronTx_MarshalBinary_def bindE_Inr_iff)
  note facts = RawData_fields [OF raw]
  have bs: "bs = pb_write (tron_fields tx)"
    using write_repeated [of 2 "\<lambda>sig. sig" "TronSignatures tx"] by (simp add: bs tron_fields_def facts(1))
  have "pb_read bs = Inr (tron_fields tx)"
    unfolding bs by (rule read_written) (use assms(2) bs in \<open>simp_all add: tron_fields_def list_all_iff\<close>)
  moreover have sigs: "pb_bytes 1 (tron_fields tx) = pb_write (raw_fields tx)" "pb_repeated 2 (tron_fields tx) = TronSignatures tx"
    by (simp_all add: tron_fields_def pb_bytes_def pb_repeated_map)
  moreover have len: "length (pb_write (raw_fields tx)) < 2 ^ 64"
    using nested_length [of 1 "pb_write (raw_fields tx)" "tron_fields tx"] assms(2) bs by (simp add: tron_fields_def)
  have "list_all (\<lambda>fv. fst fv < 2 ^ 29) (raw_fields tx)"
    by (auto simp: raw_fields_def bytes_fields_def int_fields_def list_all_iff)
  from read_written [OF this len] have "pb_read (pb_write (raw_fields tx)) = Inr (raw_fields tx)" .
  moreover have "mapE read_contract (map (\<lambda>c. pb_write (contract_fields c)) (Contracts tx)) = Inr (Contracts tx)"
  proof (rule mapE_inverse)
    fix c assume c: "c \<in> set (Contracts tx)"
    then have "(11, PbBytes (pb_write (contract_fields c))) \<in> set (raw_fields tx)" by (auto simp: raw_fields_def)
    from nested_length [OF this] len show "read_contract (pb_write (contract_fields c)) = Inr c"
      by (intro read_marshalled) (use c facts(2) in auto)
  qed
  ultimately show ?thesis
    by (simp add: read_tron_def raw_field_values [unfolded One_nat_def])
qed

text \<open>Example transaction with two contracts and a signature.\<close>

definition demo_tron :: tron_tx where
  "demo_tron =
     \<lparr>RefBlockBytes = [1, 2], RefBlockHash = [], Expiration = 300, Timestamp = 0, FeeLimit = -1,
      Contracts = [\<lparr>ContractType = 1, Parameter = [9, 9]\<rparr>, \<lparr>ContractType = 31, Parameter = []\<rparr>], TronSignatures = [[7, 8]]\<rparr>"

theorem tron_read_back_witness:
  "\<exists>bs. TronTx_MarshalBinary demo_tron = Inr bs \<and> read_tron bs = Inr demo_tron"
proof -
  define bs where "bs = (case TronTx_MarshalBinary demo_tron of Inr b \<Rightarrow> b | Inl e \<Rightarrow> [])"
  have "isl (TronTx_MarshalBinary demo_tron) = False" "length bs < 1000" unfolding bs_def by code_simp+
  then have "TronTx_MarshalBinary demo_tron = Inr bs" by (cases "TronTx_MarshalBinary demo_tron") (simp_all add: bs_def)
  with tron_read_back [OF this] \<open>length bs < 1000\<close> show ?thesis by auto
qed

section \<open>Signers\<close>

lemma recover_signed:
  assumes "recovery_ok lib" "recoverable_sign lib key txid = Inr ((r, s), v)" "SignerPublic key = Some pub"
    and "FillBytes32 r = Inr rb" "FillBytes32 s = Inr sb"
  shows "recoverTronPubkey lib txid (rb @ sb @ [word_of_nat v]) = Inr pub"
proof -
  note facts = recoverable_sign_facts [OF assms(1,2)]
  have b: "rb = be_encode 32 r" "sb = be_encode 32 s" "r < 2 ^ 256" "s < 2 ^ 256"
    using assms(4,5) by (auto simp: FillBytes32_def split: if_splits)
  then have "be_decode rb = r" "be_decode sb = s" "length rb = 32" "length sb = 32" by (simp_all add: be_decode_encode)
  moreover have "unat (word_of_nat v :: byte) = v" "\<not> (word_of_nat v :: byte) > 3"
    using facts(3) by (simp_all add: unat_of_nat word_less_nat_alt not_less)
  ultimately show ?thesis
    using facts assms(3) by (simp add: recoverTronPubkey_def set_scalar_def Let_def nth_append)
qed

lemma RawData_signatures: "RawData (tx\<lparr>TronSignatures := sigs\<rparr>) = RawData tx"
  by (simp add: RawData_def)

lemma Formats_tron: "map_of Formats ''tron'' = Some [Bytes [0x41], IHash (Lookup ''pubkey:uncomp'') [EtherHashNew]]"
  by code_simp

lemma spec_uncomp: "uncompressed pk = Some k \<Longrightarrow> script_spec cr pk ''pubkey:uncomp'' = Inr k"
  by (simp add: script_spec_def numeral_3_eq_3 is_pubkey_name_def getPubKeyBytes_def)

lemma tron_address_of_key:
  assumes "uncompressed (encodings lib pk) = Some u"
  shows "tron_key_address lib alib cr pk = Inr (EncodeTronAddress alib cr (0x41 # chash cr [EtherHashNew] u))"
proof -
  have "script_spec cr (encodings lib pk) ''tron'' = Inr (0x41 # chash cr [EtherHashNew] u)"
    by (subst spec_format [OF _ Formats_tron])
      (simp_all add: is_pubkey_name_def IHash_def spec_uncomp [OF assms] IHashInfo_Bytes_def)
  then have "fst (Generate cr ''tron'' (New (encodings lib pk))) = Inr (0x41 # chash cr [EtherHashNew] u)"
    by (simp add: Generate_reachable [OF script_reachable.fresh])
  then show ?thesis
    by (simp add: tron_key_address_def Script_Address_def Script_Out_def split_def Let_def)
      (simp add: Out_Address_def makeOut_def baseName_def Let_def)
qed

text \<open>
  C18: signing a transaction appends one signature of 65 bytes and leaves its identifier alone, so the
  signers read from it afterwards are those of before followed by the address of the key that signed.
\<close>

theorem tron_signers_recovered:
  assumes "recovery_ok lib" "SignerPublic key = Some pub" "Tron_SignWithOptions lib cr key tx = Inr tx'"
    and "uncompressed (encodings lib pub) = Some u" "SignerAddresses lib alib cr tx = Inr before"
  shows "SignerAddresses lib alib cr tx' = Inr (before @ [EncodeTronAddress alib cr (0x41 # chash cr [EtherHashNew] u)]) \<and> TxID cr tx' = TxID cr tx \<and>
    (\<exists>sig. TronSignatures tx' = TronSignatures tx @ [sig] \<and> length sig = 65)"
proof -
  obtain txid r s v rb sb where sign: "TxID cr tx = Inr txid" "recoverable_sign lib key txid = Inr ((r, s), v)"
    "FillBytes32 r = Inr rb" "FillBytes32 s = Inr sb" and tx': "tx' = tx\<lparr>TronSignatures := TronSignatures tx @ [rb @ sb @ [word_of_nat v]]\<rparr>"
    using assms(3) by (auto simp: Tron_SignWithOptions_def bindE_Inr_iff)
  have id: "TxID cr tx' = TxID cr tx" by (simp add: TxID_def tx' RawData_signatures)
  have rec: "recoverTronPubkey lib txid (rb @ sb @ [word_of_nat v]) = Inr pub"
    by (rule recover_signed [OF assms(1) sign(2) assms(2) sign(3,4)])
  have len: "length rb = 32" "length sb = 32"
    using sign(3,4) by (auto simp: FillBytes32_def split: if_splits)
  from assms(5) sign(1) have before: "mapE (\<lambda>sig. bindE (recoverTronPubkey lib txid sig) (tron_key_address lib alib cr)) (TronSignatures tx) = Inr before"
    by (simp add: SignerAddresses_def)
  have "SignerAddresses lib alib cr tx' = Inr (before @ [EncodeTronAddress alib cr (0x41 # chash cr [EtherHashNew] u)])"
    unfolding SignerAddresses_def id sign(1) by (simp add: tx' mapE_append before rec tron_address_of_key [OF assms(4)])
  with id len show ?thesis by (simp add: tx')
qed

definition unsigned_tron :: tron_tx where
  "unsigned_tron = demo_tron\<lparr>TronSignatures := []\<rparr>"

definition demo_signer_lib :: "nat evm_lib" where
  "demo_signer_lib = demo_evm\<lparr>encodings := \<lambda>_. sample_pub\<lparr>uncompressed := Some (replicate 65 4)\<rparr>\<rparr>"

theorem tron_signers_recovered_witness:
  "\<exists>tx' a. Tron_SignWithOptions demo_signer_lib toy_crypto demo_key unsigned_tron = Inr tx' \<and>
    SignerAddresses demo_signer_lib toy_addr toy_crypto tx' =
      Inr [EncodeTronAddress toy_addr toy_crypto (0x41 # chash toy_crypto [EtherHashNew] (replicate 65 4))]"
proof -
  obtain r where raw: "RawData unsigned_tron = Inr r"
    by (simp add: RawData_def unsigned_tron_def demo_tron_def TronContract_marshal_def typeURL_def TronTransferContract_def
        TronTransferAssetContract_def TronTriggerSmartContract_def Let_def)
  then have "\<exists>tx'. Tron_SignWithOptions demo_signer_lib toy_crypto demo_key unsigned_tron = Inr tx'"
    by (simp add: Tron_SignWithOptions_def TxID_def recoverable_sign_def demo_key_def demo_signer_lib_def demo_evm_def
        reference_rlp_def FillBytes32_def)
  then obtain tx' where tx': "Tron_SignWithOptions demo_signer_lib toy_crypto demo_key unsigned_tron = Inr tx'" by blast
  have "SignerAddresses demo_signer_lib toy_addr toy_crypto unsigned_tron = Inr []"
    using raw by (simp add: SignerAddresses_def TxID_def) (simp add: unsigned_tron_def)
  moreover have "recovery_ok demo_signer_lib" using demo_facts(3) by (simp add: recovery_ok_def demo_signer_lib_def)
  ultimately show ?thesis
    using tron_signers_recovered [OF _ _ tx', of 7 "replicate 65 4" toy_addr "[]"] tx'
    by (simp add: demo_key_def) (simp add: demo_signer_lib_def)
qed

section \<open>Token transfers\<close>

lemma decoded_address:
  assumes "DecodeTronAddress lib cr s = Inr r"
  shows "length r = 21" "checkTronAddress r = Inr ()"
proof -
  show "length r = 21" using assms by (auto simp: DecodeTronAddress_def Let_def split: option.splits if_splits)
  moreover have "r ! 0 = tronAddressPrefix" using assms by (auto simp: DecodeTronAddress_def Let_def split: option.splits if_splits)
  ultimately show "checkTronAddress r = Inr ()" by (simp add: checkTronAddress_def)
qed

lemma trc20_split: "split_commas ''address,uint256'' = [''address'', ''uint256'']"
  by code_simp

definition trc20_method :: string where
  "trc20_method = ''transfer(address,uint256)''"

lemma trc20_call:
  assumes "length a = 20" "0 \<le> v" "4 \<le> length (chash cr [Keccak256New] (str_bytes trc20_method))"
  shows "EvmCall cr trc20_method [ParamBytes a, ParamBig v] =
    (if v < 2 ^ 256 then
       Inr (take 4 (chash cr [Keccak256New] (str_bytes trc20_method)) @ be_encode 32 (be_decode a) @ be_encode 32 (nat v))
     else fail ''big.Int value exceeds 256 bits'')"
proof -
  have a: "be_decode a < 2 ^ 256"
    using be_decode_less [of a] assms(1) by simp
  have "EncodeAbi trc20_method [ParamBytes a, ParamBig v] (NewAbiBuffer []) =
      encode_types_loop [(''address'', ParamBytes a), (''uint256'', ParamBig v)] (NewAbiBuffer [])"
    by (simp add: EncodeAbi_def trc20_method_def EncodeTypes_def trc20_split Let_def)
  also have "\<dots> = (if v < 2 ^ 256 then (\<lparr>abi_buf = be_encode 32 (be_decode a) @ be_encode 32 (nat v), abi_str = []\<rparr>, Inr ())
      else (\<lparr>abi_buf = be_encode 32 (be_decode a), abi_str = []\<rparr>, fail ''big.Int value exceeds 256 bits''))"
    using assms(1,2) a
    by (simp add: NewAbiBuffer_def and_then_def encode_type1_def AppendAddressAny_def appendAddressBytes_def AppendUint256Any_def
        AppendBigInt_def Let_def)
  finally show ?thesis
    using assms(3) by (simp add: EvmCall_def AbiBuffer_Call_def AbiBuffer_Bytes_def)
qed

lemma call_parameters:
  assumes "NewTronTriggerSmartContract f c 0 dat = Inr k" "length f = 21" "length c = 21" "dat \<noteq> []" "length dat < 2 ^ 64"
  shows "ContractType k = TronTriggerSmartContract \<and> pb_read (Parameter k) = Inr [(1, PbBytes f), (2, PbBytes c), (4, PbBytes dat)]"
proof -
  let ?fs = "[(1, PbBytes f), (2, PbBytes c), (4, PbBytes dat)]"
  have "k = \<lparr>ContractType = TronTriggerSmartContract, Parameter = pb_write ?fs\<rparr>"
    using assms(1,4) by (auto simp: NewTronTriggerSmartContract_def bindE_Inr_iff)
  moreover have "pb_read (pb_write ?fs) = Inr ?fs"
    using assms(2,3,5) by (intro pb_read_write) (simp add: pb_ok_def)
  ultimately show ?thesis by (simp del: pb_write_simps)
qed

text \<open>
  C30: a token transfer between valid addresses, of an amount from zero to below \<open>2 ^ 256\<close>, adds one
  call of the token's contract and nothing else: read by the rules of protobuf and of the ABI it names
  the sender, the contract, the method, the receiver's 20 bytes and the amount. Any other amount is
  refused with an error.
\<close>

theorem trc20_transfer_reads:
  assumes "DecodeTronAddress lib cr from_addr = Inr f" "DecodeTronAddress lib cr contract = Inr c" "DecodeTronAddress lib cr to_addr = Inr t"
    and "4 \<le> length (chash cr [Keccak256New] (str_bytes trc20_method))"
  shows "if 0 \<le> v \<and> v < 2 ^ 256 then
      \<exists>k dat. AddTRC20Transfer lib cr from_addr contract to_addr (Some v) tx = Inr (tx\<lparr>Contracts := Contracts tx @ [k]\<rparr>) \<and>
        ContractType k = TronTriggerSmartContract \<and> pb_read (Parameter k) = Inr [(1, PbBytes f), (2, PbBytes c), (4, PbBytes dat)] \<and>
        length dat = 68 \<and> take 4 dat = take 4 (chash cr [Keccak256New] (str_bytes trc20_method)) \<and>
        word_at dat 4 = be_decode (drop 1 t) \<and> int (word_at dat 36) = v
    else \<exists>msg. AddTRC20Transfer lib cr from_addr contract to_addr (Some v) tx = Inl (Error msg)"
proof -
  note addrs = decoded_address [OF assms(1)] decoded_address [OF assms(2)] decoded_address [OF assms(3)]
  have a: "length (drop 1 t) = 20" using addrs by simp
  show ?thesis
  proof (cases "0 \<le> v")
    case True
    note call = trc20_call [OF a True assms(4)]
    show ?thesis
    proof (cases "v < 2 ^ 256")
      case small: True
      define sel where "sel = take 4 (chash cr [Keccak256New] (str_bytes trc20_method))"
      define dat where "dat = sel @ be_encode 32 (be_decode (drop 1 t)) @ be_encode 32 (nat v)"
      have sel: "length sel = 4" using assms(4) by (simp add: sel_def)
      have "be_decode (drop 1 t) < 256 ^ 32" using be_decode_less [of "drop 1 t"] a by simp
      moreover have "nat v < 256 ^ 32" using True small by (simp add: nat_less_iff)
      ultimately have dat: "length dat = 68" "take 4 dat = sel" "word_at dat 4 = be_decode (drop 1 t)" "int (word_at dat 36) = v"
        using sel True by (simp_all add: dat_def word_at_def be_decode_encode)
      obtain k where k: "NewTronTriggerSmartContract f c 0 dat = Inr k"
        using addrs by (simp add: NewTronTriggerSmartContract_def)
      have "EvmCall cr trc20_method [ParamBytes (drop 1 t), ParamBig v] = Inr dat"
        using call small by (simp add: dat_def sel_def)
      then have "AddTRC20Transfer lib cr from_addr contract to_addr (Some v) tx = Inr (tx\<lparr>Contracts := Contracts tx @ [k]\<rparr>)"
        using True assms(1-3) a k by (simp add: AddTRC20Transfer_def AddTriggerSmartContract_def trc20_method_def)
      moreover have "dat \<noteq> []" "length dat < 2 ^ 64" using dat(1) by auto
      ultimately show ?thesis
        using call_parameters [OF k addrs(1,3)] dat True small unfolding sel_def by auto
    next
      case False
      with call True assms(3) a show ?thesis by (simp add: AddTRC20Transfer_def trc20_method_def)
    qed
  qed (simp add: AddTRC20Transfer_def)
qed

text \<open>Two addresses that decode.\<close>

lemma encoded_decodes:
  assumes "addr_ok lib" "checksums_ok cr" "length r = 20"
  shows "DecodeTronAddress lib cr (EncodeTronAddress lib cr (0x41 # r)) = Inr (0x41 # r)"
  using addr_okD(1) [OF assms(1)] length_checksum [OF assms(2), of "0x41 # r"] assms(3)
  by (simp add: EncodeTronAddress_def DecodeTronAddress_def tronAddressPrefix_def)

theorem trc20_transfer_reads_witness:
  "\<exists>k dat. AddTRC20Transfer toy_addr toy_crypto (EncodeTronAddress toy_addr toy_crypto (0x41 # replicate 20 1))
      (EncodeTronAddress toy_addr toy_crypto (0x41 # replicate 20 2)) (EncodeTronAddress toy_addr toy_crypto (0x41 # replicate 20 3))
      (Some 1000) unsigned_tron = Inr (unsigned_tron\<lparr>Contracts := Contracts unsigned_tron @ [k]\<rparr>) \<and>
    pb_read (Parameter k) = Inr [(1, PbBytes (0x41 # replicate 20 1)), (2, PbBytes (0x41 # replicate 20 2)), (4, PbBytes dat)] \<and>
    int (word_at dat 36) = 1000"
proof -
  note dec = encoded_decodes [OF toy_addr_ok toy_checksums_ok length_replicate]
  have "4 \<le> length (chash toy_crypto [Keccak256New] (str_bytes trc20_method))"
    by (simp add: toy_crypto_def)
  from trc20_transfer_reads [OF dec [of 1] dec [of 2] dec [of 3] this, of 1000 unsigned_tron] show ?thesis by auto
qed

end
