(* ===== verification/CardanoTx.thy ===== *)
theory CardanoTx
  imports Codec CardanoKey "HOL-Library.List_Lexorder" "HOL-Library.Product_Lexorder" "HOL-Library.Multiset"
begin

text \<open>
  Cardano transactions (\<^verbatim>\<open>cardanotx.go\<close>): the transaction body with its native assets, hashing
  and signing it, the CBOR form and reading it back. The CBOR library and the hash are parameters. A Go
  map is the list of its entries by increasing key; the order in which the code ranges over one is the
  parameter \<open>iter\<close>, any rearrangement. Pointers in the lists of a transaction are not nil.
\<close>

section \<open>Maps\<close>

type_synonym ('k, 'v) go_map = "('k \<times> 'v) list"

fun map_put :: "'k::linorder \<Rightarrow> 'v \<Rightarrow> ('k, 'v) go_map \<Rightarrow> ('k, 'v) go_map" where
  "map_put k v [] = [(k, v)]"
| "map_put k v ((k', v') # m) =
     (if k < k' then (k, v) # (k', v') # m
      else if k = k' then (k, v) # m
      else (k', v') # map_put k v m)"

abbreviation ordered_map :: "('k::linorder, 'v) go_map \<Rightarrow> bool" where
  "ordered_map m \<equiv> sorted_wrt (<) (map fst m)"

lemma map_of_put [simp]: "map_of (map_put k v m) = (map_of m)(k \<mapsto> v)"
  by (induction m) auto

lemma set_map_put: "set (map_put k v m) \<subseteq> insert (k, v) (set m)"
  by (induction m) (auto split: if_splits)

lemma keys_map_put: "fst ` set (map_put k v m) = insert k (fst ` set m)"
  by (simp flip: dom_map_of_conv_image_fst)

lemma map_put_nonempty: "map_put k v m \<noteq> []"
  by (cases "(k, v, m)" rule: map_put.cases) simp_all

lemma ordered_map_put: "ordered_map m \<Longrightarrow> ordered_map (map_put k v m)"
proof (induction m)
  case (Cons e m)
  obtain k' v' where e: "e = (k', v')" by fastforce
  have "\<forall>x \<in> fst ` set (map_put k v m). k' < x" if "k' < k"
    unfolding keys_map_put using that Cons.prems e by auto
  with Cons e show ?case by (auto simp: not_less)
qed simp

lemma ordered_map_distinct: "ordered_map m \<Longrightarrow> distinct (map fst m)"
  by (simp add: strict_sorted_iff)

lemma ordered_map_unique:
  "ordered_map m \<Longrightarrow> ordered_map n \<Longrightarrow> map_of m = map_of n \<Longrightarrow> m = n"
proof -
  assume m: "ordered_map m" and n: "ordered_map n" and eq: "map_of m = map_of n"
  have "set m = set n"
    using eq map_of_inject_set [OF ordered_map_distinct [OF m] ordered_map_distinct [OF n]] by simp
  moreover have "inj_on fst (set m)" using ordered_map_distinct [OF m] by (simp add: distinct_map)
  ultimately show "m = n"
    using m n by (intro map_sorted_distinct_set_unique [of fst]) (simp_all add: strict_sorted_iff)
qed

section \<open>Transactions\<close>

record cardano_input =
  CTxID :: bytes
  CIndex :: "64 word"

record cardano_asset =
  PolicyID :: bytes
  AssetName :: bytes
  AssetAmount :: "64 word"

record cardano_output =
  OutAddress :: bytes
  OutLovelace :: "64 word"
  Assets :: "cardano_asset list"

record cardano_vkey_witness =
  VKey :: bytes
  VSignature :: bytes

record cardano_tx =
  CInputs :: "cardano_input list"
  COutputs :: "cardano_output list"
  CFee :: "64 word"
  CTTL :: "64 word"
  CWitnesses :: "cardano_vkey_witness list"

type_synonym asset_map = "(bytes, (bytes, 64 word) go_map) go_map"

text \<open>The Go values the code hands to the CBOR encoder.\<close>

datatype cbor_val =
    CUint "64 word"
  | CBytes bytes
  | CArray "cbor_val list"
  | CMap "(64 word \<times> cbor_val) list"
  | CAssets asset_map
  | CBool bool
  | CNil
  | CRaw bytes

text \<open>Encoding, and decoding into a variable of each type the code uses.\<close>

record cbor_lib =
  cbor_Marshal :: "cbor_val \<Rightarrow> bytes result"
  dec_raws :: "bytes \<Rightarrow> bytes list option"
  dec_raw_lists :: "bytes \<Rightarrow> bytes list list option"
  dec_raw_map :: "bytes \<Rightarrow> (64 word, bytes) go_map option"
  dec_uint :: "bytes \<Rightarrow> 64 word option"
  dec_bytes :: "bytes \<Rightarrow> bytes option"
  dec_assets :: "bytes \<Rightarrow> asset_map option"
  blake2b256 :: "bytes \<Rightarrow> bytes"

section \<open>The body\<close>

fun asset_map_loop :: "cardano_asset list \<Rightarrow> asset_map \<Rightarrow> asset_map result" where
  "asset_map_loop [] out = Inr out"
| "asset_map_loop (a # as) out =
     (let inner = (case map_of out (PolicyID a) of Some i \<Rightarrow> i | None \<Rightarrow> []);
          prev = (case map_of inner (AssetName a) of Some x \<Rightarrow> x | None \<Rightarrow> 0);
          sum = prev + AssetAmount a
      in if sum < prev then fail ''cardano asset amount overflow for policy %x asset %x''
         else asset_map_loop as (map_put (PolicyID a) (map_put (AssetName a) sum inner) out))"

definition cardanoAssetMap :: "cardano_asset list \<Rightarrow> asset_map result" where
  "cardanoAssetMap assets = asset_map_loop assets []"

definition outputValue :: "cardano_output \<Rightarrow> cbor_val result" where
  "outputValue out =
     (if length (Assets out) = 0 then Inr (CUint (OutLovelace out))
      else bindE (cardanoAssetMap (Assets out)) (\<lambda>assetMap. Inr (CArray [CUint (OutLovelace out), CAssets assetMap])))"

definition input_value :: "cardano_input \<Rightarrow> cbor_val result" where
  "input_value inp =
     (if length (CTxID inp) \<noteq> 32 then fail ''cardano input txid must be 32 bytes, got %d''
      else Inr (CArray [CBytes (CTxID inp), CUint (CIndex inp)]))"

definition output_item :: "cardano_output \<Rightarrow> cbor_val result" where
  "output_item out =
     (if length (OutAddress out) = 0 then fail ''cardano output has empty address''
      else bindE (outputValue out) (\<lambda>v. Inr (CArray [CBytes (OutAddress out), v])))"

definition bodyMap :: "cardano_tx \<Rightarrow> cbor_val result" where
  "bodyMap tx =
     (if length (CInputs tx) = 0 then fail ''cardano transaction has no inputs''
      else if length (COutputs tx) = 0 then fail ''cardano transaction has no outputs''
      else
        bindE (mapE input_value (CInputs tx)) (\<lambda>inputs.
        bindE (mapE output_item (COutputs tx)) (\<lambda>outputs.
        Inr (CMap ([(0, CArray inputs), (1, CArray outputs), (2, CUint (CFee tx))] @
          (if CTTL tx \<noteq> 0 then [(3, CUint (CTTL tx))] else []))))))"

definition BodyBytes :: "cbor_lib \<Rightarrow> cardano_tx \<Rightarrow> bytes result" where
  "BodyBytes lib tx = bindE (bodyMap tx) (cbor_Marshal lib)"

definition Cardano_SignBytes :: "cbor_lib \<Rightarrow> cardano_tx \<Rightarrow> bytes result" where
  "Cardano_SignBytes lib tx = bindE (BodyBytes lib tx) (\<lambda>bodyBytes. Inr (blake2b256 lib bodyBytes))"

definition Cardano_Hash :: "cbor_lib \<Rightarrow> cardano_tx \<Rightarrow> bytes result" where
  "Cardano_Hash lib tx = Cardano_SignBytes lib tx"

section \<open>Signing\<close>

record cardano_signer =
  SignerKey :: bytes
  SignerSign :: "bytes \<Rightarrow> bytes result"

text \<open>A standard key is its public part and what \<open>ed25519.Sign\<close> makes of a message.\<close>

record ed25519_key =
  EdPublic :: bytes
  EdSign :: "bytes \<Rightarrow> bytes"

definition cardanoStdSigner :: "ed25519_key \<Rightarrow> cardano_signer" where
  "cardanoStdSigner key = \<lparr>SignerKey = EdPublic key, SignerSign = (\<lambda>message. Inr (EdSign key message))\<rparr>"

definition extended_signer :: "'g ed_lib \<Rightarrow> cardano_key \<Rightarrow> cardano_signer" where
  "extended_signer lib ek = \<lparr>SignerKey = CardanoPublicKey ek, SignerSign = (\<lambda>message. Inr (SignCardano lib ek message))\<rparr>"

fun sign_witnesses :: "bytes \<Rightarrow> cardano_signer list \<Rightarrow> cardano_tx \<Rightarrow> cardano_tx \<times> unit result" where
  "sign_witnesses digest [] tx = (tx, Inr ())"
| "sign_witnesses digest (signer # signers) tx =
     (let pub = SignerKey signer in
      if length pub \<noteq> 32 then (tx, fail ''cardano signer public key must be 32 bytes, got %d'')
      else
        case SignerSign signer digest of
          Inl e \<Rightarrow> (tx, Inl e)
        | Inr sig \<Rightarrow>
            if length sig \<noteq> 64 then (tx, fail ''cardano signature must be 64 bytes, got %d'')
            else sign_witnesses digest signers (tx\<lparr>CWitnesses := CWitnesses tx @ [\<lparr>VKey = pub, VSignature = sig\<rparr>]\<rparr>))"

definition SignWith :: "cbor_lib \<Rightarrow> cardano_signer list \<Rightarrow> cardano_tx \<Rightarrow> cardano_tx \<times> unit result" where
  "SignWith lib signers tx =
     (case Cardano_SignBytes lib tx of
        Inl e \<Rightarrow> (tx, Inl e)
      | Inr digest \<Rightarrow> sign_witnesses digest signers tx)"

definition Cardano_Sign :: "cbor_lib \<Rightarrow> ed25519_key list \<Rightarrow> cardano_tx \<Rightarrow> cardano_tx \<times> unit result" where
  "Cardano_Sign lib keys tx = SignWith lib (map cardanoStdSigner keys) tx"

section \<open>The wire form\<close>

definition witnessSet :: "cardano_tx \<Rightarrow> cbor_val" where
  "witnessSet tx =
     (if length (CWitnesses tx) = 0 then CMap []
      else CMap [(0, CArray (map (\<lambda>w. CArray [CBytes (VKey w), CBytes (VSignature w)]) (CWitnesses tx)))])"

definition Cardano_MarshalBinary :: "cbor_lib \<Rightarrow> cardano_tx \<Rightarrow> bytes result" where
  "Cardano_MarshalBinary lib tx =
     bindE (BodyBytes lib tx) (\<lambda>bodyBytes.
     cbor_Marshal lib (CArray [CRaw bodyBytes, witnessSet tx, CBool True, CNil]))"

definition or_fail :: "string \<Rightarrow> 'a option \<Rightarrow> 'a result" where
  "or_fail msg v = (case v of Some x \<Rightarrow> Inr x | None \<Rightarrow> fail msg)"

text \<open>The entries are in range order; sorting makes the order the same every time.\<close>

definition flattenCardanoAssets :: "(cardano_asset list \<Rightarrow> cardano_asset list) \<Rightarrow> asset_map \<Rightarrow> cardano_asset list" where
  "flattenCardanoAssets iter multiasset =
     sort_key (\<lambda>a. (PolicyID a, AssetName a))
       (iter (concat (map (\<lambda>(policy, names). map (\<lambda>(name, amount). \<lparr>PolicyID = policy, AssetName = name, AssetAmount = amount\<rparr>) names) multiasset)))"

definition decodeCardanoOutput :: "cbor_lib \<Rightarrow> (cardano_asset list \<Rightarrow> cardano_asset list) \<Rightarrow> bytes \<Rightarrow> cardano_output result" where
  "decodeCardanoOutput lib iter rawOut =
     bindE (or_fail ''only legacy (array) cardano outputs are supported: %w'' (dec_raws lib rawOut)) (\<lambda>fields.
     if length fields < 2 then fail ''invalid transaction output''
     else
       bindE (or_fail ''failed to decode output address: %w'' (dec_bytes lib (fields ! 0))) (\<lambda>addr.
       case dec_uint lib (fields ! 1) of
         Some amount \<Rightarrow> Inr \<lparr>OutAddress = addr, OutLovelace = amount, Assets = []\<rparr>
       | None \<Rightarrow>
           (case dec_raws lib (fields ! 1) of
              None \<Rightarrow> fail ''failed to decode output value''
            | Some val \<Rightarrow>
                if length val \<noteq> 2 then fail ''failed to decode output value''
                else
                  bindE (or_fail ''failed to decode output coin: %w'' (dec_uint lib (val ! 0))) (\<lambda>amount.
                  bindE (or_fail ''failed to decode multiasset: %w'' (dec_assets lib (val ! 1))) (\<lambda>multiasset.
                  Inr \<lparr>OutAddress = addr, OutLovelace = amount, Assets = flattenCardanoAssets iter multiasset\<rparr>)))))"

definition decode_input :: "cbor_lib \<Rightarrow> bytes list \<Rightarrow> cardano_input result" where
  "decode_input lib inp =
     (if length inp \<noteq> 2 then fail ''invalid transaction input''
      else
        bindE (or_fail ''failed to decode input txid: %w'' (dec_bytes lib (inp ! 0))) (\<lambda>txid.
        bindE (or_fail ''failed to decode input index: %w'' (dec_uint lib (inp ! 1))) (\<lambda>index.
        Inr \<lparr>CTxID = txid, CIndex = index\<rparr>)))"

definition decode_witness :: "cbor_lib \<Rightarrow> bytes list \<Rightarrow> cardano_vkey_witness result" where
  "decode_witness lib vk =
     (if length vk \<noteq> 2 then fail ''invalid vkey witness''
      else
        bindE (or_fail ''failed to decode vkey: %w'' (dec_bytes lib (vk ! 0))) (\<lambda>pub.
        bindE (or_fail ''failed to decode signature: %w'' (dec_bytes lib (vk ! 1))) (\<lambda>sig.
        Inr \<lparr>VKey = pub, VSignature = sig\<rparr>)))"

text \<open>\<open>if raw, ok := m[k]; ok\<close>: a key that is missing leaves the default.\<close>

definition if_present :: "(64 word, bytes) go_map \<Rightarrow> 64 word \<Rightarrow> 'a \<Rightarrow> (bytes \<Rightarrow> 'a result) \<Rightarrow> 'a result" where
  "if_present m k d f = (case map_of m k of Some b \<Rightarrow> f b | None \<Rightarrow> Inr d)"

definition Cardano_UnmarshalBinary ::
  "cbor_lib \<Rightarrow> (cardano_asset list \<Rightarrow> cardano_asset list) \<Rightarrow> bytes \<Rightarrow> cardano_tx result" where
  "Cardano_UnmarshalBinary lib iter dat =
     bindE (or_fail ''failed to decode cardano transaction: %w'' (dec_raws lib dat)) (\<lambda>rws.
     if length rws < 2 then fail ''cardano transaction must have at least 2 elements, got %d''
     else
       bindE (or_fail ''failed to decode transaction body: %w'' (dec_raw_map lib (rws ! 0))) (\<lambda>body.
       bindE (if_present body 0 [] (\<lambda>rawInputs.
         bindE (or_fail ''failed to decode inputs: %w'' (dec_raw_lists lib rawInputs)) (mapE (decode_input lib)))) (\<lambda>ins.
       bindE (if_present body 1 [] (\<lambda>rawOutputs.
         bindE (or_fail ''failed to decode outputs: %w'' (dec_raws lib rawOutputs)) (mapE (decodeCardanoOutput lib iter)))) (\<lambda>outs.
       bindE (if_present body 2 0 (\<lambda>rawFee. or_fail ''failed to decode fee: %w'' (dec_uint lib rawFee))) (\<lambda>fee.
       bindE (if_present body 3 0 (\<lambda>rawTTL. or_fail ''failed to decode ttl: %w'' (dec_uint lib rawTTL))) (\<lambda>ttl.
       bindE (or_fail ''failed to decode witness set: %w'' (dec_raw_map lib (rws ! 1))) (\<lambda>ws.
       bindE (if_present ws 0 [] (\<lambda>rawVkeys.
         bindE (or_fail ''failed to decode vkey witnesses: %w'' (dec_raw_lists lib rawVkeys)) (mapE (decode_witness lib)))) (\<lambda>vks.
       Inr \<lparr>CInputs = ins, COutputs = outs, CFee = fee, CTTL = ttl, CWitnesses = vks\<rparr>))))))))"

section \<open>Native assets\<close>

text \<open>
  What merging assets means: one entry for every policy and name, in order, with the sum of their
  amounts as a natural number.
\<close>

definition asset_key :: "cardano_asset \<Rightarrow> bytes \<times> bytes" where
  "asset_key a = (PolicyID a, AssetName a)"

definition asset_total :: "cardano_asset list \<Rightarrow> bytes \<times> bytes \<Rightarrow> nat" where
  "asset_total as k = sum_list (map (\<lambda>a. unat (AssetAmount a)) (filter (\<lambda>a. asset_key a = k) as))"

definition merged_assets :: "cardano_asset list \<Rightarrow> cardano_asset list" where
  "merged_assets as =
     map (\<lambda>k. \<lparr>PolicyID = fst k, AssetName = snd k, AssetAmount = word_of_nat (asset_total as k)\<rparr>) (sort (remdups (map asset_key as)))"

definition look :: "asset_map \<Rightarrow> bytes \<times> bytes \<Rightarrow> 64 word option" where
  "look m k = (case map_of m (fst k) of Some i \<Rightarrow> map_of i (snd k) | None \<Rightarrow> None)"

definition held :: "asset_map \<Rightarrow> bytes \<times> bytes \<Rightarrow> 64 word" where
  "held m k = (case look m k of Some x \<Rightarrow> x | None \<Rightarrow> 0)"

definition wf_assets :: "asset_map \<Rightarrow> bool" where
  "wf_assets m \<longleftrightarrow> ordered_map m \<and> (\<forall>e \<in> set m. ordered_map (snd e) \<and> snd e \<noteq> [])"

lemma wf_entry:
  assumes "wf_assets m" "(p, i) \<in> set m"
  shows "ordered_map i" "i \<noteq> []"
  using bspec [OF conjunct2 [OF assms(1) [unfolded wf_assets_def]] assms(2)] by simp_all

lemma wf_inner:
  assumes "wf_assets m" "map_of m p = Some i"
  shows "ordered_map i" "i \<noteq> []"
  using wf_entry [OF assms(1) map_of_SomeD [OF assms(2)]] .

definition put_asset :: "cardano_asset \<Rightarrow> 64 word \<Rightarrow> asset_map \<Rightarrow> asset_map" where
  "put_asset a v m =
     map_put (PolicyID a) (map_put (AssetName a) v (case map_of m (PolicyID a) of Some i \<Rightarrow> i | None \<Rightarrow> [])) m"

lemma loop_step:
  "asset_map_loop (a # as) m =
    (if held m (asset_key a) + AssetAmount a < held m (asset_key a) then fail ''cardano asset amount overflow for policy %x asset %x''
     else asset_map_loop as (put_asset a (held m (asset_key a) + AssetAmount a) m))"
  by (simp add: Let_def held_def look_def asset_key_def put_asset_def split: option.split)

declare asset_map_loop.simps(2) [simp del]

lemma look_put: "look (put_asset a v m) k = (if k = asset_key a then Some v else look m k)"
  by (cases k) (auto simp: look_def put_asset_def asset_key_def split: option.split)

lemma held_put: "held (put_asset a v m) k = (if k = asset_key a then v else held m k)"
  by (simp add: held_def look_put)

lemma wf_put: "wf_assets m \<Longrightarrow> wf_assets (put_asset a v m)"
proof -
  assume wf: "wf_assets m"
  then have i: "ordered_map (case map_of m (PolicyID a) of Some i \<Rightarrow> i | None \<Rightarrow> [])"
    using wf_inner(1) [OF wf] by (simp split: option.split)
  have put: "ordered_map (snd e) \<and> snd e \<noteq> []" if "e \<in> set (put_asset a v m)" for e
  proof (cases "e \<in> set m")
    case True
    with wf show ?thesis by (simp add: wf_assets_def)
  next
    case False
    with that set_map_put have "snd e = map_put (AssetName a) v (case map_of m (PolicyID a) of Some i \<Rightarrow> i | None \<Rightarrow> [])"
      unfolding put_asset_def by fastforce
    then show ?thesis using ordered_map_put [OF i] map_put_nonempty by simp
  qed
  have "ordered_map (put_asset a v m)"
    using wf by (simp add: wf_assets_def put_asset_def ordered_map_put)
  with put show ?thesis unfolding wf_assets_def by blast
qed

lemma asset_total_Cons: "asset_total (a # as) k = (if asset_key a = k then unat (AssetAmount a) else 0) + asset_total as k"
  by (simp add: asset_total_def)

lemma unat64_less: "unat (x :: 64 word) < 2 ^ 64"
  using unsigned_less [of x] by simp

lemma mod_overflow: "a < m \<Longrightarrow> b < m \<Longrightarrow> ((a + b) mod m < a) = (m \<le> a + b)" for a b m :: nat
  by (cases "m \<le> a + b") (simp_all add: le_mod_geq)

lemma word_overflow: "(x + y < x) = (2 ^ 64 \<le> unat x + unat y)" for x y :: "64 word"
proof -
  have "unat (x + y) = (unat x + unat y) mod 2 ^ LENGTH(64)" by (rule unat_word_ariths)
  then have "(x + y < x) = ((unat x + unat y) mod 2 ^ 64 < unat x)" by (simp add: word_less_nat_alt)
  then show ?thesis unfolding mod_overflow [OF unat64_less unat64_less] .
qed

lemma loop_spec:
  assumes "wf_assets m"
  shows "if \<forall>k. unat (held m k) + asset_total as k < 2 ^ 64 then
      \<exists>m'. asset_map_loop as m = Inr m' \<and> wf_assets m' \<and>
        (\<forall>k. look m' k = (if k \<in> asset_key ` set as \<or> look m k \<noteq> None then Some (held m k + word_of_nat (asset_total as k)) else None))
    else asset_map_loop as m = fail ''cardano asset amount overflow for policy %x asset %x''"
  using assms
proof (induction as arbitrary: m)
  case Nil
  have "unat (held m k) < 2 ^ 64" for k by (rule unat64_less)
  then show ?case
    using Nil by (auto simp: asset_total_def held_def split: option.split)
next
  case (Cons a as)
  define sum where "sum = held m (asset_key a) + AssetAmount a"
  define m1 where "m1 = put_asset a sum m"
  note step = loop_step [of a as m, folded sum_def, folded m1_def]
  show ?case
  proof (cases "sum < held m (asset_key a)")
    case True
    then have "\<not> unat (held m (asset_key a)) + asset_total (a # as) (asset_key a) < 2 ^ 64"
      unfolding sum_def word_overflow asset_total_Cons by simp
    then have "\<not> (\<forall>k. unat (held m k) + asset_total (a # as) k < 2 ^ 64)" by blast
    with step True show ?thesis by (simp only: if_True if_False)
  next
    case False
    then have small: "unat (held m (asset_key a)) + unat (AssetAmount a) < 2 ^ 64"
      unfolding sum_def word_overflow by simp
    then have sum: "unat sum = unat (held m (asset_key a)) + unat (AssetAmount a)"
      by (simp add: sum_def unat_word_ariths)
    have eq: "unat (held m1 k) + asset_total as k = unat (held m k) + asset_total (a # as) k" for k
      by (simp add: m1_def held_put asset_total_Cons sum)
    have val: "look m1 k \<noteq> None \<longleftrightarrow> k = asset_key a \<or> look m k \<noteq> None"
      "held m1 k + word_of_nat (asset_total as k) = held m k + word_of_nat (asset_total (a # as) k)" for k
      by (simp_all add: m1_def look_put held_put asset_total_Cons sum_def)
    have "wf_assets m1" unfolding m1_def by (rule wf_put [OF Cons.prems])
    have seen: "k \<in> asset_key ` set as \<or> k = asset_key a \<or> look m k \<noteq> None \<longleftrightarrow> k \<in> asset_key ` set (a # as) \<or> look m k \<noteq> None" for k
      by auto
    from Cons.IH [OF \<open>wf_assets m1\<close>] show ?thesis
      unfolding eq val seen step using False by (simp only: if_False)
  qed
qed

lemma cardanoAssetMap_spec:
  "if \<forall>k. asset_total as k < 2 ^ 64 then
     \<exists>m. cardanoAssetMap as = Inr m \<and> wf_assets m \<and>
       (\<forall>k. look m k = (if k \<in> asset_key ` set as then Some (word_of_nat (asset_total as k)) else None))
   else cardanoAssetMap as = fail ''cardano asset amount overflow for policy %x asset %x''"
proof -
  have empty: "held [] k = 0" "look [] k = None" for k by (simp_all add: held_def look_def)
  have "wf_assets []" by (simp add: wf_assets_def)
  from loop_spec [OF this, of as] show ?thesis
    unfolding cardanoAssetMap_def empty by (simp only: unsigned_0 add_0 simp_thms)
qed

text \<open>The entries of a map, each once.\<close>

definition map_entries :: "asset_map \<Rightarrow> cardano_asset list" where
  "map_entries m =
     concat (map (\<lambda>(policy, names). map (\<lambda>(name, amount). \<lparr>PolicyID = policy, AssetName = name, AssetAmount = amount\<rparr>) names) m)"

lemma entries_keys: "map asset_key (map_entries m) = concat (map (\<lambda>(p, ns). map (\<lambda>n. (p, n)) (map fst ns)) m)"
  by (induction m) (auto simp: map_entries_def asset_key_def)

lemma entries_distinct: "wf_assets m \<Longrightarrow> distinct (map asset_key (map_entries m))"
proof -
  assume wf: "wf_assets m"
  have "distinct (concat (map (\<lambda>(p, ns). map (\<lambda>n. (p, n)) (map fst ns)) m))"
    if "distinct (map fst m)" "\<forall>(p, i) \<in> set m. distinct (map fst i)"
    using that by (induction m) (auto simp: distinct_map inj_on_def image_iff)
  moreover have "\<forall>(p, i) \<in> set m. distinct (map fst i)"
    using wf_entry(1) [OF wf] by (auto intro: ordered_map_distinct)
  moreover have "distinct (map fst m)" using wf by (auto simp: wf_assets_def intro: ordered_map_distinct)
  ultimately show ?thesis by (simp only: entries_keys)
qed

lemma entries_look: "wf_assets m \<Longrightarrow> a \<in> set (map_entries m) \<longleftrightarrow> look m (asset_key a) = Some (AssetAmount a)"
proof -
  assume wf: "wf_assets m"
  then have d: "distinct (map fst m)" "\<And>p i. (p, i) \<in> set m \<Longrightarrow> distinct (map fst i)"
    using wf_entry(1) [OF wf] by (auto simp: wf_assets_def intro: ordered_map_distinct)
  have "a \<in> set (map_entries m) \<longleftrightarrow> (\<exists>i. (PolicyID a, i) \<in> set m \<and> (AssetName a, AssetAmount a) \<in> set i)"
    by (cases a) (force simp: map_entries_def)
  also have "\<dots> \<longleftrightarrow> look m (asset_key a) = Some (AssetAmount a)"
  proof -
    have "look m (asset_key a) = Some (AssetAmount a) \<longleftrightarrow>
        (\<exists>i. map_of m (PolicyID a) = Some i \<and> map_of i (AssetName a) = Some (AssetAmount a))"
      by (simp add: look_def asset_key_def split: option.split)
    with d show ?thesis by (metis map_of_eq_Some_iff)
  qed
  finally show ?thesis .
qed

lemma flatten_merged:
  assumes "\<And>xs. mset (iter xs) = mset xs" "cardanoAssetMap as = Inr m"
  shows "flattenCardanoAssets iter m = merged_assets as"
proof -
  from cardanoAssetMap_spec [of as] assms(2) have wf: "wf_assets m"
    and look: "look m k = (if k \<in> asset_key ` set as then Some (word_of_nat (asset_total as k)) else None)" for k
    by (auto simp del: split_paired_All split: if_splits)
  have flat: "flattenCardanoAssets iter m = sort_key asset_key (iter (map_entries m))"
    by (simp add: flattenCardanoAssets_def map_entries_def asset_key_def [abs_def])
  have keys: "map asset_key (merged_assets as) = sort (remdups (map asset_key as))"
    by (simp add: merged_assets_def asset_key_def comp_def)
  have "mset (map asset_key (sort_key asset_key (iter (map_entries m)))) = mset (map asset_key (map_entries m))"
    by (simp add: assms(1))
  then have d: "distinct (map asset_key (sort_key asset_key (iter (map_entries m))))"
    using entries_distinct [OF wf] by (metis mset_eq_imp_distinct_iff)
  have s: "set (sort_key asset_key (iter (map_entries m))) = set (map_entries m)"
    using mset_eq_setD [OF assms(1)] by (simp only: set_sort)
  also have "\<dots> = set (merged_assets as)"
  proof (intro set_eqI)
    fix a
    have "a = \<lparr>PolicyID = fst k, AssetName = snd k, AssetAmount = x\<rparr> \<longleftrightarrow> asset_key a = k \<and> AssetAmount a = x" for k x
      by (cases a; cases k) (auto simp: asset_key_def)
    then have "a \<in> set (merged_assets as) \<longleftrightarrow> asset_key a \<in> asset_key ` set as \<and> AssetAmount a = word_of_nat (asset_total as (asset_key a))"
      by (simp add: merged_assets_def image_iff)
    also have "\<dots> \<longleftrightarrow> a \<in> set (map_entries m)"
      unfolding entries_look [OF wf] look by (simp add: eq_commute)
    finally show "a \<in> set (map_entries m) \<longleftrightarrow> a \<in> set (merged_assets as)" by (rule sym)
  qed
  finally have sets: "set (sort_key asset_key (iter (map_entries m))) = set (merged_assets as)" .
  have "inj_on asset_key (set (merged_assets as))"
    using keys distinct_map [of asset_key "merged_assets as"] by (metis distinct_remdups distinct_sort)
  then show ?thesis
    unfolding flat using d sets keys
    by (intro map_sorted_distinct_set_unique [of asset_key]) simp_all
qed

lemma look_present:
  assumes "wf_assets m" "map_of m p = Some i"
  shows "\<exists>q v. look m (p, q) = Some v"
proof -
  from wf_inner(2) [OF assms] obtain q v r where "i = (q, v) # r" by (cases i) auto
  with assms(2) have "look m (p, q) = Some v" by (simp add: look_def)
  then show ?thesis by blast
qed

lemma look_none: "wf_assets m \<Longrightarrow> map_of m p = None \<longleftrightarrow> (\<forall>q. look m (p, q) = None)"
proof (cases "map_of m p")
  case None
  then show ?thesis by (simp add: look_def)
next
  case (Some i)
  assume "wf_assets m"
  from look_present [OF this Some] obtain q v where "look m (p, q) = Some v" by blast
  then have "\<not> (\<forall>q. look m (p, q) = None)" by (metis option.distinct(1))
  with Some show ?thesis by simp
qed

lemma wf_assets_unique:
  assumes "wf_assets m" "wf_assets n" "\<And>k. look m k = look n k"
  shows "m = n"
proof (rule ordered_map_unique)
  show "map_of m = map_of n"
  proof
    fix p
    have none: "map_of m p = None \<longleftrightarrow> map_of n p = None"
      unfolding look_none [OF assms(1)] look_none [OF assms(2)] assms(3) ..
    have "i = j" if ij: "map_of m p = Some i" "map_of n p = Some j" for i j
    proof (rule ordered_map_unique)
      show "map_of i = map_of j"
      proof
        fix q
        show "map_of i q = map_of j q" using assms(3) [of "(p, q)"] ij by (simp add: look_def)
      qed
    qed (use wf_inner [OF assms(1) ij(1)] wf_inner [OF assms(2) ij(2)] in simp_all)
    note same = this
    show "map_of m p = map_of n p"
    proof (cases "map_of m p")
      case (Some i)
      with none obtain j where "map_of n p = Some j" by fastforce
      with same [OF Some this] Some show ?thesis by simp
    qed (use none in simp)
  qed
qed (use assms(1,2) in \<open>simp_all add: wf_assets_def\<close>)

text \<open>The order of the assets does not matter.\<close>

lemma cardanoAssetMap_order:
  assumes "mset bs = mset as"
  shows "cardanoAssetMap bs = cardanoAssetMap as"
proof -
  have total: "asset_total bs = asset_total as"
  proof
    fix k
    have "mset (map (\<lambda>a. unat (AssetAmount a)) (filter (\<lambda>a. asset_key a = k) bs)) =
        mset (map (\<lambda>a. unat (AssetAmount a)) (filter (\<lambda>a. asset_key a = k) as))" using assms by simp
    then show "asset_total bs k = asset_total as k"
      unfolding asset_total_def sum_mset_sum_list [symmetric] by (rule arg_cong)
  qed
  have keys: "asset_key ` set bs = asset_key ` set as" using mset_eq_setD [OF assms] by simp
  note specs = cardanoAssetMap_spec [of bs, unfolded total keys] cardanoAssetMap_spec [of as]
  show ?thesis
  proof (cases "\<forall>k. asset_total as k < 2 ^ 64")
    case True
    with specs obtain m n where m: "cardanoAssetMap bs = Inr m" "wf_assets m" and n: "cardanoAssetMap as = Inr n" "wf_assets n"
      and look: "\<forall>k. look m k = look n k" by (auto simp del: split_paired_All)
    have "m = n"
      by (rule wf_assets_unique [OF m(2) n(2)])
        (use look in blast)
    with m n show ?thesis by simp
  next
    case False
    with specs show ?thesis by (simp del: split_paired_All)
  qed
qed

section \<open>What the code relies on\<close>

text \<open>
  The CBOR library decodes what it encoded: numbers, byte strings, arrays and maps item by item. An array
  of arrays is decoded as an array whose items are; an encoded item passes through as it is; an array is
  not a number. Raw items have to be encodings.
\<close>

definition raws_encoded :: "cbor_lib \<Rightarrow> cbor_val list \<Rightarrow> bool" where
  "raws_encoded lib vs \<longleftrightarrow> (\<forall>r. CRaw r \<in> set vs \<longrightarrow> (\<exists>v. (\<forall>x. v \<noteq> CRaw x) \<and> cbor_Marshal lib v = Inr r))"

definition cbor_ok :: "cbor_lib \<Rightarrow> bool" where
  "cbor_ok lib \<longleftrightarrow>
     (\<forall>n b. cbor_Marshal lib (CUint n) = Inr b \<longrightarrow> dec_uint lib b = Some n) \<and>
     (\<forall>x b. cbor_Marshal lib (CBytes x) = Inr b \<longrightarrow> dec_bytes lib b = Some x) \<and>
     (\<forall>m b. wf_assets m \<longrightarrow> cbor_Marshal lib (CAssets m) = Inr b \<longrightarrow> dec_assets lib b = Some m) \<and>
     (\<forall>vs b. raws_encoded lib vs \<longrightarrow> cbor_Marshal lib (CArray vs) = Inr b \<longrightarrow>
        dec_uint lib b = None \<and> (\<exists>bs. mapE (cbor_Marshal lib) vs = Inr bs \<and> dec_raws lib b = Some bs)) \<and>
     (\<forall>b. dec_raw_lists lib b = (case dec_raws lib b of None \<Rightarrow> None | Some bs \<Rightarrow> those (map (dec_raws lib) bs))) \<and>
     (\<forall>kvs b. ordered_map kvs \<longrightarrow> raws_encoded lib (map snd kvs) \<longrightarrow> cbor_Marshal lib (CMap kvs) = Inr b \<longrightarrow>
        (\<exists>bs. mapE (cbor_Marshal lib) (map snd kvs) = Inr bs \<and> dec_raw_map lib b = Some (zip (map fst kvs) bs))) \<and>
     (\<forall>v b. cbor_Marshal lib v = Inr b \<longrightarrow> cbor_Marshal lib (CRaw b) = Inr b)"

lemma cbor_okD:
  assumes "cbor_ok lib"
  shows "cbor_Marshal lib (CUint n) = Inr b \<Longrightarrow> dec_uint lib b = Some n"
    "cbor_Marshal lib (CBytes x) = Inr b \<Longrightarrow> dec_bytes lib b = Some x"
    "wf_assets m \<Longrightarrow> cbor_Marshal lib (CAssets m) = Inr b \<Longrightarrow> dec_assets lib b = Some m"
    "raws_encoded lib vs \<Longrightarrow> cbor_Marshal lib (CArray vs) = Inr b \<Longrightarrow>
      dec_uint lib b = None \<and> (\<exists>bs. mapE (cbor_Marshal lib) vs = Inr bs \<and> dec_raws lib b = Some bs)"
    "dec_raw_lists lib b = (case dec_raws lib b of None \<Rightarrow> None | Some bs \<Rightarrow> those (map (dec_raws lib) bs))"
    "ordered_map kvs \<Longrightarrow> raws_encoded lib (map snd kvs) \<Longrightarrow> cbor_Marshal lib (CMap kvs) = Inr b \<Longrightarrow>
      \<exists>bs. mapE (cbor_Marshal lib) (map snd kvs) = Inr bs \<and> dec_raw_map lib b = Some (zip (map fst kvs) bs)"
    "cbor_Marshal lib v = Inr b \<Longrightarrow> cbor_Marshal lib (CRaw b) = Inr b"
  using assms unfolding cbor_ok_def by blast+

lemma no_raws: "\<forall>v \<in> set vs. \<forall>r. v \<noteq> CRaw r \<Longrightarrow> raws_encoded lib vs"
  by (auto simp: raws_encoded_def)

text \<open>An array is read back when its items are.\<close>

lemma mapE_list_all2: "mapE f xs = Inr ys \<Longrightarrow> list_all2 (\<lambda>x y. f x = Inr y) xs ys"
  by (induction xs arbitrary: ys) (auto simp: bindE_Inr_iff)

lemma array_of:
  assumes "cbor_ok lib" "cbor_Marshal lib (CArray vs) = Inr b" "\<forall>v \<in> set vs. \<forall>r. v \<noteq> CRaw r"
  shows "\<exists>bs. dec_raws lib b = Some bs \<and> dec_uint lib b = None \<and> list_all2 (\<lambda>v c. cbor_Marshal lib v = Inr c) vs bs"
proof -
  from cbor_okD(4) [OF assms(1) no_raws [OF assms(3)] assms(2)] obtain bs
    where "dec_uint lib b = None" "mapE (cbor_Marshal lib) vs = Inr bs" "dec_raws lib b = Some bs" by blast
  with mapE_list_all2 [OF this(2)] show ?thesis by blast
qed

lemma two_items:
  assumes "cbor_ok lib" "cbor_Marshal lib (CArray [u, v]) = Inr b" "\<And>r. u \<noteq> CRaw r" "\<And>r. v \<noteq> CRaw r"
  shows "\<exists>c d. dec_raws lib b = Some [c, d] \<and> dec_uint lib b = None \<and> cbor_Marshal lib u = Inr c \<and> cbor_Marshal lib v = Inr d"
  using array_of [OF assms(1,2)] assms(3,4) by (auto simp: list_all2_Cons1)

lemma no_raw_results: "mapE f xs = Inr vs \<Longrightarrow> (\<And>x r. f x \<noteq> Inr (CRaw r)) \<Longrightarrow> \<forall>v \<in> set vs. \<forall>r. v \<noteq> CRaw r"
  by (induction xs arbitrary: vs) (auto simp: bindE_Inr_iff, blast)

lemma mapE_read:
  assumes "list_all2 (\<lambda>x c. P x c) xs bs" "\<And>x c. x \<in> set xs \<Longrightarrow> P x c \<Longrightarrow> f c = Inr (h x)"
  shows "mapE f bs = Inr (map h xs)"
  using assms
proof (induction xs bs rule: list_all2_induct)
  case (Cons x xs c bs)
  then have "f c = Inr (h x)" "mapE f bs = Inr (map h xs)" by (simp_all only: list.set_intros)
  then show ?case by simp
qed simp

lemma those_read:
  "list_all2 (\<lambda>x c. P x c) xs bs \<Longrightarrow> (\<And>x c. x \<in> set xs \<Longrightarrow> P x c \<Longrightarrow> \<exists>ds. f c = Some ds \<and> Q x ds) \<Longrightarrow>
    \<exists>dss. those (map f bs) = Some dss \<and> list_all2 Q xs dss"
  by (induction xs bs rule: list_all2_induct) fastforce+

section \<open>Round trip\<close>

lemma read_input:
  assumes "cbor_ok lib" "input_value inp = Inr v" "cbor_Marshal lib v = Inr b"
  shows "\<exists>ds. dec_raws lib b = Some ds \<and> decode_input lib ds = Inr inp"
proof -
  have v: "v = CArray [CBytes (CTxID inp), CUint (CIndex inp)]" using assms(2) by (simp add: input_value_def split: if_splits)
  obtain c d where "dec_raws lib b = Some [c, d]" "cbor_Marshal lib (CBytes (CTxID inp)) = Inr c" "cbor_Marshal lib (CUint (CIndex inp)) = Inr d"
    using two_items [OF assms(1) assms(3) [unfolded v]] by auto
  with cbor_okD(1,2) [OF assms(1)] show ?thesis by (simp add: decode_input_def or_fail_def)
qed

lemma read_witness:
  assumes "cbor_ok lib" "cbor_Marshal lib (CArray [CBytes (VKey w), CBytes (VSignature w)]) = Inr b"
  shows "\<exists>ds. dec_raws lib b = Some ds \<and> decode_witness lib ds = Inr w"
proof -
  obtain c d where "dec_raws lib b = Some [c, d]" "cbor_Marshal lib (CBytes (VKey w)) = Inr c" "cbor_Marshal lib (CBytes (VSignature w)) = Inr d"
    using two_items [OF assms] by auto
  with cbor_okD(2) [OF assms(1)] show ?thesis by (simp add: decode_witness_def or_fail_def)
qed

definition merged_output :: "cardano_output \<Rightarrow> cardano_output" where
  "merged_output out = out\<lparr>Assets := merged_assets (Assets out)\<rparr>"

definition merged_tx :: "cardano_tx \<Rightarrow> cardano_tx" where
  "merged_tx tx = tx\<lparr>COutputs := map merged_output (COutputs tx)\<rparr>"

lemma read_output:
  assumes "cbor_ok lib" "\<And>xs. mset (iter xs) = mset xs" "output_item out = Inr v" "cbor_Marshal lib v = Inr b"
  shows "decodeCardanoOutput lib iter b = Inr (merged_output out)"
proof -
  obtain u where u: "outputValue out = Inr u" "v = CArray [CBytes (OutAddress out), u]"
    using assms(3) by (auto simp: output_item_def bindE_Inr_iff split: if_splits)
  then have "u \<noteq> CRaw r" for r by (auto simp: outputValue_def bindE_Inr_iff split: if_splits)
  then obtain c d where cd: "dec_raws lib b = Some [c, d]" "cbor_Marshal lib (CBytes (OutAddress out)) = Inr c" "cbor_Marshal lib u = Inr d"
    using two_items [OF assms(1) assms(4) [unfolded u(2)]] by auto
  note addr = cbor_okD(2) [OF assms(1) cd(2)]
  show ?thesis
  proof (cases "Assets out = []")
    case True
    then have "dec_uint lib d = Some (OutLovelace out)" using u(1) cd(3) cbor_okD(1) [OF assms(1)] by (simp add: outputValue_def)
    with True cd(1) addr show ?thesis
      by (cases out) (simp add: decodeCardanoOutput_def or_fail_def merged_output_def merged_assets_def)
  next
    case False
    then obtain m where m: "cardanoAssetMap (Assets out) = Inr m" "u = CArray [CUint (OutLovelace out), CAssets m]"
      using u(1) by (auto simp: outputValue_def bindE_Inr_iff)
    obtain e f where ef: "dec_raws lib d = Some [e, f]" "dec_uint lib d = None" "cbor_Marshal lib (CUint (OutLovelace out)) = Inr e"
      "cbor_Marshal lib (CAssets m) = Inr f"
      using two_items [OF assms(1) cd(3) [unfolded m(2)]] by auto
    have "wf_assets m" using cardanoAssetMap_spec [of "Assets out"] m(1) by (auto split: if_splits)
    from cbor_okD(3) [OF assms(1) this ef(4)] cbor_okD(1) [OF assms(1) ef(3)] flatten_merged [OF assms(2) m(1)] ef(1,2) cd(1) addr
    show ?thesis
      by (cases out) (simp add: decodeCardanoOutput_def or_fail_def merged_output_def)
  qed
qed

lemma no_raw_values: "input_value inp \<noteq> Inr (CRaw r)" "output_item out \<noteq> Inr (CRaw r)"
  by (auto simp: input_value_def output_item_def bindE_Inr_iff split: if_splits)

text \<open>A list of items, each read back by its decoder.\<close>

lemma read_array:
  assumes "cbor_ok lib" "mapE f xs = Inr vs" "cbor_Marshal lib (CArray vs) = Inr b" "\<And>x r. f x \<noteq> Inr (CRaw r)"
    and "\<And>x v c. f x = Inr v \<Longrightarrow> cbor_Marshal lib v = Inr c \<Longrightarrow> g c = Inr (h x)"
  shows "\<exists>bs. dec_raws lib b = Some bs \<and> mapE g bs = Inr (map h xs)"
proof -
  have f: "list_all2 (\<lambda>x v. f x = Inr v) xs vs" by (rule mapE_list_all2 [OF assms(2)])
  from array_of [OF assms(1,3) no_raw_results [OF assms(2,4)]] obtain bs
    where bs: "dec_raws lib b = Some bs" "list_all2 (\<lambda>v c. cbor_Marshal lib v = Inr c) vs bs" by blast
  have "list_all2 (\<lambda>x c. g c = Inr (h x)) xs bs"
    using f bs(2) by (rule list_all2_trans [rotated]) (rule assms(5))
  then have "mapE g bs = Inr (map h xs)" by (rule mapE_read)
  with bs(1) show ?thesis by blast
qed

lemma read_array_lists:
  assumes "cbor_ok lib" "mapE f xs = Inr vs" "cbor_Marshal lib (CArray vs) = Inr b" "\<And>x r. f x \<noteq> Inr (CRaw r)"
    and "\<And>x v c. f x = Inr v \<Longrightarrow> cbor_Marshal lib v = Inr c \<Longrightarrow> \<exists>ds. dec_raws lib c = Some ds \<and> g ds = Inr x"
  shows "\<exists>dss. dec_raw_lists lib b = Some dss \<and> mapE g dss = Inr xs"
proof -
  have step: "dec_raws lib c \<noteq> None \<and> g (the (dec_raws lib c)) = Inr x"
    if "f x = Inr v" "cbor_Marshal lib v = Inr c" for x v c
    using assms(5) [OF that] by auto
  have f: "list_all2 (\<lambda>x v. f x = Inr v) xs vs" by (rule mapE_list_all2 [OF assms(2)])
  from array_of [OF assms(1,3) no_raw_results [OF assms(2,4)]] obtain bs
    where bs: "dec_raws lib b = Some bs" "list_all2 (\<lambda>v c. cbor_Marshal lib v = Inr c) vs bs" by blast
  have "list_all2 (\<lambda>x c. dec_raws lib c \<noteq> None \<and> g (the (dec_raws lib c)) = Inr x) xs bs"
    using f bs(2) by (rule list_all2_trans [rotated]) (use step in blast)
  then have "\<exists>dss. those (map (dec_raws lib) bs) = Some dss \<and> list_all2 (\<lambda>x ds. g ds = Inr x) xs dss"
    by (rule those_read) auto
  then obtain dss where "those (map (dec_raws lib) bs) = Some dss" "list_all2 (\<lambda>x ds. g ds = Inr x) xs dss" by blast
  moreover from this(2) have "mapE g dss = Inr (map (\<lambda>x. x) xs)" by (rule mapE_read)
  ultimately show ?thesis using bs(1) cbor_okD(5) [OF assms(1), of b] by simp
qed

lemma or_fail_Some: "or_fail msg (Some x) = Inr x"
  by (simp add: or_fail_def)

lemma body_read:
  assumes "cbor_ok lib" "BodyBytes lib tx = Inr b"
  shows "\<exists>ins outs fee ttl. cbor_Marshal lib (CUint (CFee tx)) = Inr fee \<and>
    dec_raw_map lib b = Some ([(0, ins), (1, outs), (2, fee)] @ (if CTTL tx \<noteq> 0 then [(3, ttl)] else [])) \<and>
    (CTTL tx \<noteq> 0 \<longrightarrow> cbor_Marshal lib (CUint (CTTL tx)) = Inr ttl) \<and>
    (\<exists>vs. mapE input_value (CInputs tx) = Inr vs \<and> cbor_Marshal lib (CArray vs) = Inr ins) \<and>
    (\<exists>vs. mapE output_item (COutputs tx) = Inr vs \<and> cbor_Marshal lib (CArray vs) = Inr outs) \<and>
    (\<exists>v. (\<forall>r. v \<noteq> CRaw r) \<and> cbor_Marshal lib v = Inr b)"
proof -
  obtain ivs ovs where vs: "mapE input_value (CInputs tx) = Inr ivs" "mapE output_item (COutputs tx) = Inr ovs"
    and body: "cbor_Marshal lib (CMap ([(0, CArray ivs), (1, CArray ovs), (2, CUint (CFee tx))] @
      (if CTTL tx \<noteq> 0 then [(3, CUint (CTTL tx))] else []))) = Inr b"
    using assms(2) by (auto simp: BodyBytes_def bodyMap_def bindE_Inr_iff split: if_splits)
  let ?kvs = "[(0 :: 64 word, CArray ivs), (1, CArray ovs), (2, CUint (CFee tx))] @ (if CTTL tx \<noteq> 0 then [(3, CUint (CTTL tx))] else [])"
  have "ordered_map ?kvs" "raws_encoded lib (map snd ?kvs)"
    by (simp, auto simp: raws_encoded_def)
  from cbor_okD(6) [OF assms(1) this body] obtain bs
    where bs: "mapE (cbor_Marshal lib) (map snd ?kvs) = Inr bs" "dec_raw_map lib b = Some (zip (map fst ?kvs) bs)" by blast
  note items = mapE_list_all2 [OF bs(1)]
  obtain ins outs fee ttl where "bs = [ins, outs, fee] @ (if CTTL tx \<noteq> 0 then [ttl] else [])"
    and enc: "cbor_Marshal lib (CArray ivs) = Inr ins" "cbor_Marshal lib (CArray ovs) = Inr outs" "cbor_Marshal lib (CUint (CFee tx)) = Inr fee"
      "CTTL tx \<noteq> 0 \<longrightarrow> cbor_Marshal lib (CUint (CTTL tx)) = Inr ttl"
    using items by (cases "CTTL tx = 0") (auto simp: list_all2_Cons1)
  then have "dec_raw_map lib b = Some ([(0, ins), (1, outs), (2, fee)] @ (if CTTL tx \<noteq> 0 then [(3, ttl)] else []))"
    using bs(2) by (cases "CTTL tx = 0") simp_all
  moreover have "\<exists>v. (\<forall>r. v \<noteq> CRaw r) \<and> cbor_Marshal lib v = Inr b"
    using body by blast
  ultimately show ?thesis using vs enc by blast
qed

lemma witnesses_read:
  assumes "cbor_ok lib" "cbor_Marshal lib (witnessSet tx) = Inr b"
  shows "\<exists>m. dec_raw_map lib b = Some m \<and>
    if_present m 0 [] (\<lambda>rawVkeys. bindE (or_fail e (dec_raw_lists lib rawVkeys)) (mapE (decode_witness lib))) = Inr (CWitnesses tx)"
proof (cases "CWitnesses tx = []")
  case True
  have "raws_encoded lib (map snd ([] :: (64 word \<times> cbor_val) list))" by (simp add: raws_encoded_def)
  with cbor_okD(6) [OF assms(1), of "[]" b] assms(2) True show ?thesis by (simp add: witnessSet_def if_present_def)
next
  case False
  define f where "f w = (Inr (CArray [CBytes (VKey w), CBytes (VSignature w)]) :: cbor_val result)" for w :: cardano_vkey_witness
  let ?vs = "map (\<lambda>w. CArray [CBytes (VKey w), CBytes (VSignature w)]) (CWitnesses tx)"
  have "raws_encoded lib (map snd [(0 :: 64 word, CArray ?vs)])" by (simp add: raws_encoded_def)
  with cbor_okD(6) [OF assms(1), of "[(0, CArray ?vs)]" b] assms(2) False obtain c
    where c: "dec_raw_map lib b = Some [(0, c)]" "cbor_Marshal lib (CArray ?vs) = Inr c"
    by (auto simp: witnessSet_def bindE_Inr_iff)
  have "mapE f (CWitnesses tx) = Inr ?vs" by (rule mapE_all_Inr) (simp add: f_def)
  from read_array_lists [OF assms(1) this c(2), of "decode_witness lib"] read_witness [OF assms(1)]
  have "\<exists>dss. dec_raw_lists lib c = Some dss \<and> mapE (decode_witness lib) dss = Inr (CWitnesses tx)"
    by (simp add: f_def)
  with c(1) show ?thesis by (auto simp: if_present_def or_fail_def)
qed

lemma cardano_unmarshal_marshal:
  assumes "cbor_ok lib" "\<And>xs. mset (iter xs) = mset xs" "Cardano_MarshalBinary lib tx = Inr bs"
  shows "Cardano_UnmarshalBinary lib iter bs = Inr (merged_tx tx)"
proof -
  obtain body where body: "BodyBytes lib tx = Inr body"
    and bs: "cbor_Marshal lib (CArray [CRaw body, witnessSet tx, CBool True, CNil]) = Inr bs"
    using assms(3) by (auto simp: Cardano_MarshalBinary_def bindE_Inr_iff)
  from body_read [OF assms(1) body] obtain ins outs fee ttl ivs ovs v
    where fee: "cbor_Marshal lib (CUint (CFee tx)) = Inr fee" and ttl: "CTTL tx \<noteq> 0 \<longrightarrow> cbor_Marshal lib (CUint (CTTL tx)) = Inr ttl"
      and m: "dec_raw_map lib body = Some ([(0, ins), (1, outs), (2, fee)] @ (if CTTL tx \<noteq> 0 then [(3, ttl)] else []))"
      and ins: "mapE input_value (CInputs tx) = Inr ivs" "cbor_Marshal lib (CArray ivs) = Inr ins"
      and outs: "mapE output_item (COutputs tx) = Inr ovs" "cbor_Marshal lib (CArray ovs) = Inr outs"
      and v: "\<forall>r. v \<noteq> CRaw r" "cbor_Marshal lib v = Inr body" by blast
  have "raws_encoded lib [CRaw body, witnessSet tx, CBool True, CNil]"
    using v by (auto simp: raws_encoded_def witnessSet_def)
  from cbor_okD(4) [OF assms(1) this bs] cbor_okD(7) [OF assms(1) v(2)] obtain ws rest
    where raws: "dec_raws lib bs = Some (body # ws # rest)" "cbor_Marshal lib (witnessSet tx) = Inr ws"
    by (auto simp: bindE_Inr_iff)
  obtain wm where wm: "dec_raw_map lib ws = Some wm"
    "if_present wm 0 [] (\<lambda>rawVkeys. bindE (or_fail ''failed to decode vkey witnesses: %w'' (dec_raw_lists lib rawVkeys)) (mapE (decode_witness lib))) =
      Inr (CWitnesses tx)"
    using witnesses_read [OF assms(1) raws(2)] by blast
  obtain dss where dss: "dec_raw_lists lib ins = Some dss" "mapE (decode_input lib) dss = Inr (CInputs tx)"
    using read_array_lists [OF assms(1) ins(1,2) no_raw_values(1)] read_input [OF assms(1)] by blast
  obtain obs where obs: "dec_raws lib outs = Some obs" "mapE (decodeCardanoOutput lib iter) obs = Inr (map merged_output (COutputs tx))"
    using read_array [OF assms(1) outs(1,2) no_raw_values(2)] read_output [where iter = iter, OF assms(1,2)] by blast
  note nums = cbor_okD(1) [OF assms(1) fee] cbor_okD(1) [OF assms(1), of "CTTL tx" ttl]
  have "Cardano_UnmarshalBinary lib iter bs =
      Inr \<lparr>CInputs = CInputs tx, COutputs = map merged_output (COutputs tx), CFee = CFee tx, CTTL = CTTL tx, CWitnesses = CWitnesses tx\<rparr>"
    using ttl nums unfolding Cardano_UnmarshalBinary_def
    by (cases "CTTL tx = 0") (simp_all add: raws m dss obs wm if_present_def [of "_ # _ # _"] or_fail_Some)
  then show ?thesis by (cases tx) (simp add: merged_tx_def)
qed

section \<open>A reference library\<close>

text \<open>
  A format that has what the code relies on: an item is a tag and escaped bytes up to a zero, an array or
  a map an item that holds the items of its contents.
\<close>

fun esc :: "bytes \<Rightarrow> bytes" where
  "esc [] = [0]"
| "esc (b # bs) = 1 # b # esc bs"

fun unesc :: "bytes decoder" where
  "unesc [] = fail ''truncated''"
| "unesc [c] = (if c = 0 then Inr ([], []) else fail ''truncated'')"
| "unesc (c # b # bs) = (if c = 0 then Inr ([], b # bs) else bindE (unesc bs) (\<lambda>(p, r). Inr (b # p, r)))"

definition item :: "byte \<times> bytes \<Rightarrow> bytes" where
  "item tp = fst tp # esc (snd tp)"

fun dec_item :: "(byte \<times> bytes) decoder" where
  "dec_item [] = fail ''truncated''"
| "dec_item (t # bs) = bindE (unesc bs) (\<lambda>(p, r). Inr ((t, p), r))"

lemma unesc_esc: "unesc (esc p @ r) = Inr (p, r)"
proof (induction p)
  case Nil
  then show ?case by (cases r) simp_all
qed simp

interpretation items: stream_codec item dec_item "\<lambda>_. True"
  by unfold_locales (simp_all add: item_def unesc_esc)

definition as_item :: "bytes \<Rightarrow> (byte \<times> bytes) option" where
  "as_item b = (case dec_item b of Inr (tp, []) \<Rightarrow> Some tp | _ \<Rightarrow> None)"

definition read_items :: "bytes \<Rightarrow> (byte \<times> bytes) list option" where
  "read_items p = (case dec_all dec_item (length p) p of Inr its \<Rightarrow> Some its | Inl e \<Rightarrow> None)"

lemma as_item_item [simp]: "as_item (item tp) = Some tp"
  using items.dec_enc_exact [of tp] by (simp add: as_item_def)

lemma read_items_concat [simp]: "read_items (concat (map item its)) = Some its"
  by (simp add: read_items_def items.dec_stream)

fun pair_up :: "'a list \<Rightarrow> ('a \<times> 'a) list" where
  "pair_up (a # b # xs) = (a, b) # pair_up xs"
| "pair_up xs = []"

definition name_items :: "(bytes, 64 word) go_map \<Rightarrow> (byte \<times> bytes) list" where
  "name_items i = concat (map (\<lambda>(n, v). [(1, n), (0, be_encode 8 (unat v))]) i)"

definition asset_items :: "asset_map \<Rightarrow> (byte \<times> bytes) list" where
  "asset_items m = concat (map (\<lambda>(p, i). [(1, p), (4, concat (map item (name_items i)))]) m)"

fun ref_enc :: "cbor_val \<Rightarrow> bytes" where
  "ref_enc (CUint n) = item (0, be_encode 8 (unat n))"
| "ref_enc (CBytes b) = item (1, b)"
| "ref_enc (CArray vs) = item (2, concat (map ref_enc vs))"
| "ref_enc (CMap kvs) = item (3, concat (map (\<lambda>kv. item (0, be_encode 8 (unat (fst kv))) @ ref_enc (snd kv)) kvs))"
| "ref_enc (CAssets m) = item (4, concat (map item (asset_items m)))"
| "ref_enc (CBool b) = item (5, if b then [1] else [0])"
| "ref_enc CNil = item (6, [])"
| "ref_enc (CRaw b) = b"

definition tagged :: "byte \<Rightarrow> bytes \<Rightarrow> bytes option" where
  "tagged t b = (case as_item b of Some (t', p) \<Rightarrow> if t = t' then Some p else None | None \<Rightarrow> None)"

definition ref_raws :: "bytes \<Rightarrow> bytes list option" where
  "ref_raws b = (case tagged 2 b of Some p \<Rightarrow> map_option (map item) (read_items p) | None \<Rightarrow> None)"

definition ref_assets :: "bytes \<Rightarrow> asset_map option" where
  "ref_assets b =
     (case tagged 4 b of
        None \<Rightarrow> None
      | Some p \<Rightarrow>
          map_option (\<lambda>its. map (\<lambda>(p, q). (snd p, case read_items (snd q) of None \<Rightarrow> []
            | Some ns \<Rightarrow> map (\<lambda>(n, v). (snd n, word_of_nat (be_decode (snd v)))) (pair_up ns))) (pair_up its)) (read_items p))"

definition ref_cbor :: cbor_lib where
  "ref_cbor =
     \<lparr>cbor_Marshal = (\<lambda>v. Inr (ref_enc v)), dec_raws = ref_raws,
      dec_raw_lists = (\<lambda>b. case ref_raws b of None \<Rightarrow> None | Some bs \<Rightarrow> those (map ref_raws bs)),
      dec_raw_map = (\<lambda>b. case tagged 3 b of None \<Rightarrow> None
        | Some p \<Rightarrow> map_option (\<lambda>its. map (\<lambda>(k, v). (word_of_nat (be_decode (snd k)), item v)) (pair_up its)) (read_items p)),
      dec_uint = (\<lambda>b. map_option (\<lambda>p. word_of_nat (be_decode p)) (tagged 0 b)),
      dec_bytes = tagged 1, dec_assets = ref_assets, blake2b256 = (\<lambda>b. take 32 (b @ replicate 32 0))\<rparr>"

lemma tagged_item [simp]: "tagged t (item (t', p)) = (if t = t' then Some p else None)"
  by (simp add: tagged_def)

lemma be_word [simp]: "word_of_nat (be_decode (be_encode 8 (unat (n :: 64 word)))) = n"
proof -
  have "unat n < 256 ^ 8" by simp
  then show ?thesis by (simp add: be_decode_encode)
qed

lemma name_items_back: "map (\<lambda>(n, v). (snd n, word_of_nat (be_decode (snd v)))) (pair_up (name_items i)) = i"
  by (induction i) (auto simp: name_items_def)

lemma asset_items_back:
  "map (\<lambda>(p, q). (snd p, case read_items (snd q) of None \<Rightarrow> []
     | Some ns \<Rightarrow> map (\<lambda>(n, v). (snd n, word_of_nat (be_decode (snd v)))) (pair_up ns))) (pair_up (asset_items m)) = m"
proof (induction m)
  case (Cons e m)
  have "asset_items (e # m) = [(1, fst e), (4, concat (map item (name_items (snd e))))] @ asset_items m"
    by (simp add: asset_items_def split_def)
  with Cons show ?case by (simp add: name_items_back)
qed (simp add: asset_items_def)

text \<open>Every encoding but a raw one is an item.\<close>

lemma ref_enc_item: "(\<And>x. v \<noteq> CRaw x) \<Longrightarrow> \<exists>tp. ref_enc v = item tp"
  by (cases v) auto

lemma ref_items: "raws_encoded ref_cbor vs \<Longrightarrow> \<exists>its. map ref_enc vs = map item its"
proof (induction vs)
  case (Cons v vs)
  then obtain its where its: "map ref_enc vs = map item its" by (auto simp: raws_encoded_def)
  have "\<exists>tp. ref_enc v = item tp"
  proof (cases "\<exists>r. v = CRaw r")
    case True
    then show ?thesis using Cons.prems ref_enc_item by (auto simp: raws_encoded_def ref_cbor_def)
  next
    case False
    then show ?thesis by (intro ref_enc_item) blast
  qed
  then obtain tp where "ref_enc v = item tp" by blast
  with its have "map ref_enc (v # vs) = map item (tp # its)" by simp
  then show ?case by blast
qed simp

lemma pair_items: "pair_up (concat (map (\<lambda>e. [g (fst e), snd e]) xs)) = map (\<lambda>e. (g (fst e), snd e)) xs"
  by (induction xs) simp_all

lemma entry_items:
  "concat (map (\<lambda>(k, tp). item (g k) @ item tp) xs) = concat (map item (concat (map (\<lambda>(k, tp). [g k, tp]) xs)))"
  by (induction xs) auto

lemma ref_cbor_ok: "cbor_ok ref_cbor"
proof -
  have marshal: "mapE (cbor_Marshal ref_cbor) vs = Inr (map ref_enc vs)" for vs
    by (rule mapE_all_Inr) (simp add: ref_cbor_def)
  have arrays: "dec_uint ref_cbor (ref_enc (CArray vs)) = None \<and> dec_raws ref_cbor (ref_enc (CArray vs)) = Some (map ref_enc vs)"
    if "raws_encoded ref_cbor vs" for vs
  proof -
    from ref_items [OF that] obtain its where "map ref_enc vs = map item its" by blast
    then show ?thesis by (simp add: ref_cbor_def ref_raws_def)
  qed
  have maps: "dec_raw_map ref_cbor (ref_enc (CMap kvs)) = Some (zip (map fst kvs) (map ref_enc (map snd kvs)))"
    if "raws_encoded ref_cbor (map snd kvs)" for kvs
  proof -
    from ref_items [OF that] obtain its where its: "map ref_enc (map snd kvs) = map item its" by blast
    then have len: "length its = length kvs" by (metis length_map)
    have "map (\<lambda>kv. item (0, be_encode 8 (unat (fst kv))) @ ref_enc (snd kv)) kvs =
        map (\<lambda>(k, tp). item (0, be_encode 8 (unat k)) @ item tp) (zip (map fst kvs) its)"
      using its len by (induction kvs arbitrary: its) (auto simp: length_Suc_conv)
    also have "concat \<dots> = concat (map item (concat (map (\<lambda>(k, tp). [(0, be_encode 8 (unat k)), tp]) (zip (map fst kvs) its))))"
      by (rule entry_items)
    finally show ?thesis
      unfolding its by (simp add: ref_cbor_def split_def comp_def zip_map2 pair_items [of "\<lambda>k. (0, be_encode 8 (unat (k :: 64 word)))"])
  qed
  have raws: "dec_raws ref_cbor = ref_raws" by (simp add: ref_cbor_def)
  have enc: "cbor_Marshal ref_cbor v = Inr b \<longleftrightarrow> b = ref_enc v" for v b by (auto simp: ref_cbor_def)
  have "dec_assets ref_cbor (ref_enc (CAssets m)) = Some m" for m
    by (simp add: ref_cbor_def ref_assets_def asset_items_back)
  moreover have "dec_uint ref_cbor (ref_enc (CUint n)) = Some n" "dec_bytes ref_cbor (ref_enc (CBytes x)) = Some x" for n x
    by (simp_all add: ref_cbor_def)
  moreover have "dec_raw_lists ref_cbor b = (case ref_raws b of None \<Rightarrow> None | Some bs \<Rightarrow> those (map ref_raws bs))" for b
    by (simp add: ref_cbor_def)
  ultimately show ?thesis
    unfolding cbor_ok_def marshal enc using arrays maps unfolding raws by simp
qed

section \<open>Properties\<close>


definition demo_cardano :: cardano_tx where
  "demo_cardano =
     \<lparr>CInputs = [\<lparr>CTxID = replicate 32 7, CIndex = 1\<rparr>],
      COutputs = [\<lparr>OutAddress = [0x61, 1, 2], OutLovelace = 5, Assets = []\<rparr>,
        \<lparr>OutAddress = [0x61, 3], OutLovelace = 6,
         Assets = [\<lparr>PolicyID = [9], AssetName = [1], AssetAmount = 3\<rparr>, \<lparr>PolicyID = [8], AssetName = [], AssetAmount = 4\<rparr>,
           \<lparr>PolicyID = [9], AssetName = [1], AssetAmount = 5\<rparr>]\<rparr>],
      CFee = 170000, CTTL = 0, CWitnesses = []\<rparr>"

lemma demo_marshals: "\<exists>bs. Cardano_MarshalBinary ref_cbor demo_cardano = Inr bs"
proof -
  have "isl (bodyMap demo_cardano) = False" by code_simp
  then obtain m where "bodyMap demo_cardano = Inr m" by (cases "bodyMap demo_cardano") simp_all
  then show ?thesis by (simp add: Cardano_MarshalBinary_def BodyBytes_def ref_cbor_def)
qed


text \<open>
  C29: merging native assets adds up the amounts of each policy and name exactly; it fails if and only if
  some sum does not fit 64 bits, and otherwise flattening the merged map, in any range order, gives one
  entry per policy and name, sorted, whatever the order of the assets.
\<close>

theorem cardano_assets_merged:
  assumes "\<And>xs. mset (iter xs) = mset xs" "mset bs = mset as"
  shows "if \<forall>k. asset_total as k < 2 ^ 64
    then \<exists>m. cardanoAssetMap as = Inr m \<and> cardanoAssetMap bs = Inr m \<and> flattenCardanoAssets iter m = merged_assets as
    else cardanoAssetMap as = fail ''cardano asset amount overflow for policy %x asset %x'' \<and> cardanoAssetMap bs = cardanoAssetMap as"
proof (cases "\<forall>k. asset_total as k < 2 ^ 64")
  case True
  with cardanoAssetMap_spec [of as] obtain m where m: "cardanoAssetMap as = Inr m" by (auto simp del: split_paired_All)
  from flatten_merged [OF assms(1) m] cardanoAssetMap_order [OF assms(2)] m True show ?thesis by (simp del: split_paired_All)
next
  case False
  with cardanoAssetMap_spec [of as] cardanoAssetMap_order [OF assms(2)] show ?thesis by (simp del: split_paired_All)
qed

theorem cardano_assets_merged_witness:
  "\<exists>m. cardanoAssetMap (Assets (COutputs demo_cardano ! 1)) = Inr m \<and>
    cardanoAssetMap (rev (Assets (COutputs demo_cardano ! 1))) = Inr m \<and>
    flattenCardanoAssets rev m = merged_assets (Assets (COutputs demo_cardano ! 1))"
proof -
  let ?as = "Assets (COutputs demo_cardano ! 1)"
  have "asset_total ?as k < 2 ^ 64" for k by (simp add: demo_cardano_def asset_total_def)
  with cardano_assets_merged [of rev "rev ?as" ?as] show ?thesis by auto
qed

section \<open>Signatures\<close>

lemma sign_witnesses_extended:
  assumes "ed_ok elib" "list_all (wf_key elib) keys"
  shows "sign_witnesses digest (map (extended_signer elib) keys) tx =
    (tx\<lparr>CWitnesses := CWitnesses tx @ map (\<lambda>ek. \<lparr>VKey = CardanoPublicKey ek, VSignature = SignCardano elib ek digest\<rparr>) keys\<rparr>, Inr ())"
  using assms(2)
proof (induction keys arbitrary: tx)
  case (Cons ek keys)
  then have wf: "wf_key elib ek" by simp
  then have "length (CardanoPublicKey ek) = 32"
    using reduced_scalar(3) [OF assms(1), of "kScalar ek"] ed_okD(7) [OF assms(1)] by (simp add: wf_key_def CardanoPublicKey_def)
  moreover have "length (SignCardano elib ek digest) = 64"
    using SignCardano_valid [OF assms(1) wf, of digest] by (simp add: ed_verifies_def)
  ultimately show ?case
    using Cons by (simp add: extended_signer_def Let_def)
qed simp

lemma body_unsigned: "BodyBytes lib (tx\<lparr>CWitnesses := ws\<rparr>) = BodyBytes lib tx"
  by (simp add: BodyBytes_def bodyMap_def)

text \<open>
  C17: signing with extended keys always succeeds on a transaction that has a hash, leaves the hash alone
  and appends, in the order of the keys, witnesses that are valid Ed25519 signatures of it.
\<close>

theorem cardano_witnesses_valid:
  assumes "ed_ok elib" "list_all (wf_key elib) keys" "Cardano_Hash lib tx = Inr digest"
  shows "\<exists>tx' ws. SignWith lib (map (extended_signer elib) keys) tx = (tx', Inr ()) \<and> Cardano_Hash lib tx' = Inr digest \<and>
    CWitnesses tx' = CWitnesses tx @ ws \<and> map VKey ws = map CardanoPublicKey keys \<and>
    list_all (\<lambda>w. ed_verifies elib (VKey w) digest (VSignature w)) ws"
proof -
  let ?ws = "map (\<lambda>ek. \<lparr>VKey = CardanoPublicKey ek, VSignature = SignCardano elib ek digest\<rparr>) keys"
  have "SignWith lib (map (extended_signer elib) keys) tx = (tx\<lparr>CWitnesses := CWitnesses tx @ ?ws\<rparr>, Inr ())"
    using assms(3) by (simp add: SignWith_def Cardano_Hash_def sign_witnesses_extended [OF assms(1,2)])
  moreover have "Cardano_Hash lib (tx\<lparr>CWitnesses := CWitnesses tx @ ?ws\<rparr>) = Inr digest"
    using assms(3) by (simp add: Cardano_Hash_def Cardano_SignBytes_def body_unsigned)
  moreover have "list_all (\<lambda>w. ed_verifies elib (VKey w) digest (VSignature w)) ?ws"
    using assms(2) SignCardano_valid [OF assms(1)] by (auto simp: list_all_iff CardanoPublicKey_def)
  ultimately show ?thesis by (intro exI conjI) (assumption, simp_all)
qed

theorem cardano_witnesses_valid_witness:
  "\<exists>ek digest tx' ws. NewCardanoExtendedKey toy_ed (replicate 64 7) = Inr ek \<and> Cardano_Hash ref_cbor demo_cardano = Inr digest \<and>
    SignWith ref_cbor [extended_signer toy_ed ek] demo_cardano = (tx', Inr ()) \<and> CWitnesses tx' = ws \<and>
    map (\<lambda>w. ed_verifies toy_ed (VKey w) digest (VSignature w)) ws = [True]"
proof -
  obtain ek where ek: "NewCardanoExtendedKey toy_ed (replicate 64 7) = Inr ek"
    by (simp add: NewCardanoExtendedKey_def)
  obtain bs where "Cardano_MarshalBinary ref_cbor demo_cardano = Inr bs" using demo_marshals by blast
  then obtain digest where d: "Cardano_Hash ref_cbor demo_cardano = Inr digest"
    by (auto simp: Cardano_MarshalBinary_def Cardano_Hash_def Cardano_SignBytes_def bindE_Inr_iff)
  have "list_all (wf_key toy_ed) [ek]" using wf_new_key [OF ek] by simp
  from cardano_witnesses_valid [OF toy_ed_ok this d] obtain tx' ws
    where sw: "SignWith ref_cbor [extended_signer toy_ed ek] demo_cardano = (tx', Inr ())" "CWitnesses tx' = ws"
      and ws: "map VKey ws = [CardanoPublicKey ek]" "list_all (\<lambda>w. ed_verifies toy_ed (VKey w) digest (VSignature w)) ws"
    by (auto simp: demo_cardano_def)
  obtain w where w: "ws = [w]" using ws(1) by (auto simp: map_eq_Cons_conv)
  with ws(2) have "map (\<lambda>w. ed_verifies toy_ed (VKey w) digest (VSignature w)) ws = [True]" by simp
  then show ?thesis
    by (intro exI conjI) (rule ek, rule d, rule sw(1), rule sw(2))
qed

end
