(* ===== verification/EvmJson.thy ===== *)
theory EvmJson
  imports EvmSign Amount
begin

text \<open>
  The JSON form of EVM transactions (\<^verbatim>\<open>evmtx.go\<close>, \<^verbatim>\<open>evmaccesslist.go\<close>,
  \<^verbatim>\<open>evmtx7702.go\<close>), between the transaction and the object that \<open>encoding/json\<close> writes
  and reads: a missing text is empty, a JSON \<open>null\<close> for an object is \<open>None\<close>. What the receiver
  holds after an error is not modelled.
\<close>

section \<open>\<open>strconv\<close> and \<open>math/big\<close>\<close>

fun format_hex :: "nat \<Rightarrow> string" where
  "format_hex n = (if n < 16 then [hex_digit n] else format_hex (n div 16) @ [hex_digit (n mod 16)])"

declare format_hex.simps [simp del]

text \<open>\<open>Text(16)\<close>, of a nil number too\<close>

definition big_text :: "int option \<Rightarrow> string" where
  "big_text v = (case v of None \<Rightarrow> ''<nil>'' | Some i \<Rightarrow> (if i < 0 then ''-'' else []) @ format_hex (nat \<bar>i\<bar>))"

text \<open>
  Numbers of base 0: a prefix names the base, a leading zero alone octal, and an underscore may stand
  between digits or after the prefix.
\<close>

definition split_prefix :: "string \<Rightarrow> nat \<times> string" where
  "split_prefix s =
     (if length s \<ge> 2 \<and> s ! 0 = CHR ''0'' then
        (if s ! 1 \<in> {CHR ''x'', CHR ''X''} then (16, drop 2 s)
         else if s ! 1 \<in> {CHR ''o'', CHR ''O''} then (8, drop 2 s)
         else if s ! 1 \<in> {CHR ''b'', CHR ''B''} then (2, drop 2 s)
         else (8, drop 1 s))
      else (10, s))"

fun underscores_ok :: "bool \<Rightarrow> string \<Rightarrow> bool" where
  "underscores_ok after_digit [] = True"
| "underscores_ok after_digit (c # cs) =
     (if c = CHR ''_'' then after_digit \<and> cs \<noteq> [] \<and> underscores_ok False cs else underscores_ok True cs)"

fun digits_value :: "nat \<Rightarrow> nat \<Rightarrow> string \<Rightarrow> nat option" where
  "digits_value base n [] = Some n"
| "digits_value base n (c # cs) =
     (if c = CHR ''_'' then digits_value base n cs
      else case digit_value c of
        None \<Rightarrow> None
      | Some d \<Rightarrow> if d \<ge> base then None else digits_value base (n * base + d) cs)"

definition parse_literal :: "string \<Rightarrow> nat option" where
  "parse_literal s =
     (let (base, ds) = split_prefix s in
      if ds = [] \<or> \<not> underscores_ok (base \<noteq> 10) ds then None else digits_value base 0 ds)"

text \<open>\<open>ParseUint\<close> reports the first digit that is bad or too much, then misplaced underscores.\<close>

definition ParseUint0 :: "string \<Rightarrow> 64 word result" where
  "ParseUint0 s =
     (let (base, ds) = split_prefix s in
      if ds = [] then Inl (Error ErrSyntax)
      else bindE (parse_digits base 0 (filter (\<lambda>c. c \<noteq> CHR ''_'') ds)) (\<lambda>n.
           if underscores_ok (base \<noteq> 10) ds then Inr (word_of_nat n) else Inl (Error ErrSyntax)))"

definition SetString0 :: "string \<Rightarrow> int option" where
  "SetString0 s =
     (case s of
        c # cs \<Rightarrow>
          if c = CHR ''-'' then map_option (\<lambda>n. - int n) (parse_literal cs)
          else if c = CHR ''+'' then map_option int (parse_literal cs)
          else map_option int (parse_literal s)
      | [] \<Rightarrow> None)"

section \<open>The objects\<close>

record access_json =
  JAccessAddress :: string
  JStorageKeys :: "string list"

record auth_json =
  JAuthChainId :: string
  JAuthAddress :: string
  JAuthNonce :: string
  JYParity :: string
  JAuthR :: string
  JAuthS :: string

record evm_json =
  JFrom :: string
  JGas :: string
  JGasPrice :: string
  JGasTipCap :: string
  JGasFeeCap :: string
  JInput :: string
  JNonce :: string
  JTo :: string
  JValue :: string
  JChainId :: string
  JV :: string
  JR :: string
  JS :: string
  JAccessList :: "access_json option list"
  JAuthorizationList :: "auth_json option list"

definition hex_uint :: "64 word \<Rightarrow> string" where
  "hex_uint v = ''0x'' @ format_hex (unat v)"

definition hex_big :: "int option \<Rightarrow> string" where
  "hex_big v = ''0x'' @ big_text v"

definition access_toJson :: "evm_access_tuple \<Rightarrow> access_json" where
  "access_toJson t = \<lparr>JAccessAddress = AccessAddress t, JStorageKeys = StorageKeys t\<rparr>"

definition toAccessTuple :: "access_json option \<Rightarrow> evm_access_tuple result" where
  "toAccessTuple j =
     (case j of None \<Rightarrow> Inl Panic
      | Some j \<Rightarrow> Inr \<lparr>AccessAddress = JAccessAddress j, StorageKeys = JStorageKeys j\<rparr>)"

definition auth_toJson :: "evm_authorization \<Rightarrow> auth_json" where
  "auth_toJson a =
     (let j = \<lparr>JAuthChainId = hex_uint (AuthChainId a), JAuthAddress = AuthAddress a, JAuthNonce = hex_uint (AuthNonce a),
               JYParity = [], JAuthR = [], JAuthS = []\<rparr>
      in if AuthSigned a then j\<lparr>JYParity := hex_big (AuthY a), JAuthR := hex_big (AuthR a), JAuthS := hex_big (AuthS a)\<rparr> else j)"

text \<open>A field that is present is parsed, another keeps its value.\<close>

definition uint_field :: "string \<Rightarrow> 64 word \<Rightarrow> 64 word result" where
  "uint_field s d = (if s \<noteq> [] then ParseUint0 s else Inr d)"

definition set_big :: "string \<Rightarrow> string \<Rightarrow> int option result" where
  "set_big msg s = (case SetString0 s of Some i \<Rightarrow> Inr (Some i) | None \<Rightarrow> fail msg)"

definition big_field :: "string \<Rightarrow> string \<Rightarrow> int option \<Rightarrow> int option result" where
  "big_field msg s d = (if s \<noteq> [] then set_big msg s else Inr d)"

definition list_field :: "('j \<Rightarrow> 'a result) \<Rightarrow> 'j list \<Rightarrow> 'a list \<Rightarrow> 'a list result" where
  "list_field f js d = (if js \<noteq> [] then mapE f js else Inr d)"

lemma list_field_Nil: "list_field f [] d = Inr d"
  by (simp add: list_field_def)

definition toAuthorization :: "auth_json option \<Rightarrow> evm_authorization result" where
  "toAuthorization j =
     (case j of None \<Rightarrow> Inl Panic
      | Some j \<Rightarrow>
          bindE (uint_field (JAuthChainId j) 0) (\<lambda>c.
          bindE (uint_field (JAuthNonce j) 0) (\<lambda>n.
          let a = \<lparr>AuthChainId = c, AuthAddress = JAuthAddress j, AuthNonce = n, AuthSigned = False, AuthY = None, AuthR = None, AuthS = None\<rparr> in
          if JYParity j \<noteq> [] \<and> JAuthR j \<noteq> [] \<and> JAuthS j \<noteq> [] then
            bindE (set_big ''invalid yParity in authorization'' (JYParity j)) (\<lambda>y.
            bindE (set_big ''invalid r in authorization'' (JAuthR j)) (\<lambda>r.
            bindE (set_big ''invalid s in authorization'' (JAuthS j)) (\<lambda>s.
            Inr (a\<lparr>AuthSigned := True, AuthY := y, AuthR := r, AuthS := s\<rparr>))))
          else Inr a)))"

section \<open>Transactions\<close>

text \<open>
  The object of a transaction. Naming the sender reads the signature, which sets the chain of a legacy
  transaction after the object got its own.
\<close>

definition EvmTx_MarshalJSON :: "'k evm_lib \<Rightarrow> 'p crypto \<Rightarrow> evm_tx \<Rightarrow> evm_tx \<times> evm_json result" where
  "EvmTx_MarshalJSON lib cr tx =
     (let obj = \<lparr>JFrom = [], JGas = hex_uint (Gas tx), JGasPrice = [], JGasTipCap = [], JGasFeeCap = [], JInput = ''0x'' @ hex_encode (Data tx),
                 JNonce = hex_uint (Nonce tx), JTo = To tx, JValue = hex_big (Value tx), JChainId = hex_uint (ChainId tx),
                 JV = [], JR = [], JS = [], JAccessList = [], JAuthorizationList = []\<rparr>;
          obj = (if TxType tx = EvmTxLegacy then obj\<lparr>JGasPrice := hex_big (GasFeeCap tx)\<rparr>
                 else obj\<lparr>JGasFeeCap := hex_big (GasFeeCap tx), JGasTipCap := hex_big (GasTipCap tx)\<rparr>);
          obj = obj\<lparr>JAccessList := map (\<lambda>t. Some (access_toJson t)) (AccessList tx),
                     JAuthorizationList := map (\<lambda>a. Some (auth_toJson a)) (AuthList tx)\<rparr>
      in if Signed tx then
           (case SenderAddress lib cr tx of
              (tx, Inl Panic) \<Rightarrow> (tx, Inl Panic)
            | (tx, r) \<Rightarrow>
                (tx, Inr (obj\<lparr>JFrom := (case r of Inr from_addr \<Rightarrow> from_addr | Inl e \<Rightarrow> []), JV := hex_big (TxY tx), JR := hex_big (TxR tx),
                            JS := hex_big (TxS tx)\<rparr>)))
         else (tx, Inr obj))"

definition parseEthBufferHex :: "string \<Rightarrow> bytes result" where
  "parseEthBufferHex buf = (if length buf < 2 then fail ''eth buffer must start with 0x'' else hex_decode (drop 2 buf))"

definition json_gas :: "evm_json \<Rightarrow> evm_tx \<Rightarrow> evm_tx result" where
  "json_gas obj tx =
     (if JGasFeeCap obj \<noteq> [] \<and> JGasTipCap obj \<noteq> [] then
        bindE (set_big ''invalid value in gasPrice'' (JGasFeeCap obj)) (\<lambda>f.
        bindE (set_big ''invalid value in gasPrice'' (JGasTipCap obj)) (\<lambda>t.
        Inr (tx\<lparr>GasFeeCap := f, GasTipCap := t, TxType := EvmTxEIP1559\<rparr>)))
      else bindE (big_field ''invalid value in gasPrice'' (JGasPrice obj) (GasFeeCap tx)) (\<lambda>f. Inr (tx\<lparr>GasFeeCap := f\<rparr>)))"

definition EvmTx_UnmarshalJSON :: "evm_json option \<Rightarrow> evm_tx \<Rightarrow> evm_tx result" where
  "EvmTx_UnmarshalJSON obj tx =
     (case obj of None \<Rightarrow> Inl Panic
      | Some obj \<Rightarrow>
          bindE (uint_field (JGas obj) (Gas tx)) (\<lambda>g.
          bindE (json_gas obj (tx\<lparr>Gas := g\<rparr>)) (\<lambda>tx.
          bindE (if JInput obj \<noteq> [] then parseEthBufferHex (JInput obj) else Inr (Data tx)) (\<lambda>inp.
          bindE (uint_field (JNonce obj) (Nonce tx)) (\<lambda>n.
          bindE (big_field ''invalid value in value'' (JValue obj) (Value tx)) (\<lambda>v.
          bindE (uint_field (JChainId obj) (ChainId tx)) (\<lambda>c.
          bindE (big_field ''invalid value in v'' (JV obj) (TxY tx)) (\<lambda>y.
          bindE (big_field ''invalid value in r'' (JR obj) (TxR tx)) (\<lambda>r.
          bindE (big_field ''invalid value in s'' (JS obj) (TxS tx)) (\<lambda>s.
          bindE (list_field toAccessTuple (JAccessList obj) (AccessList tx)) (\<lambda>al.
          bindE (list_field toAuthorization (JAuthorizationList obj) (AuthList tx)) (\<lambda>auths.
          Inr (tx\<lparr>Data := inp, Nonce := n, To := (if JTo obj \<noteq> [] then JTo obj else To tx), Value := v, ChainId := c,
                   TxY := y, TxR := r, TxS := s, AccessList := al, AuthList := auths,
                   TxType := (if JAuthorizationList obj \<noteq> [] then EvmTxEIP7702 else TxType tx),
                   Signed := (Signed tx \<or> y \<noteq> None \<and> r \<noteq> None \<and> s \<noteq> None)\<rparr>)))))))))))))"

section \<open>Numbers in hexadecimal\<close>

lemma format_hex_digits:
  "set (format_hex n) \<subseteq> hex_digit ` {..<16} \<and> format_hex n \<noteq> []"
proof (induction n rule: format_hex.induct)
  case (1 n)
  then show ?case by (subst (1 2) format_hex.simps) auto
qed

lemma hex_digit_value: "n < 16 \<Longrightarrow> digit_value (hex_digit n) = Some n \<and> hex_digit n \<noteq> CHR ''_''"
proof -
  assume "n < 16"
  then have "n \<in> {0,1,2,3,4,5,6,7,8,9,10,11,12,13,14,15}" by (simp, arith)
  then show ?thesis by (elim insertE) (simp_all add: digit_value_def hex_digit_def)
qed

lemma format_hex_clean: "CHR ''_'' \<notin> set (format_hex n)"
  using format_hex_digits [of n] hex_digit_value by fastforce

lemma digits_value_append:
  "digits_value base n (s @ t) = (case digits_value base n s of None \<Rightarrow> None | Some m \<Rightarrow> digits_value base m t)"
  by (induction s arbitrary: n) (auto split: option.split)

lemma digits_value_hex: "digits_value 16 0 (format_hex n) = Some n"
proof (induction n rule: format_hex.induct)
  case (1 n)
  moreover have "n mod 16 < 16" by simp
  ultimately show ?case
    using hex_digit_value [of n] hex_digit_value [of "n mod 16"]
    by (subst format_hex.simps) (simp add: digits_value_append, presburger)
qed

lemma underscores_hex: "CHR ''_'' \<notin> set s \<Longrightarrow> underscores_ok b s"
  by (induction s arbitrary: b) auto

lemma parse_literal_hex: "parse_literal (''0x'' @ format_hex n) = Some n"
  using format_hex_digits [of n] by (simp add: parse_literal_def split_prefix_def underscores_hex digits_value_hex format_hex_clean)

lemma digits_value_mono: "0 < base \<Longrightarrow> digits_value base n s = Some m \<Longrightarrow> n \<le> m"
proof (induction s arbitrary: n)
  case (Cons c s)
  have "n \<le> n * base + d" for d using Cons.prems(1) by (simp add: trans_le_add1)
  with Cons show ?case by (force split: if_splits option.splits dest: le_trans)
qed simp

lemma parse_digits_value:
  "0 < base \<Longrightarrow> CHR ''_'' \<notin> set s \<Longrightarrow> digits_value base n s = Some m \<Longrightarrow> m < 2 ^ 64 \<Longrightarrow> parse_digits base n s = Inr m"
proof (induction s arbitrary: n)
  case (Cons c s)
  then obtain d where d: "digit_value c = Some d" "d < base" "digits_value base (n * base + d) s = Some m"
    by (auto split: if_splits option.splits)
  with Cons digits_value_mono [OF Cons.prems(1) d(3)] show ?case by simp
qed simp

lemma ParseUint0_hex [simp]: "ParseUint0 (hex_uint v) = Inr v"
proof -
  have "filter (\<lambda>c. c \<noteq> CHR ''_'') (format_hex (unat v)) = format_hex (unat v)"
    using format_hex_clean [of "unat v"] by (simp add: filter_id_conv) metis
  moreover have "parse_digits 16 0 (format_hex (unat v)) = Inr (unat v)"
    using format_hex_clean digits_value_hex by (rule parse_digits_value [rotated]) simp_all
  ultimately show ?thesis
    using format_hex_digits [of "unat v"]
    by (simp add: ParseUint0_def hex_uint_def split_prefix_def underscores_hex format_hex_clean)
qed

lemma SetString0_hex [simp]: "0 \<le> i \<Longrightarrow> SetString0 (hex_big (Some i)) = Some i"
  using parse_literal_hex [of "nat i"] by (simp add: SetString0_def hex_big_def big_text_def)

lemma hex_nonempty [simp]: "hex_uint v \<noteq> []" "hex_big i \<noteq> []"
  by (simp_all add: hex_uint_def hex_big_def)

section \<open>Properties\<close>

text \<open>
  Transactions whose numbers are there: a nil number is written as a text that does not parse, and
  signature numbers without a signature are not written.
\<close>

definition num_ok :: "int option \<Rightarrow> bool" where
  "num_ok v \<longleftrightarrow> (case v of Some i \<Rightarrow> 0 \<le> i | None \<Rightarrow> False)"

definition json_auth_ok :: "evm_authorization \<Rightarrow> bool" where
  "json_auth_ok a \<longleftrightarrow>
     (if AuthSigned a then num_ok (AuthY a) \<and> num_ok (AuthR a) \<and> num_ok (AuthS a)
      else AuthY a = None \<and> AuthR a = None \<and> AuthS a = None)"

definition json_ok :: "evm_tx \<Rightarrow> bool" where
  "json_ok tx \<longleftrightarrow>
     num_ok (Value tx) \<and> num_ok (GasFeeCap tx) \<and> (if TxType tx = EvmTxLegacy then GasTipCap tx = None else num_ok (GasTipCap tx)) \<and>
     (if Signed tx then num_ok (TxY tx) \<and> num_ok (TxR tx) \<and> num_ok (TxS tx) else TxY tx = None \<and> TxR tx = None \<and> TxS tx = None) \<and>
     list_all json_auth_ok (AuthList tx)"

text \<open>The object has no type: it is told from the fields that are there.\<close>

definition json_type :: "evm_tx \<Rightarrow> evm_tx_type" where
  "json_type tx =
     (if AuthList tx \<noteq> [] then EvmTxEIP7702 else if TxType tx = EvmTxLegacy then EvmTxLegacy else EvmTxEIP1559)"

lemma set_big_hex: "num_ok v \<Longrightarrow> set_big msg (hex_big v) = Inr v"
  by (cases v) (simp_all add: set_big_def num_ok_def)

lemma fields_back:
  "uint_field (hex_uint v) d = Inr v" "num_ok n \<Longrightarrow> big_field msg (hex_big n) e = Inr n"
  "uint_field [] d = Inr d" "big_field msg [] e = Inr e"
  by (simp_all add: uint_field_def big_field_def set_big_hex)

lemma auth_back: "json_auth_ok a \<Longrightarrow> toAuthorization (Some (auth_toJson a)) = Inr a"
  by (cases a) (auto simp: toAuthorization_def auth_toJson_def json_auth_ok_def fields_back set_big_hex Let_def split: if_splits)

lemma access_back: "toAccessTuple (Some (access_toJson t)) = Inr t"
  by (cases t) (simp add: toAccessTuple_def access_toJson_def)

lemma buffer_back: "parseEthBufferHex (''0x'' @ hex_encode b) = Inr b"
  by (simp add: parseEthBufferHex_def)

lemma lists_back:
  "mapE toAccessTuple (map (\<lambda>t. Some (access_toJson t)) ts) = Inr ts"
  "list_all json_auth_ok as \<Longrightarrow> mapE toAuthorization (map (\<lambda>a. Some (auth_toJson a)) as) = Inr as"
  by (rule mapE_inverse, rule access_back, rule mapE_inverse, auto simp: list_all_iff auth_back)

lemma json_fields:
  assumes "EvmTx_MarshalJSON lib cr tx = (tx', Inr obj)"
  shows "JGas obj = hex_uint (Gas tx)" "JInput obj = ''0x'' @ hex_encode (Data tx)" "JNonce obj = hex_uint (Nonce tx)" "JTo obj = To tx"
    "JValue obj = hex_big (Value tx)" "JChainId obj = hex_uint (ChainId tx)"
    "JGasPrice obj = (if TxType tx = EvmTxLegacy then hex_big (GasFeeCap tx) else [])"
    "JGasFeeCap obj = (if TxType tx = EvmTxLegacy then [] else hex_big (GasFeeCap tx))"
    "JGasTipCap obj = (if TxType tx = EvmTxLegacy then [] else hex_big (GasTipCap tx))"
    "JV obj = (if Signed tx then hex_big (TxY tx') else [])" "JR obj = (if Signed tx then hex_big (TxR tx') else [])"
    "JS obj = (if Signed tx then hex_big (TxS tx') else [])"
    "JAccessList obj = map (\<lambda>t. Some (access_toJson t)) (AccessList tx)"
    "JAuthorizationList obj = map (\<lambda>a. Some (auth_toJson a)) (AuthList tx)"
  using assms
  by (auto simp: EvmTx_MarshalJSON_def Let_def split: if_splits prod.splits sum.splits failure.splits)

lemma signature_keeps:
  "TxY (fst (EvmTx_Signature tx)) = TxY tx \<and> TxR (fst (EvmTx_Signature tx)) = TxR tx \<and> TxS (fst (EvmTx_Signature tx)) = TxS tx"
  by (auto simp: EvmTx_Signature_def Let_def split: sum.split prod.split)

lemma sender_keeps:
  "TxY (fst (SenderAddress lib cr tx)) = TxY tx \<and> TxR (fst (SenderAddress lib cr tx)) = TxR tx \<and> TxS (fst (SenderAddress lib cr tx)) = TxS tx"
  using signature_keeps [of tx] by (auto simp: SenderAddress_def SenderPubkey_def Let_def split: prod.split if_splits)

lemma marshal_json_keeps:
  "EvmTx_MarshalJSON lib cr tx = (tx', r) \<Longrightarrow> TxY tx' = TxY tx \<and> TxR tx' = TxR tx \<and> TxS tx' = TxS tx"
  using sender_keeps [of lib cr tx]
  by (auto simp: EvmTx_MarshalJSON_def Let_def split: if_splits prod.splits sum.splits failure.splits)

text \<open>
  C19: the JSON object of a transaction whose numbers are there reads back to the transaction: its
  amounts, data, lists, chain and signature, and its type, except that every type without a name of its
  own in the object (EIP-2930 and EIP-7702 without authorizations among them) comes back as EIP-1559.
\<close>

theorem evm_json_roundtrip:
  assumes "json_ok tx" "EvmTx_MarshalJSON lib cr tx = (tx', Inr obj)"
  shows "EvmTx_UnmarshalJSON (Some obj) new_evm = Inr (tx\<lparr>TxType := json_type tx\<rparr>)"
proof -
  note f = json_fields [OF assms(2)] and keep = marshal_json_keeps [OF assms(2)]
  have gas: "json_gas obj (new_evm\<lparr>Gas := Gas tx\<rparr>) = Inr (new_evm\<lparr>Gas := Gas tx, GasFeeCap := GasFeeCap tx, GasTipCap := GasTipCap tx,
      TxType := (if TxType tx = EvmTxLegacy then EvmTxLegacy else EvmTxEIP1559)\<rparr>)"
    using assms(1) by (cases "TxType tx = EvmTxLegacy") (simp_all add: json_gas_def f json_ok_def fields_back set_big_hex new_evm_def)
  have sigs: "big_field ''invalid value in v'' (JV obj) None = Inr (TxY tx)" "big_field ''invalid value in r'' (JR obj) None = Inr (TxR tx)"
    "big_field ''invalid value in s'' (JS obj) None = Inr (TxS tx)"
    using assms(1) keep by (auto simp: f json_ok_def fields_back)
  have lists: "list_field toAccessTuple (JAccessList obj) [] = Inr (AccessList tx)"
    "list_field toAuthorization (JAuthorizationList obj) [] = Inr (AuthList tx)"
    using assms(1) by (auto simp: list_field_def f lists_back json_ok_def)
  have auths: "JAuthorizationList obj = [] \<longleftrightarrow> AuthList tx = []" by (simp add: f(14))
  have signed: "Signed tx = (TxY tx \<noteq> None \<and> TxR tx \<noteq> None \<and> TxS tx \<noteq> None)"
    using assms(1) by (auto simp: json_ok_def num_ok_def split: if_splits option.splits)
  have val: "big_field ''invalid value in value'' (JValue obj) None = Inr (Value tx)" using assms(1) by (simp add: f json_ok_def fields_back)
  have "EvmTx_UnmarshalJSON (Some obj) new_evm = Inr (new_evm\<lparr>Gas := Gas tx, GasFeeCap := GasFeeCap tx, GasTipCap := GasTipCap tx,
      TxType := json_type tx, Data := Data tx, Nonce := Nonce tx, To := To tx, Value := Value tx, ChainId := ChainId tx,
      TxY := TxY tx, TxR := TxR tx, TxS := TxS tx, AccessList := AccessList tx, AuthList := AuthList tx, Signed := Signed tx\<rparr>)"
    unfolding EvmTx_UnmarshalJSON_def
    by (simp add: f(1-4,6) fields_back gas) (simp add: new_evm_def val sigs lists fields_back buffer_back [simplified] signed json_type_def auths list_field_Nil)
  then show ?thesis by (cases tx) (simp add: new_evm_def)
qed

definition demo_json_tx :: evm_tx where
  "demo_json_tx = demo_tx\<lparr>TxType := EvmTxEIP2930, GasTipCap := Some 2, AccessList := [\<lparr>AccessAddress = ''0x01'', StorageKeys = [''0x02'']\<rparr>]\<rparr>"

theorem evm_json_roundtrip_witness:
  "\<exists>obj. EvmTx_MarshalJSON demo_evm toy_crypto demo_json_tx = (demo_json_tx, Inr obj) \<and>
    EvmTx_UnmarshalJSON (Some obj) new_evm = Inr (demo_json_tx\<lparr>TxType := EvmTxEIP1559\<rparr>)"
proof -
  have ok: "json_ok demo_json_tx" "json_type demo_json_tx = EvmTxEIP1559" by code_simp+
  have "\<exists>obj. EvmTx_MarshalJSON demo_evm toy_crypto demo_json_tx = (demo_json_tx, Inr obj)"
    by (simp add: EvmTx_MarshalJSON_def demo_json_tx_def demo_tx_def new_evm_def Let_def)
  with evm_json_roundtrip [OF ok(1)] ok(2) show ?thesis by fastforce
qed

definition empty_json :: evm_json where
  "empty_json = \<lparr>JFrom = [], JGas = [], JGasPrice = [], JGasTipCap = [], JGasFeeCap = [], JInput = [], JNonce = [], JTo = [], JValue = [],
     JChainId = [], JV = [], JR = [], JS = [], JAccessList = [], JAuthorizationList = []\<rparr>"

lemma no_panic_hex_decode: "no_panic (hex_decode s)"
  by (induction s rule: hex_decode.induct) (auto simp: no_panic_bindE split: option.split)

lemma no_panic_parse_digits: "no_panic (parse_digits base n s)"
  by (induction s arbitrary: n) (auto split: option.split)

lemma no_panic_json_fields:
  "no_panic (uint_field s d)" "no_panic (set_big msg s)" "no_panic (big_field msg s e)" "no_panic (parseEthBufferHex s)"
proof -
  show big: "no_panic (set_big msg s)" for msg s by (simp add: set_big_def split: option.split)
  show "no_panic (uint_field s d)" by (auto simp: uint_field_def ParseUint0_def Let_def no_panic_parse_digits intro!: no_panic_bindE split: prod.split)
  show "no_panic (big_field msg s e)" by (simp add: big_field_def big)
  show "no_panic (parseEthBufferHex s)" by (simp add: parseEthBufferHex_def no_panic_hex_decode)
qed

lemma no_panic_json_parts:
  "no_panic (json_gas obj tx)" "no_panic (toAccessTuple (Some t))" "no_panic (toAuthorization (Some a))"
  "None \<notin> set ts \<Longrightarrow> no_panic (list_field toAccessTuple ts dt)" "None \<notin> set as \<Longrightarrow> no_panic (list_field toAuthorization as da)"
proof -
  show gas: "no_panic (json_gas obj tx)"
    by (auto simp: json_gas_def intro!: no_panic_bindE no_panic_json_fields)
  show t: "no_panic (toAccessTuple (Some t))" for t by (simp add: toAccessTuple_def)
  show a: "no_panic (toAuthorization (Some a))" for a
    by (auto simp: toAuthorization_def Let_def intro!: no_panic_bindE no_panic_json_fields)
  have tuples: "no_panic (toAccessTuple j)" if "j \<noteq> None" for j using that t by (cases j) simp_all
  have auths: "no_panic (toAuthorization j)" if "j \<noteq> None" for j using that a by (cases j) simp_all
  show "no_panic (list_field toAccessTuple ts dt)" if "None \<notin> set ts"
  proof -
    have "no_panic (mapE toAccessTuple ts)" by (rule no_panic_mapE, rule tuples, rule notI) (use that in simp)
    then show ?thesis by (simp add: list_field_def)
  qed
  show "no_panic (list_field toAuthorization as da)" if "None \<notin> set as"
  proof -
    have "no_panic (mapE toAuthorization as)" by (rule no_panic_mapE, rule auths, rule notI) (use that in simp)
    then show ?thesis by (simp add: list_field_def)
  qed
qed




definition sender_evm :: "nat evm_lib" where
  "sender_evm = demo_evm\<lparr>encodings := \<lambda>_. sample_pub\<lparr>uncompressed := Some (replicate 65 4)\<rparr>\<rparr>"

lemma sender_evm_facts:
  "recovery_ok sender_evm" "SignWithOptions sender_evm toy_crypto demo_key demo_tx = Inr demo_signed"
  "\<exists>a. key_address sender_evm toy_crypto 7 = Inr a"
proof -
  show "recovery_ok sender_evm" using demo_facts(3) by (simp add: recovery_ok_def sender_evm_def)
  have "EncodeValue sender_evm = EncodeValue demo_evm" by (simp add: sender_evm_def)
  then have "SignBytes sender_evm demo_tx = SignBytes demo_evm demo_tx" by (simp only: SignBytes_def)
  moreover have "recoverable_sign sender_evm = recoverable_sign demo_evm"
  proof -
    have "ParseDERSignature sender_evm = ParseDERSignature demo_evm" "BruteforceRecoveryCode sender_evm = BruteforceRecoveryCode demo_evm"
      by (simp_all add: sender_evm_def)
    then show ?thesis by (simp only: recoverable_sign_def [abs_def])
  qed
  ultimately show "SignWithOptions sender_evm toy_crypto demo_key demo_tx = Inr demo_signed"
    using demo_facts(6) by (simp add: SignWithOptions_def)
  have eth: "map_of Formats ''eth'' = Some [IHash (Lookup ''pubkey:uncomp'') [EtherHashNew]]" by code_simp
  have uncomp: "script_spec cr pk ''pubkey:uncomp'' = Inr k" if "uncompressed pk = Some k" for cr :: "nat crypto" and pk k
    using that by (simp add: script_spec_def numeral_3_eq_3 is_pubkey_name_def getPubKeyBytes_def)
  have "script_spec toy_crypto (encodings sender_evm 7) ''eth'' = Inr (chash toy_crypto [EtherHashNew] (replicate 65 4))"
    by (subst spec_format [OF _ eth]) (simp_all add: is_pubkey_name_def IHash_def uncomp IHashInfo_Bytes_def sender_evm_def)
  then have "fst (Generate toy_crypto ''eth'' (New (encodings sender_evm 7))) = Inr (chash toy_crypto [EtherHashNew] (replicate 65 4))"
    by (simp add: Generate_reachable [OF script_reachable.fresh])
  moreover have "\<exists>s. eip55 toy_crypto (chash toy_crypto [EtherHashNew] (replicate 65 4)) = Inr (''0x'' @ s)"
  proof -
    have "length (chash toy_crypto [EtherHashNew] (replicate 65 4)) \<le> length (chash toy_crypto [Keccak256New]
        (str_bytes (hex_encode (chash toy_crypto [EtherHashNew] (replicate 65 4)))))" by (simp add: toy_crypto_def)
    from eip55_hex [OF this] show ?thesis by blast
  qed
  ultimately show "\<exists>a. key_address sender_evm toy_crypto 7 = Inr a" by (auto simp: key_address_def)
qed


end
