(* ===== verification/BtcBuild.thy ===== *)
theory BtcBuild
  imports BtcTx Amount AddressProps
begin

text \<open>
  Adding outputs by address, and the JSON objects of Bitcoin transactions (\<^verbatim>\<open>btctx.go\<close>). A JSON
  text is what \<open>encoding/json\<close> makes of it; what a receiver holds after an error is not modelled.
\<close>

section \<open>Outputs\<close>

definition AddNetOutput :: "addr_lib \<Rightarrow> 'p crypto \<Rightarrow> string \<Rightarrow> string \<Rightarrow> 64 word \<Rightarrow> btc_tx \<Rightarrow> btc_tx result" where
  "AddNetOutput lib cr network address amount tx =
     bindE (ParseBitcoinBasedAddress lib cr network address) (\<lambda>addr.
     Inr (tx\<lparr>TxOut := TxOut tx @ [\<lparr>Amount = amount, OutN = length (TxOut tx), OutScript = raw addr\<rparr>]\<rparr>))"

definition AddOutput :: "addr_lib \<Rightarrow> 'p crypto \<Rightarrow> string \<Rightarrow> 64 word \<Rightarrow> btc_tx \<Rightarrow> btc_tx result" where
  "AddOutput lib cr address amount tx = AddNetOutput lib cr ''auto'' address amount tx"

section \<open>JSON\<close>

datatype json_text = JNull | JString string | JOther

definition Hex32_MarshalJSON :: "bytes \<Rightarrow> json_text" where
  "Hex32_MarshalJSON h = JString (hex_encode h)"

definition Hex32_UnmarshalJSON :: "json_text \<Rightarrow> bytes \<Rightarrow> bytes result" where
  "Hex32_UnmarshalJSON v h =
     (case v of
        JNull \<Rightarrow> Inr h
      | JOther \<Rightarrow> fail ''json: cannot unmarshal''
      | JString s \<Rightarrow>
          bindE (hex_decode s) (\<lambda>bin.
          if length bin \<noteq> 32 then fail ''bitcoin hex32 must be 32 bytes long (64 hex chars)'' else Inr bin))"

record btc_input_json =
  jTXID :: string
  jVout :: "32 word"
  jScriptSig :: string
  jSequence :: "32 word"
  jWitnesses :: "string list"

record btc_output_json =
  jValue :: "64 word"
  jN :: nat
  jScriptPubKey :: "string option"

definition BtcTxInput_MarshalJSON :: "btc_input \<Rightarrow> btc_input_json" where
  "BtcTxInput_MarshalJSON inp =
     \<lparr>jTXID = hex_encode (TXID inp), jVout = Vout inp, jScriptSig = hex_encode (InScript inp), jSequence = Sequence inp,
      jWitnesses = map hex_encode (Witnesses inp)\<rparr>"

definition BtcTxOutput_MarshalJSON :: "btc_output \<Rightarrow> btc_output_json" where
  "BtcTxOutput_MarshalJSON out = \<lparr>jValue = Amount out, jN = OutN out, jScriptPubKey = Some (hex_encode (OutScript out))\<rparr>"

definition BtcTxOutput_UnmarshalJSON :: "btc_output_json option \<Rightarrow> btc_output \<Rightarrow> btc_output result" where
  "BtcTxOutput_UnmarshalJSON obj out =
     (case obj of
        None \<Rightarrow> Inr out
      | Some j \<Rightarrow>
          let out = out\<lparr>Amount := jValue j, OutN := jN j\<rparr> in
          case jScriptPubKey j of
            None \<Rightarrow> Inr (out\<lparr>OutScript := []\<rparr>)
          | Some hex \<Rightarrow> bindE (hex_decode hex) (\<lambda>script. Inr (out\<lparr>OutScript := script\<rparr>)))"

lemma output_json_roundtrip: "BtcTxOutput_UnmarshalJSON (Some (BtcTxOutput_MarshalJSON out)) old = Inr out"
  by (cases out; cases old) (simp add: BtcTxOutput_UnmarshalJSON_def BtcTxOutput_MarshalJSON_def)

lemma hex32_roundtrip: "length h = 32 \<Longrightarrow> Hex32_UnmarshalJSON (Hex32_MarshalJSON h) old = Inr h"
  by (simp add: Hex32_UnmarshalJSON_def Hex32_MarshalJSON_def)

lemma hex32_length: "Hex32_UnmarshalJSON v old = Inr h \<Longrightarrow> length old = 32 \<Longrightarrow> length h = 32"
  by (auto simp: Hex32_UnmarshalJSON_def bindE_Inr_iff split: json_text.splits if_splits)

section \<open>Paying to an address\<close>

text \<open>
  C26: adding an output by the address of a standard output, for its network, appends exactly one output,
  numbered in order, that holds the amount and the script of that output; earlier outputs stay, and the
  new one is written to the wire as the amount and the script.
\<close>

theorem pays_to_address:
  assumes "addr_ok lib" "checksums_ok cr" "standard_out o' net" "Out_Address lib cr o' [] = Inr a"
    and "Name o' \<in> {''p2pkh'', ''p2sh''} \<longrightarrow> not_segwit lib a"
  shows "\<exists>out. AddNetOutput lib cr net a amount tx = Inr (tx\<lparr>TxOut := TxOut tx @ [out]\<rparr>) \<and>
    OutN out = length (TxOut tx) \<and> BtcTxOutput_Bytes out = put_u64 amount @ BtcVarInt_Bytes (varint_len (length (raw o'))) @ raw o'"
  by (rule exI [of _ "\<lparr>Amount = amount, OutN = length (TxOut tx), OutScript = raw o'\<rparr>"])
    (simp add: AddNetOutput_def BtcTxOutput_Bytes_def standard_address_back [OF assms])

theorem pays_to_address_witness:
  "\<exists>a out tx'. Out_Address toy_addr toy_crypto (witness_out ''p2wsh'' (replicate 32 7) ''litecoin'') [] = Inr a \<and>
    AddNetOutput toy_addr toy_crypto ''litecoin'' a 1000 \<lparr>Version = 2, TxIn = [], TxOut = [], Locktime = 0\<rparr> = Inr tx' \<and>
    TxOut tx' = [out] \<and> BtcTxOutput_Bytes out = put_u64 1000 @ 34 # 0 # PushBytes (replicate 32 7)"
proof -
  let ?o = "witness_out ''p2wsh'' (replicate 32 7) ''litecoin''"
  have a: "Out_Address toy_addr toy_crypto ?o [] = Inr (''ltc1'' @ toy_text (0 # replicate 32 7))"
    by (subst witness_out_address) (simp_all add: toy_addr_def segwit_hrps_def)
  have "standard_out ?o ''litecoin''" by (rule standard_out.p2wsh) simp
  moreover have "BtcVarInt_Bytes (varint_len (length (raw ?o))) @ raw ?o = 34 # 0 # PushBytes (replicate 32 7)" by code_simp
  ultimately show ?thesis
    using pays_to_address [OF toy_addr_ok toy_checksums_ok _ a, of "''litecoin''" 1000 "\<lparr>Version = 2, TxIn = [], TxOut = [], Locktime = 0\<rparr>"] a
    by (auto simp: fields_witness)
qed

end
