(* ===== verification/SolanaSigning.thy ===== *)
theory SolanaSigning
  imports SolanaTx
begin

text \<open>
  Several parties sign a Solana transaction (\<^verbatim>\<open>SolanaTx.Sign\<close> of \<^verbatim>\<open>solanatx.go\<close>), each with the
  keys it has, in any number of calls, some of them refused. The states they can reach are a step relation; no such state
  is stuck.
\<close>

section \<open>Rounds of signing\<close>

definition signer_of :: "('k \<Rightarrow> bytes) \<Rightarrow> 'k \<Rightarrow> solana_key" where
  "signer_of pub k = copy_key (pub k)"

text \<open>\<open>signing pub sign tx S t\<close>: from \<open>tx\<close>, calls of \<open>Sign\<close> led to \<open>t\<close>, and the signers \<open>S\<close> took part in those that succeeded.\<close>

inductive signing ::
    "('k \<Rightarrow> bytes) \<Rightarrow> ('k \<Rightarrow> bytes \<Rightarrow> bytes) \<Rightarrow> solana_tx \<Rightarrow> solana_key set \<Rightarrow> solana_tx \<Rightarrow> bool" for pub sign tx where
  start: "signing pub sign tx {} tx"
| signed: "signing pub sign tx S t \<Longrightarrow> SolanaTx_Sign pub sign t keys = (t', Inr ()) \<Longrightarrow>
    signing pub sign tx (S \<union> signer_of pub ` set keys) t'"
| refused: "signing pub sign tx S t \<Longrightarrow> SolanaTx_Sign pub sign t keys = (t', Inl e) \<Longrightarrow> signing pub sign tx S t'"

inductive_cases signingE: "signing pub sign tx S t"

text \<open>What every state keeps: the message, the number of slots, and a valid signature in the slot of each of the signers.\<close>

definition slot_valid :: "(bytes \<Rightarrow> bytes \<Rightarrow> bytes \<Rightarrow> bool) \<Rightarrow> bytes \<Rightarrow> solana_key list \<Rightarrow> bytes list \<Rightarrow> nat \<Rightarrow> bool" where
  "slot_valid verify msg signers sigs i \<longleftrightarrow> length (sigs ! i) = 64 \<and> verify (key_bytes (signers ! i)) msg (sigs ! i)"

definition signed_for :: "(bytes \<Rightarrow> bytes \<Rightarrow> bytes \<Rightarrow> bool) \<Rightarrow> bytes \<Rightarrow> solana_tx \<Rightarrow> solana_key set \<Rightarrow> solana_tx \<Rightarrow> bool" where
  "signed_for verify msg tx S t \<longleftrightarrow>
     t = tx\<lparr>Signatures := Signatures t\<rparr> \<and> length (Signatures t) = length (Signatures tx) \<and>
     (\<forall>i < length (required_signers tx). required_signers tx ! i \<in> S \<longrightarrow> slot_valid verify msg (required_signers tx) (Signatures t) i)"

lemma required_signers_keeps [simp]: "required_signers (tx\<lparr>Signatures := s\<rparr>) = required_signers tx"
  by (simp add: required_signers_def)

lemma signed_forD:
  assumes "signed_for verify msg tx S t"
  shows "required_signers t = required_signers tx" "messageBytes t = messageBytes tx" "messageHeader t = messageHeader tx"
    "messageAccountKeys t = messageAccountKeys tx" "length (Signatures t) = length (Signatures tx)"
proof -
  have t: "t = tx\<lparr>Signatures := Signatures t\<rparr>" using assms by (simp add: signed_for_def)
  show "required_signers t = required_signers tx" by (subst t) simp
  show "messageBytes t = messageBytes tx" by (subst t) simp
  show "messageHeader t = messageHeader tx" by (subst t) simp
  show "messageAccountKeys t = messageAccountKeys tx" by (subst t) simp
  show "length (Signatures t) = length (Signatures tx)" using assms by (simp add: signed_for_def)
qed

text \<open>A call of \<open>Sign\<close> on a transaction whose header fits.\<close>

lemma Sign_unfold:
  assumes "header_fits t" "messageBytes t = Inr msg"
  shows "SolanaTx_Sign pub sign t keys =
    (let (sigs, r) = sign_keys pub sign msg (required_signers t) keys (Signatures t) in (t\<lparr>Signatures := sigs\<rparr>, r))"
  using assms by (simp add: SolanaTx_Sign_def header_fits_def required_signers_def Let_def)

lemma sign_keys_keeps:
  assumes "ed25519_ok pub sign verify" "length signers \<le> length sigs" "i < length signers" "slot_valid verify msg signers sigs i"
  shows "slot_valid verify msg signers (fst (sign_keys pub sign msg signers keys sigs)) i"
  using assms(2-)
proof (induction keys arbitrary: sigs)
  case (Cons key keys)
  have "slot_valid verify msg signers (sigs[j := sign key msg]) i"
    if "find_signer (copy_key (pub key)) signers = Some j" "j < length sigs" for j
    using assms(1) find_signer_Some [OF that(1)] that(2) Cons.prems copy_key_pub [of "pub key"]
    by (cases "i = j") (auto simp: slot_valid_def ed25519_ok_def)
  with Cons show ?case by (auto split: option.split)
qed simp

lemma Sign_keeps:
  assumes ok: "ed25519_ok pub sign verify" and fits: "header_fits tx" and msg: "messageBytes tx = Inr msg"
    and inv: "signed_for verify msg tx S t" and sign: "SolanaTx_Sign pub sign t keys = (t', r)"
  shows "signed_for verify msg tx S t'"
proof -
  note t = signed_forD [OF inv]
  obtain sigs where sigs: "sign_keys pub sign msg (required_signers tx) keys (Signatures t) = (sigs, r)" "t' = t\<lparr>Signatures := sigs\<rparr>"
    using sign Sign_unfold [of t msg pub sign keys] fits msg by (simp add: header_fits_def t split: prod.splits)
  have n: "length (required_signers tx) \<le> length (Signatures t)"
    using fits t by (simp add: header_fits_def required_signers_def)
  have "length sigs = length (Signatures t)" using sign_keys_safe [OF n sigs(1)] by simp
  moreover have "t' = tx\<lparr>Signatures := Signatures t'\<rparr>"
    using inv sigs(2) by (simp add: signed_for_def) (metis solana_tx.update_convs(1) solana_tx.surjective)
  ultimately show ?thesis
    using inv sigs n sign_keys_keeps [OF ok n, of _ msg keys] by (auto simp: signed_for_def)
qed

lemma Sign_adds:
  assumes ok: "ed25519_ok pub sign verify" and fits: "header_fits tx" "distinct (messageAccountKeys tx)" and msg: "messageBytes tx = Inr msg"
    and inv: "signed_for verify msg tx S t" and sign: "SolanaTx_Sign pub sign t keys = (t', Inr ())"
  shows "signed_for verify msg tx (S \<union> signer_of pub ` set keys) t'"
proof -
  note t = signed_forD [OF inv] and keeps = Sign_keeps [OF ok fits(1) msg inv sign]
  obtain sigs where sigs: "sign_keys pub sign msg (required_signers tx) keys (Signatures t) = (sigs, Inr ())" "t' = t\<lparr>Signatures := sigs\<rparr>"
    using sign Sign_unfold [of t msg pub sign keys] fits msg by (simp add: header_fits_def t split: prod.splits)
  have n: "length (required_signers tx) \<le> length (Signatures t)" "distinct (required_signers tx)"
    using fits t by (simp_all add: header_fits_def required_signers_def)
  have known: "\<forall>k \<in> set keys. copy_key (pub k) \<in> set (required_signers tx)"
    using sign_keys_safe [OF n(1) sigs(1)] by (auto split: if_splits)
  have "slot_valid verify msg (required_signers tx) sigs i"
    if "i < length (required_signers tx)" "required_signers tx ! i \<in> signer_of pub ` set keys" for i
    using sign_keys_valid [OF ok n(2,1) known that(1) _ sigs(1)] that(2) by (simp add: slot_valid_def signer_of_def)
  with keeps sigs(2) show ?thesis by (auto simp: signed_for_def)
qed

lemma signing_inv:
  assumes "ed25519_ok pub sign verify" "header_fits tx" "distinct (messageAccountKeys tx)" "messageBytes tx = Inr msg"
    and "signing pub sign tx S t"
  shows "signed_for verify msg tx S t"
  using assms(5)
proof induction
  case start
  show ?case by (simp add: signed_for_def)
next
  case signed
  then show ?case using Sign_adds [OF assms(1-4)] by blast
next
  case refused
  then show ?case using Sign_keeps [OF assms(1,2,4)] by blast
qed

text \<open>With the keys of signers only, \<open>Sign\<close> succeeds.\<close>

lemma Sign_succeeds:
  assumes "header_fits t" "messageBytes t = Inr msg" "signer_of pub ` set keys \<subseteq> set (required_signers t)"
  shows "\<exists>t'. SolanaTx_Sign pub sign t keys = (t', Inr ())"
proof -
  obtain sigs r where s: "sign_keys pub sign msg (required_signers t) keys (Signatures t) = (sigs, r)" by fastforce
  have "length (required_signers t) \<le> length (Signatures t)" using assms(1) by (simp add: header_fits_def required_signers_def)
  from sign_keys_safe [OF this s] assms(3) have "r = Inr ()" by (auto simp: signer_of_def)
  with s show ?thesis by (simp add: Sign_unfold [OF assms(1,2)])
qed

lemma all_signed_verifies:
  assumes "header_fits tx" "messageBytes tx = Inr msg" "signed_for verify msg tx S t" "set (required_signers tx) \<subseteq> S"
  shows "SolanaTx_Verify verify t = Inr ()"
proof -
  note t = signed_forD [OF assms(3)]
  let ?n = "unat (NumRequiredSignatures (messageHeader tx))"
  have n: "?n \<le> length (messageAccountKeys tx)" "?n \<le> length (Signatures t)" using assms(1) t(5) by (simp_all add: header_fits_def)
  have "slot_valid verify msg (required_signers tx) (Signatures t) i" if "i < ?n" for i
  proof -
    have i: "i < length (required_signers tx)" using that n(1) by (simp add: required_signers_def)
    with assms(4) have "required_signers tx ! i \<in> S" by (meson nth_mem subsetD)
    with assms(3) i show ?thesis by (simp add: signed_for_def)
  qed
  then have "verify_signatures verify msg (Signatures t) (messageAccountKeys tx) 0 ?n = Inr ()"
    using n by (intro verify_signatures_ok) (auto simp: slot_valid_def required_signers_def)
  with n t assms(2) show ?thesis by (simp add: SolanaTx_Verify_def)
qed

section \<open>Property\<close>

text \<open>
  C8: wherever an exchange of signatures has got to, after any calls of \<open>Sign\<close>, refused ones
  included, one more call with the keys of the signers that are missing succeeds and the transaction
  then verifies.
\<close>

theorem solana_signing_completes:
  assumes "ed25519_ok pub sign verify" "header_fits tx" "distinct (messageAccountKeys tx)" "messageBytes tx = Inr msg"
    and "signing pub sign tx S t"
    and "set (required_signers tx) - S \<subseteq> signer_of pub ` set keys" "signer_of pub ` set keys \<subseteq> set (required_signers tx)"
  shows "\<exists>t'. SolanaTx_Sign pub sign t keys = (t', Inr ()) \<and> SolanaTx_Verify verify t' = Inr ()"
proof -
  note inv = signing_inv [OF assms(1-5)]
  note t = signed_forD [OF inv]
  have "header_fits t" "messageBytes t = Inr msg" using assms(2,4) t by (simp_all add: header_fits_def)
  then obtain t' where t': "SolanaTx_Sign pub sign t keys = (t', Inr ())"
    using Sign_succeeds assms(7) t(1) by metis
  have "set (required_signers tx) \<subseteq> S \<union> signer_of pub ` set keys" using assms(6) by blast
  with all_signed_verifies [OF assms(2,4) Sign_adds [OF assms(1-4) inv t']] t' show ?thesis by blast
qed

text \<open>The fee payer signs, its next call is refused for the key of a stranger, and the second signer completes.\<close>

theorem solana_signing_completes_witness:
  "\<exists>t1 t2 e t'. SolanaTx_Sign (\<lambda>k. key_bytes (sample_key k)) toy_sign sample_compiled [9] = (t1, Inr ()) \<and>
    SolanaTx_Sign (\<lambda>k. key_bytes (sample_key k)) toy_sign t1 [9, 77] = (t2, Inl e) \<and>
    SolanaTx_Sign (\<lambda>k. key_bytes (sample_key k)) toy_sign t2 [5] = (t', Inr ()) \<and> SolanaTx_Verify toy_verify t' = Inr ()"
proof -
  let ?pub = "\<lambda>k. key_bytes (sample_key k)"
  have ok: "ed25519_ok ?pub toy_sign toy_verify"
    by (simp add: ed25519_ok_def sample_key_def toy_sign_def toy_verify_def)
  have tx: "header_fits sample_compiled" "distinct (messageAccountKeys sample_compiled)"
    by (simp_all add: header_fits_def sample_compiled_def messageHeader_def messageAccountKeys_def sample_key_def)
  obtain msg where msg: "messageBytes sample_compiled = Inr msg"
    by (simp add: sample_compiled_def messageBytes_def SolanaMessage_MarshalBinary_def marshal_body_def marshal_ix_def)
  have set: "set (required_signers sample_compiled) = signer_of ?pub ` {5, 9}" by code_simp
  obtain t1 where t1: "SolanaTx_Sign ?pub toy_sign sample_compiled [9] = (t1, Inr ())"
    using Sign_succeeds [OF tx(1) msg, of ?pub "[9]"] set by auto
  note one = signed [OF start t1]
  have inv: "signed_for toy_verify msg sample_compiled (signer_of ?pub ` set [9]) t1"
    using signing_inv [OF ok tx msg one] by simp
  obtain t2 r where t2: "SolanaTx_Sign ?pub toy_sign t1 [9, 77] = (t2, r)" by fastforce
  have "copy_key (?pub 77) \<notin> set (required_signers sample_compiled)" by code_simp
  then have "r = fail ''key %s is not a required signer''"
    using t2 Sign_unfold [of t1 msg ?pub toy_sign "[9, 77]"] tx(1) msg signed_forD [OF inv]
      sign_keys_safe [of "required_signers sample_compiled" "Signatures t1" ?pub toy_sign msg "[9, 77]"]
    by (auto simp: header_fits_def required_signers_def split: prod.splits)
  then have refusal: "SolanaTx_Sign ?pub toy_sign t1 [9, 77] = (t2, Inl (Error (Errorf ''key %s is not a required signer'')))"
    using t2 by simp
  have "\<exists>t'. SolanaTx_Sign ?pub toy_sign t2 [5] = (t', Inr ()) \<and> SolanaTx_Verify toy_verify t' = Inr ()"
    by (rule solana_signing_completes [OF ok tx msg refused [OF one refusal]]) (auto simp: set)
  with t1 refusal show ?thesis by blast
qed

end
