(* ===== verification/Transaction.thy ===== *)
theory Transaction
  imports EvmSign BtcSign SolanaTx CardanoTx
begin

text \<open>
  The interface that the transactions of four chains share (\<^verbatim>\<open>transaction.go\<close>): a binary form,
  reading it, and a hash. A value of the interface is a transaction of one of the chains, and each method calls
  that of its chain. A transaction that is relayed, written and read any number of times, keeps its
  bytes and its hash.
\<close>

section \<open>The interface\<close>

datatype transaction = Evm_Tx evm_tx | Btc_Tx btc_tx | Solana_Tx solana_tx | Cardano_Tx cardano_tx

text \<open>The libraries of all chains, and the order in which maps are ranged over.\<close>

record ('k, 'p) chain_libs =
  EvmLib :: "'k evm_lib"
  CryptoLib :: "'p crypto"
  CborLib :: cbor_lib
  RangeOrder :: "cardano_asset list \<Rightarrow> cardano_asset list"

definition Transaction_MarshalBinary :: "('k, 'p) chain_libs \<Rightarrow> transaction \<Rightarrow> bytes result" where
  "Transaction_MarshalBinary libs t =
     (case t of
        Evm_Tx tx \<Rightarrow> EvmTx_MarshalBinary (EvmLib libs) tx
      | Btc_Tx tx \<Rightarrow> BtcTx_MarshalBinary tx
      | Solana_Tx tx \<Rightarrow> SolanaTx_MarshalBinary tx
      | Cardano_Tx tx \<Rightarrow> Cardano_MarshalBinary (CborLib libs) tx)"

definition Transaction_UnmarshalBinary :: "('k, 'p) chain_libs \<Rightarrow> transaction \<Rightarrow> bytes \<Rightarrow> transaction result" where
  "Transaction_UnmarshalBinary libs receiver bs =
     (case receiver of
        Evm_Tx tx \<Rightarrow> bindE (EvmTx_UnmarshalBinary (EvmLib libs) tx bs) (\<lambda>t. Inr (Evm_Tx t))
      | Btc_Tx tx \<Rightarrow>
          (case BtcTx_UnmarshalBinary tx bs of
             (t, None) \<Rightarrow> Inr (Btc_Tx t)
           | (t, Some e) \<Rightarrow> Inl (Error e))
      | Solana_Tx tx \<Rightarrow> bindE (SolanaTx_UnmarshalBinary tx bs) (\<lambda>t. Inr (Solana_Tx t))
      | Cardano_Tx tx \<Rightarrow> bindE (Cardano_UnmarshalBinary (CborLib libs) (RangeOrder libs) bs) (\<lambda>t. Inr (Cardano_Tx t)))"

definition Transaction_Hash :: "('k, 'p) chain_libs \<Rightarrow> transaction \<Rightarrow> bytes result" where
  "Transaction_Hash libs t =
     (case t of
        Evm_Tx tx \<Rightarrow> EvmTx_Hash (EvmLib libs) (CryptoLib libs) tx
      | Btc_Tx tx \<Rightarrow> BtcTx_Hash (CryptoLib libs) tx
      | Solana_Tx tx \<Rightarrow> SolanaTx_Hash tx
      | Cardano_Tx tx \<Rightarrow> Cardano_Hash (CborLib libs) tx)"

section \<open>Relaying\<close>

text \<open>Written and read by one node after the other.\<close>

fun relay :: "('t \<Rightarrow> bytes result) \<Rightarrow> (bytes \<Rightarrow> 't result) \<Rightarrow> nat \<Rightarrow> 't \<Rightarrow> 't result" where
  "relay marshal unmarshal 0 t = Inr t"
| "relay marshal unmarshal (Suc n) t = bindE (marshal t) (\<lambda>bs. bindE (unmarshal bs) (relay marshal unmarshal n))"

text \<open>What the code expects of a chain: reading what was written changes neither the bytes nor the hash.\<close>

locale wire_tx =
  fixes valid :: "'t \<Rightarrow> bool" and marshal :: "'t \<Rightarrow> bytes result" and unmarshal :: "bytes \<Rightarrow> 't result"
    and hash :: "'t \<Rightarrow> bytes result"
  assumes carries: "valid t \<Longrightarrow> marshal t = Inr bs \<Longrightarrow>
    \<exists>t'. unmarshal bs = Inr t' \<and> valid t' \<and> marshal t' = Inr bs \<and> hash t' = hash t"
begin

lemma relay_keeps:
  "valid t \<Longrightarrow> marshal t = Inr bs \<Longrightarrow>
    \<exists>t'. relay marshal unmarshal n t = Inr t' \<and> valid t' \<and> marshal t' = Inr bs \<and> hash t' = hash t"
proof (induction n arbitrary: t)
  case (Suc n)
  from carries [OF Suc.prems] obtain t1
    where t1: "unmarshal bs = Inr t1" "valid t1" "marshal t1 = Inr bs" "hash t1 = hash t" by blast
  from Suc.IH [OF t1(2,3)] t1(1,4) Suc.prems(2) show ?case by simp
qed simp

end

section \<open>EVM\<close>

lemma carried_wf: "wf_evm tx \<Longrightarrow> wf_evm (carried tx)"
  by (simp add: wf_evm_def carried_def split: evm_tx_type.splits)

lemma RlpFields_carried: "RlpFields (carried tx) = RlpFields tx"
  by (simp add: carried_def RlpFields_def accessListRlp_def authorizationListRlp_def)

lemma marshal_carried:
  assumes "wf_evm tx"
  shows "EvmTx_MarshalBinary lib (carried tx) = EvmTx_MarshalBinary lib tx"
proof (cases "TxType tx = EvmTxLegacy \<and> Signed tx")
  case True
  then show ?thesis
    using RlpFields_carried [of tx] by (simp add: EvmTx_MarshalBinary_def carried_def)
next
  case False
  with assms have "carried tx = tx" by (cases tx) (auto simp: carried_def wf_evm_def)
  then show ?thesis by simp
qed

interpretation evm_wire: wire_tx "\<lambda>tx. rlp_ok lib \<and> wf_evm tx" "EvmTx_MarshalBinary lib" "EvmTx_UnmarshalBinary lib new_evm"
    "EvmTx_Hash lib cr" for lib cr
proof
  show "\<exists>t'. EvmTx_UnmarshalBinary lib new_evm bs = Inr t' \<and> (rlp_ok lib \<and> wf_evm t') \<and> EvmTx_MarshalBinary lib t' = Inr bs \<and>
      EvmTx_Hash lib cr t' = EvmTx_Hash lib cr t"
    if "rlp_ok lib \<and> wf_evm t" "EvmTx_MarshalBinary lib t = Inr bs" for t bs
    using that evm_roundtrip [of lib t bs] by (auto simp: carried_wf marshal_carried EvmTx_Hash_def)
qed

section \<open>Bitcoin\<close>

definition new_btc :: btc_tx where
  "new_btc = \<lparr>Version = 0, TxIn = [], TxOut = [], Locktime = 0\<rparr>"

definition btc_reader :: "bytes \<Rightarrow> btc_tx result" where
  "btc_reader bs = (case BtcTx_UnmarshalBinary new_btc bs of (t, None) \<Rightarrow> Inr t | (t, Some e) \<Rightarrow> Inl (Error e))"

lemma btc_reads: "wf_tx tx \<Longrightarrow> BtcTx_UnmarshalBinary d (BtcTx_Bytes tx) = (tx, None)"
  using btctx.reads [where rest = "[]"] by (simp add: BtcTx_UnmarshalBinary_def)

interpretation btc_wire: wire_tx wf_tx BtcTx_MarshalBinary btc_reader "BtcTx_Hash cr" for cr
  by unfold_locales (auto simp: btc_reader_def BtcTx_MarshalBinary_def btc_reads)

section \<open>Solana\<close>

text \<open>A transaction that was signed by its fee payer; an empty slot would become one of zeros.\<close>

definition solana_ready :: "solana_tx \<Rightarrow> bool" where
  "solana_ready tx \<longleftrightarrow> ok_tx tx \<and> Signatures tx \<noteq> [] \<and> hd (Signatures tx) \<noteq> []"

definition new_solana :: solana_tx where
  "new_solana =
     \<lparr>Signatures = [],
      Message = \<lparr>Header = \<lparr>NumRequiredSignatures = 0, NumReadonlySignedAccounts = 0, NumReadonlyUnsignedAccounts = 0\<rparr>, AccountKeys = [],
        RecentBlockhash = SolanaKey (replicate 32 0), Instructions = []\<rparr>,
      MessageV0 = None\<rparr>"

lemma filled_simps [simp]: "filled (filled s) = filled s" "filled s \<noteq> []" "s = [] \<or> length s = 64 \<Longrightarrow> length (filled s) = 64"
  by (auto simp: filled_def)

lemma received_ready:
  assumes "ok_tx tx"
  shows "ok_tx (received new_solana tx) \<and> tx_bytes (received new_solana tx) = tx_bytes tx"
  using assms
  by (cases "MessageV0 tx")
    (auto simp: received_def new_solana_def ok_tx_def ok_active_def tx_bytes_def message_wire_def list_bytes_def comp_def)

interpretation solana_wire: wire_tx solana_ready SolanaTx_MarshalBinary "SolanaTx_UnmarshalBinary new_solana" SolanaTx_Hash
proof
  show "\<exists>t'. SolanaTx_UnmarshalBinary new_solana bs = Inr t' \<and> solana_ready t' \<and> SolanaTx_MarshalBinary t' = Inr bs \<and>
      SolanaTx_Hash t' = SolanaTx_Hash t"
    if t: "solana_ready t" "SolanaTx_MarshalBinary t = Inr bs" for t bs
  proof -
    have ok: "ok_tx t" using t(1) by (simp add: solana_ready_def)
    note again = received_ready [OF ok]
    have bs: "bs = tx_bytes t" using t(2) SolanaTx_MarshalBinary_bytes [OF ok] by simp
    have sigs: "Signatures (received new_solana t) = map filled (Signatures t)"
      by (simp add: received_def split: option.split)
    obtain s ss where s: "Signatures t = s # ss" "s \<noteq> []"
      using t(1) by (cases "Signatures t") (auto simp: solana_ready_def)
    have "SolanaTx_UnmarshalBinary new_solana bs = Inr (received new_solana t)"
      using SolanaTx_UnmarshalBinary_bytes [OF ok, of new_solana "[]"] by (simp add: bs)
    moreover have "solana_ready (received new_solana t)"
      using again s by (simp add: solana_ready_def sigs filled_def)
    moreover have "SolanaTx_Hash (received new_solana t) = SolanaTx_Hash t"
      using s by (simp add: SolanaTx_Hash_def sigs filled_def)
    ultimately show ?thesis
      using again SolanaTx_MarshalBinary_bytes [of "received new_solana t"] bs by auto
  qed
qed

section \<open>Cardano\<close>

text \<open>Merging the assets of an output does not change the map they are written as.\<close>

lemma keys_merged: "asset_key ` set (merged_assets as) = asset_key ` set as"
  by (force simp: merged_assets_def asset_key_def image_iff)

lemma filter_distinct: "distinct xs \<Longrightarrow> filter (\<lambda>x. x = k) xs = (if k \<in> set xs then [k] else [])"
  by (induction xs) (auto simp: filter_empty_conv)

lemma total_merged:
  assumes "\<forall>k. asset_total as k < 2 ^ 64"
  shows "asset_total (merged_assets as) k = asset_total as k"
proof -
  let ?f = "\<lambda>k. \<lparr>PolicyID = fst k, AssetName = snd k, AssetAmount = word_of_nat (asset_total as k) :: 64 word\<rparr>"
  let ?ks = "sort (remdups (map asset_key as))"
  have "filter (\<lambda>a. asset_key a = k) (map ?f ?ks) = map ?f (filter (\<lambda>x. x = k) ?ks)"
    by (simp add: filter_map comp_def asset_key_def)
  also have "filter (\<lambda>x. x = k) ?ks = (if k \<in> asset_key ` set as then [k] else [])"
    by (simp add: filter_distinct)
  finally have "asset_total (merged_assets as) k = (if k \<in> asset_key ` set as then unat (word_of_nat (asset_total as k) :: 64 word) else 0)"
    by (simp add: asset_total_def merged_assets_def)
  moreover have "asset_total as k = 0" if "k \<notin> asset_key ` set as"
  proof -
    have "filter (\<lambda>a. asset_key a = k) as = []" using that by (auto simp: filter_empty_conv)
    then show ?thesis by (simp add: asset_total_def)
  qed
  moreover have "asset_total as k < 2 ^ 64" using assms by blast
  ultimately show ?thesis by (simp add: unat_of_nat)
qed

lemma asset_map_merged:
  assumes "cardanoAssetMap as = Inr m"
  shows "cardanoAssetMap (merged_assets as) = Inr m"
proof -
  have fits: "\<forall>k. asset_total as k < 2 ^ 64"
    using cardanoAssetMap_spec [of as] assms by (simp del: split_paired_All split: if_splits)
  have total: "asset_total (merged_assets as) = asset_total as" using total_merged [OF fits] by blast
  from cardanoAssetMap_spec [of "merged_assets as", unfolded total keys_merged] cardanoAssetMap_spec [of as] assms fits
  obtain n where n: "cardanoAssetMap (merged_assets as) = Inr n" "wf_assets n" "wf_assets m" "\<forall>k. look m k = look n k"
    by (auto simp del: split_paired_All)
  have "n = m" by (rule wf_assets_unique [OF n(2,3)]) (use n(4) in metis)
  with n(1) show ?thesis by simp
qed

lemma output_item_merged:
  assumes "output_item out = Inr v"
  shows "output_item (merged_output out) = Inr v"
proof (cases "Assets out = []")
  case True
  then show ?thesis using assms by (simp add: output_item_def outputValue_def merged_output_def merged_assets_def split: if_splits)
next
  case False
  then have "merged_assets (Assets out) \<noteq> []" using keys_merged [of "Assets out"] by auto
  with False assms asset_map_merged [of "Assets out"] show ?thesis
    by (auto simp: output_item_def outputValue_def merged_output_def bindE_Inr_iff split: if_splits)
qed

lemma mapE_through: "mapE f xs = Inr ys \<Longrightarrow> (\<And>x y. f x = Inr y \<Longrightarrow> f (g x) = Inr y) \<Longrightarrow> mapE f (map g xs) = Inr ys"
  by (induction xs arbitrary: ys) (auto simp: bindE_Inr_iff)

lemma body_merged: "BodyBytes lib tx = Inr b \<Longrightarrow> BodyBytes lib (merged_tx tx) = Inr b"
  using mapE_through [of output_item "COutputs tx" _ merged_output, OF _ output_item_merged]
  by (auto simp: BodyBytes_def bodyMap_def merged_tx_def bindE_Inr_iff split: if_splits)

interpretation cardano_wire: wire_tx "\<lambda>_. cbor_ok lib \<and> (\<forall>xs. mset (iter xs) = mset xs)" "Cardano_MarshalBinary lib"
    "Cardano_UnmarshalBinary lib iter" "Cardano_Hash lib" for lib iter
proof
  show "\<exists>t'. Cardano_UnmarshalBinary lib iter bs = Inr t' \<and> (cbor_ok lib \<and> (\<forall>xs. mset (iter xs) = mset xs)) \<and>
      Cardano_MarshalBinary lib t' = Inr bs \<and> Cardano_Hash lib t' = Cardano_Hash lib t"
    if ok: "cbor_ok lib \<and> (\<forall>xs. mset (iter xs) = mset xs)" and t: "Cardano_MarshalBinary lib t = Inr bs" for t bs
  proof -
    obtain body where body: "BodyBytes lib t = Inr body" using t by (auto simp: Cardano_MarshalBinary_def bindE_Inr_iff)
    have "witnessSet (merged_tx t) = witnessSet t" by (simp add: witnessSet_def merged_tx_def)
    with t body body_merged [OF body] have "Cardano_MarshalBinary lib (merged_tx t) = Inr bs" "Cardano_Hash lib (merged_tx t) = Cardano_Hash lib t"
      by (simp_all add: Cardano_MarshalBinary_def Cardano_Hash_def Cardano_SignBytes_def)
    with ok cardano_unmarshal_marshal [of lib iter t bs] t show ?thesis by auto
  qed
qed

section \<open>Any chain\<close>

text \<open>The documented behaviour of the libraries that a transaction relies on, and the form it has to have.\<close>

definition libs_ok :: "('k, 'p) chain_libs \<Rightarrow> bool" where
  "libs_ok libs \<longleftrightarrow> rlp_ok (EvmLib libs) \<and> cbor_ok (CborLib libs) \<and> (\<forall>xs. mset (RangeOrder libs xs) = mset xs)"

definition sendable :: "transaction \<Rightarrow> bool" where
  "sendable t \<longleftrightarrow>
     (case t of Evm_Tx tx \<Rightarrow> wf_evm tx | Btc_Tx tx \<Rightarrow> wf_tx tx | Solana_Tx tx \<Rightarrow> solana_ready tx | Cardano_Tx tx \<Rightarrow> True)"

text \<open>The new transaction that a program reads into.\<close>

definition new_like :: "transaction \<Rightarrow> transaction" where
  "new_like t =
     (case t of
        Evm_Tx _ \<Rightarrow> Evm_Tx new_evm
      | Btc_Tx _ \<Rightarrow> Btc_Tx new_btc
      | Solana_Tx _ \<Rightarrow> Solana_Tx new_solana
      | Cardano_Tx _ \<Rightarrow> Cardano_Tx \<lparr>CInputs = [], COutputs = [], CFee = 0, CTTL = 0, CWitnesses = []\<rparr>)"

interpretation any_wire: wire_tx "\<lambda>t. libs_ok libs \<and> sendable t \<and> new_like t = new" "Transaction_MarshalBinary libs"
    "Transaction_UnmarshalBinary libs new" "Transaction_Hash libs" for libs new
proof
  show "\<exists>t'. Transaction_UnmarshalBinary libs new bs = Inr t' \<and> (libs_ok libs \<and> sendable t' \<and> new_like t' = new) \<and>
      Transaction_MarshalBinary libs t' = Inr bs \<and> Transaction_Hash libs t' = Transaction_Hash libs t"
    if t: "libs_ok libs \<and> sendable t \<and> new_like t = new" "Transaction_MarshalBinary libs t = Inr bs" for t bs
  proof (cases t)
    case (Evm_Tx tx)
    with t evm_wire.carries [of "EvmLib libs" tx bs "CryptoLib libs"] show ?thesis
      by (auto simp: libs_ok_def sendable_def new_like_def Transaction_UnmarshalBinary_def Transaction_MarshalBinary_def Transaction_Hash_def)
  next
    case (Btc_Tx tx)
    with t btc_reads [of tx new_btc] show ?thesis
      by (auto simp: libs_ok_def sendable_def new_like_def Transaction_UnmarshalBinary_def Transaction_MarshalBinary_def Transaction_Hash_def
          BtcTx_MarshalBinary_def)
  next
    case (Solana_Tx tx)
    with t solana_wire.carries [of tx bs] show ?thesis
      by (auto simp: libs_ok_def sendable_def new_like_def Transaction_UnmarshalBinary_def Transaction_MarshalBinary_def Transaction_Hash_def)
  next
    case (Cardano_Tx tx)
    with t cardano_wire.carries [of "CborLib libs" "RangeOrder libs" tx bs] show ?thesis
      by (auto simp: libs_ok_def sendable_def new_like_def Transaction_UnmarshalBinary_def Transaction_MarshalBinary_def Transaction_Hash_def)
  qed
qed


definition demo_libs :: "(nat, nat) chain_libs" where
  "demo_libs = \<lparr>EvmLib = demo_evm, CryptoLib = toy_crypto, CborLib = ref_cbor, RangeOrder = rev\<rparr>"


text \<open>
  The first slot has to be filled for that: an unsigned Solana transaction has no hash, and once relayed
  one of zeros.
\<close>

theorem solana_unsigned_hash:
  assumes "ok_tx tx" "Signatures tx = [] # ss"
  shows "SolanaTx_Hash tx = fail ''transaction has no signature'' \<and>
    (\<exists>tx'. relay SolanaTx_MarshalBinary (SolanaTx_UnmarshalBinary old) 1 tx = Inr tx' \<and> SolanaTx_Hash tx' = Inr (replicate 64 0))"
proof -
  have "Signatures (received old tx) = replicate 64 0 # map filled ss"
    using assms(2) by (simp add: received_def filled_def split: option.split)
  then show ?thesis
    using SolanaTx_MarshalBinary_bytes [OF assms(1)] SolanaTx_UnmarshalBinary_bytes [OF assms(1), of old "[]"] assms(2)
    by (simp add: SolanaTx_Hash_def)
qed

end
