(* ===== verification/Spec2Isabelle.thy ===== *)
theory Spec2Isabelle
  imports Prelude Codec Pushes Reader Amount BtcTx SolanaWire SolanaTx SolanaProgram Crypto Script Info Reward Taproot BtcSign BtcPrefill BtcParse EvmRlp EvmAbi EvmTx EvmSign Bech32 CardanoAddr CardanoKey Address AddressProps TronTx CardanoTx EvmJson BtcBuild SolanaSigning Transaction
begin

text \<open>
  \<^bold>\<open>Outscript\<close> is a Go package that builds output scripts and addresses of many blockchains, and that
  writes, reads, signs and measures their transactions. This development models its functions from the
  source and proves what they promise.

  \<^bold>\<open>Conventions.\<close> A byte is \<^typ>\<open>8 word\<close>, a machine integer a word of its width, a slice a list;
  indices and lengths are natural numbers, and an access out of range is the value \<^verbatim>\<open>Inl Panic\<close>
  of \<^verbatim>\<open>Prelude\<close>. An error carries the format string of the source; an error whose text is
  never looked at is \<open>None\<close>. Methods that change their receiver return it. A pointer or slice is an
  option only where the code tells nil from empty. Text is a list of bytes, as in Go.

  \<^bold>\<open>Parts of the program.\<close>
  \<^item> \<^verbatim>\<open>Prelude\<close>: results, sequencing, slicing, maps over fallible functions, hexadecimal text,
    searching of bytes. \<^verbatim>\<open>Codec\<close>: the locales for formats that are written and read back, with
    their instances in the theories of the formats.
  \<^item> \<^verbatim>\<open>Pushes\<close> (\<^verbatim>\<open>pushbytes.go\<close>), \<^verbatim>\<open>Reader\<close>
    (\<^verbatim>\<open>util.go\<close>, \<^verbatim>\<open>btcvarint.go\<close>) and \<^verbatim>\<open>Amount\<close>
    (\<^verbatim>\<open>btcamount.go\<close>): pushes of script data, the reader that keeps its first error, integers
    of variable length, amounts as decimals.
  \<^item> \<^verbatim>\<open>BtcTx\<close>, \<^verbatim>\<open>BtcSign\<close>, \<^verbatim>\<open>Taproot\<close>,
    \<^verbatim>\<open>BtcPrefill\<close>, \<^verbatim>\<open>BtcParse\<close> (\<^verbatim>\<open>btctx.go\<close>,
    \<^verbatim>\<open>btctx_p2tr.go\<close>, \<^verbatim>\<open>p2tr.go\<close>, \<^verbatim>\<open>btctxparse.go\<close>):
    the wire format with and without witnesses, signature digests and signing, Taproot keys and
    signatures, estimated signatures and sizes, and reading back the signatures of an input.
  \<^item> \<^verbatim>\<open>Crypto\<close>, \<^verbatim>\<open>Script\<close>, \<^verbatim>\<open>Info\<close>
    (\<^verbatim>\<open>script.go\<close>, \<^verbatim>\<open>insertable.go\<close>, \<^verbatim>\<open>format.go\<close>,
    \<^verbatim>\<open>info.go\<close>, \<^verbatim>\<open>btcguess.go\<close>, \<^verbatim>\<open>eip55.go\<close>,
    \<^verbatim>\<open>etherhash.go\<close>): scripts of a key with their cache, formats by network, and telling
    what a script is.
  \<^item> \<^verbatim>\<open>Reward\<close> (\<^verbatim>\<open>reward.go\<close>): block rewards and their sums.
  \<^item> \<^verbatim>\<open>EvmRlp\<close>, \<^verbatim>\<open>EvmAbi\<close>, \<^verbatim>\<open>EvmTx\<close>,
    \<^verbatim>\<open>EvmSign\<close> (\<^verbatim>\<open>evmabi.go\<close>, \<^verbatim>\<open>evmtx.go\<close>,
    \<^verbatim>\<open>evmaccesslist.go\<close>, \<^verbatim>\<open>evmtx7702.go\<close>): the RLP and ABI encodings,
    the binary form of transactions of every type, their signing and the recovery of the sender.
  \<^item> \<^verbatim>\<open>SolanaWire\<close>, \<^verbatim>\<open>SolanaTx\<close>, \<^verbatim>\<open>SolanaProgram\<close>
    (\<^verbatim>\<open>solanatx.go\<close>, \<^verbatim>\<open>solana_instructions.go\<close>,
    \<^verbatim>\<open>solana_pda.go\<close>): the wire format, compilation of instructions, signatures,
    derived addresses.
  \<^item> \<^verbatim>\<open>Bech32\<close>, \<^verbatim>\<open>CardanoAddr\<close>, \<^verbatim>\<open>CardanoKey\<close>
    (\<^verbatim>\<open>cardano.go\<close>, \<^verbatim>\<open>cardano_extkey.go\<close>,
    \<^verbatim>\<open>cardano_derive.go\<close>): text addresses with their checksum, extended keys and their
    derivation.
  \<^item> \<^verbatim>\<open>Address\<close>, \<^verbatim>\<open>AddressProps\<close> (\<^verbatim>\<open>address.go\<close>,
    \<^verbatim>\<open>tron.go\<close>, \<^verbatim>\<open>massa.go\<close>, \<^verbatim>\<open>solana.go\<close>): parsing and
    writing the addresses of all chains.
  \<^item> \<^verbatim>\<open>TronTx\<close> (\<^verbatim>\<open>trontx.go\<close>) and \<^verbatim>\<open>CardanoTx\<close>
    (\<^verbatim>\<open>cardanotx.go\<close>): transactions of the two chains, their wire forms, signing and
    signers. \<^verbatim>\<open>TronTx\<close> also holds a reader of protobuf messages, the reference for the
    writer of the code.
  \<^item> \<^verbatim>\<open>EvmJson\<close> and \<^verbatim>\<open>BtcBuild\<close> (\<^verbatim>\<open>evmtx.go\<close>,
    \<^verbatim>\<open>btctx.go\<close>): the JSON objects of transactions, with the texts of their numbers, and outputs added
    by address.
  \<^item> \<^verbatim>\<open>SolanaSigning\<close>: the states several signers of a Solana transaction go through.
    \<^verbatim>\<open>Transaction\<close> (\<^verbatim>\<open>transaction.go\<close>): the interface of the transactions of
    four chains, as a locale with an instance for each chain and one for any of them.

  A script holds a key and gives outputs (\<^verbatim>\<open>Script_Out\<close>); an output is written as an address
  (\<^verbatim>\<open>Out_Address\<close>) and parsed from one; signing a Bitcoin input takes the script of its key,
  and the parser of signatures takes the signed input apart again. The theories import each other in the
  same way.

  \<^bold>\<open>Kinds of lemmas.\<close> For every format: what is written reads back, what is read was written, and
  reading any bytes neither panics nor depends on what follows. For signing: the digest is the one of a
  reference definition, the signature verifies or the signer is recovered from it. For sizes, rewards,
  keys and amounts: equality with a closed form or with integer arithmetic where the code works in bytes
  or words. For addresses: round trips, canonical forms and detection of typing errors.

  \<^bold>\<open>Bounds and fuel.\<close> \<^verbatim>\<open>generate\<close> follows at most three insertions, the depth of
  the deepest format. Decoding RLP takes the length of its input as fuel, and every step consumes a byte.
  Derived Cardano keys stay exact for \<open>5 * 2 ^ 26\<close> steps, and an EVM chain is recovered below
  \<open>2 ^ 62 - 18\<close>.

  \<^bold>\<open>What is assumed.\<close> Hash functions, elliptic curves, base58, CashAddr and SegWit texts, big numbers
  written in other libraries and Unicode tables are parameters: records of functions
  (\<^verbatim>\<open>crypto\<close>, \<^verbatim>\<open>evm_lib\<close>, \<^verbatim>\<open>ed_lib\<close>,
  \<^verbatim>\<open>addr_lib\<close>, \<^verbatim>\<open>cbor_lib\<close>, \<^verbatim>\<open>go_unicode\<close>); so is the
  order in which Go ranges over a map. A property states what it needs of them,
  such as lengths of hashes and decoding of what was encoded, and its witness gives functions that have it.

  \<^bold>\<open>Not modelled.\<close> The text layer of \<^verbatim>\<open>encoding/json\<close>, and what a receiver
  holds after a JSON method failed; the registration of hash functions and the methods that only describe
  a value for logs; locks; nil pointers inside the lists of a transaction.
\<close>

end
